(* ===== verification/Prelude.thy ===== *)
theory Prelude
  imports Main "HOL-Library.Word" "HOL-Library.AList" "HOL-Library.List_Lexorder"
    "HOL-Library.Char_ord" "HOL-Library.Sublist"
begin

text \<open>
  Shared vocabulary of the development: the machine integers of the program, byte strings,
  results as sums (\<open>Inl\<close> is Rust's \<open>Err\<close>, \<open>Inr\<close> is \<open>Ok\<close>), the sequencing operator that
  models Rust's \<open>?\<close> in stateful code, the standard library's string functions that the
  sources call, and generic lemmas on sorted lists and association lists.
\<close>

section \<open>Types\<close>

type_synonym u8 = "8 word"
type_synonym u16 = "16 word"
type_synonym u32 = "32 word"
type_synonym u64 = "64 word"

text \<open>
  Text and bytes are both lists of \<open>char\<close>: a HOL \<open>char\<close> is one byte, so a Rust \<open>String\<close>
  is the list of its UTF-8 bytes and \<open>length\<close> is Rust's \<open>len\<close>.
\<close>

type_synonym bytes = string

text \<open>
  Collection sizes and counters of type \<open>usize\<close> are natural numbers where they count
  elements that exist; where the source saturates or takes \<open>usize::MAX\<close> the bound is
  written out with \<open>usize_max\<close>.
\<close>

definition usize_max :: nat where
  "usize_max = 18446744073709551615"

definition sat_add_usize :: "nat \<Rightarrow> nat \<Rightarrow> nat" where
  "sat_add_usize a b = min (a + b) usize_max"

definition sat_sub_u32 :: "u32 \<Rightarrow> u32 \<Rightarrow> u32" where
  "sat_sub_u32 a b = (if a < b then 0 else a - b)"

named_theorems result_simps \<open>unfolding rules for results and the sequencing operators\<close>
named_theorems quiet_simps \<open>behaviour of the file operations when nothing interferes\<close>
named_theorems lane_simps \<open>facts on the abstract lane of a queue\<close>

section \<open>Sequencing fallible, stateful code\<close>

definition retE :: "'a \<Rightarrow> 's \<Rightarrow> ('e + 'a) \<times> 's" where
  "retE x s = (Inr x, s)"

definition failE :: "'e \<Rightarrow> 's \<Rightarrow> ('e + 'a) \<times> 's" where
  "failE e s = (Inl e, s)"

definition bindE :: "('s \<Rightarrow> ('e + 'a) \<times> 's) \<Rightarrow> ('a \<Rightarrow> 's \<Rightarrow> ('e + 'b) \<times> 's) \<Rightarrow> 's \<Rightarrow> ('e + 'b) \<times> 's" where
  "bindE m k s = (case m s of (Inl e, s') \<Rightarrow> (Inl e, s') | (Inr x, s') \<Rightarrow> k x s')"

text \<open>\<open>catchE m h\<close> hands both outcomes of \<open>m\<close> to \<open>h\<close>, as a \<open>match\<close> on the result does.\<close>

definition catchE :: "('s \<Rightarrow> ('e + 'a) \<times> 's) \<Rightarrow> (('e + 'a) \<Rightarrow> 's \<Rightarrow> 'b \<times> 's) \<Rightarrow> 's \<Rightarrow> 'b \<times> 's" where
  "catchE m h s = (case m s of (r, s') \<Rightarrow> h r s')"

definition map_errE :: "('e \<Rightarrow> 'f) \<Rightarrow> ('s \<Rightarrow> ('e + 'a) \<times> 's) \<Rightarrow> 's \<Rightarrow> ('f + 'a) \<times> 's" where
  "map_errE f m s = (case m s of (Inl e, s') \<Rightarrow> (Inl (f e), s') | (Inr x, s') \<Rightarrow> (Inr x, s'))"

lemmas seq_defs = retE_def failE_def bindE_def catchE_def map_errE_def

declare retE_def [result_simps] failE_def [result_simps]

lemma bindE_Inr [result_simps]: "m s = (Inr x, s') \<Longrightarrow> bindE m k s = k x s'"
  by (simp add: bindE_def)

lemma bindE_Inl [result_simps]: "m s = (Inl e, s') \<Longrightarrow> bindE m k s = (Inl e, s')"
  by (simp add: bindE_def)

lemma catchE_eq [result_simps]: "m s = (r, s') \<Longrightarrow> catchE m h s = h r s'"
  by (simp add: catchE_def)

lemma map_errE_Inr [result_simps]: "m s = (Inr x, s') \<Longrightarrow> map_errE f m s = (Inr x, s')"
  by (simp add: map_errE_def)

lemma map_errE_Inl [result_simps]: "m s = (Inl e, s') \<Longrightarrow> map_errE f m s = (Inl (f e), s')"
  by (simp add: map_errE_def)

lemma bindE_cases:
  assumes "bindE m k s = (r, t)"
  obtains (fails) e where "m s = (Inl e, t)" "r = Inl e"
    | (goes_on) x u where "m s = (Inr x, u)" "k x u = (r, t)"
  using assms by (auto simp: bindE_def split: prod.splits sum.splits)

lemma map_errE_cases:
  assumes "map_errE f m s = (r, t)"
  obtains (fails) e where "m s = (Inl e, t)" "r = Inl (f e)"
    | (goes_on) x where "m s = (Inr x, t)" "r = Inr x"
  using assms by (auto simp: map_errE_def split: prod.splits sum.splits)

section \<open>Standard library string functions\<close>

definition ends_with :: "string \<Rightarrow> string \<Rightarrow> bool" where
  "ends_with s t = suffix t s"

definition strip_prefix :: "string \<Rightarrow> string \<Rightarrow> string option" where
  "strip_prefix p s = (if prefix p s then Some (drop (length p) s) else None)"

definition strip_suffix :: "string \<Rightarrow> string \<Rightarrow> string option" where
  "strip_suffix t s = (if suffix t s then Some (take (length s - length t) s) else None)"

text \<open>\<open>str::split_once\<close> on a character splits at its first occurrence.\<close>

fun split_once :: "char \<Rightarrow> string \<Rightarrow> (string \<times> string) option" where
  "split_once c [] = None"
| "split_once c (x # xs) =
     (if x = c then Some ([], xs)
      else map_option (\<lambda>(k, v). (x # k, v)) (split_once c xs))"

text \<open>Decimal digits, as \<open>{}\<close> formats an unsigned integer.\<close>

definition digit_char :: "nat \<Rightarrow> char" where
  "digit_char d = char_of (48 + d)"

fun show_nat :: "nat \<Rightarrow> string" where
  "show_nat n = (if n < 10 then [digit_char n] else show_nat (n div 10) @ [digit_char (n mod 10)])"

declare show_nat.simps [simp del]

definition newline :: char where
  "newline = CHR 0x0A"

text \<open>
  \<open>str::trim\<close> removes the characters with the Unicode property \<open>White_Space\<close> from both
  ends. \<open>white_space\<close> lists their UTF-8 encodings.
\<close>

definition white_space :: "string list" where
  "white_space =
     map (\<lambda>n. [char_of (n :: nat)]) [0x09, 0x0A, 0x0B, 0x0C, 0x0D, 0x20]
     @ map (map char_of)
         ([[0xC2, 0x85], [0xC2, 0xA0], [0xE1, 0x9A, 0x80]]
          @ map (\<lambda>n. [0xE2, 0x80, n]) ([0x80, 0x81, 0x82, 0x83, 0x84, 0x85, 0x86, 0x87, 0x88, 0x89, 0x8A]
              @ [0xA8, 0xA9, 0xAF])
          @ [[0xE2, 0x81, 0x9F], [0xE3, 0x80, 0x80 :: nat]])"

lemma white_space_nonempty: "w \<in> set white_space \<Longrightarrow> w \<noteq> []"
  by (auto simp: white_space_def)

function trim_start :: "string \<Rightarrow> string" where
  "trim_start s =
     (case find (\<lambda>w. prefix w s) white_space of
        None \<Rightarrow> s
      | Some w \<Rightarrow> trim_start (drop (length w) s))"
  by pat_completeness auto
termination
proof (relation "measure length")
  fix s w
  assume "find (\<lambda>w. prefix w s) white_space = Some w"
  then have "w \<in> set white_space" and "prefix w s" by (auto simp: find_Some_iff)
  then show "(drop (length w) s, s) \<in> measure length"
    using white_space_nonempty [of w] by (auto simp: prefix_def)
qed simp

function trim_end :: "string \<Rightarrow> string" where
  "trim_end s =
     (case find (\<lambda>w. suffix w s) white_space of
        None \<Rightarrow> s
      | Some w \<Rightarrow> trim_end (take (length s - length w) s))"
  by pat_completeness auto
termination
proof (relation "measure length")
  fix s w
  assume "find (\<lambda>w. suffix w s) white_space = Some w"
  then have "w \<in> set white_space" and "suffix w s" by (auto simp: find_Some_iff)
  then show "(take (length s - length w) s, s) \<in> measure length"
    using white_space_nonempty [of w] by (auto simp: suffix_def)
qed simp

declare trim_start.simps [simp del] trim_end.simps [simp del]

definition trim :: "string \<Rightarrow> string" where
  "trim s = trim_end (trim_start s)"

text \<open>\<open>Path::join\<close> of a base and a relative or absolute component.\<close>

definition path_join :: "string \<Rightarrow> string \<Rightarrow> string" where
  "path_join base x =
     (if x \<noteq> [] \<and> hd x = CHR ''/'' then x
      else if base = [] \<or> last base = CHR ''/'' then base @ x
      else base @ ''/'' @ x)"

lemma split_once_None: "split_once c s = None \<longleftrightarrow> c \<notin> set s"
  by (induction s) auto

lemma split_once_Some: "split_once c s = Some (k, v) \<longleftrightarrow> s = k @ c # v \<and> c \<notin> set k"
proof (induction s arbitrary: k)
  case (Cons x xs)
  then show ?case by (cases k) auto
qed simp

lemma strip_prefix_append [simp]: "strip_prefix p (p @ s) = Some s"
  by (simp add: strip_prefix_def)

lemma strip_prefix_Some: "strip_prefix p s = Some t \<longleftrightarrow> s = p @ t"
  by (auto simp: strip_prefix_def prefix_def)

lemma strip_suffix_append [simp]: "strip_suffix t (s @ t) = Some s"
  by (simp add: strip_suffix_def suffix_def)

lemma strip_suffix_Some: "strip_suffix t s = Some u \<longleftrightarrow> s = u @ t"
  by (auto simp: strip_suffix_def suffix_def)

section \<open>Sorted lists of names\<close>

lemma sort_distinct_set: "distinct xs \<Longrightarrow> sort xs = sorted_list_of_set (set xs)"
  by (simp add: sorted_list_of_set_sort_remdups distinct_remdups_id)

lemma sorted_list_of_set_Un_less:
  fixes S T :: "'a::linorder set"
  assumes "finite S" and "finite T" and "\<And>x y. x \<in> S \<Longrightarrow> y \<in> T \<Longrightarrow> x < y"
  shows "sorted_list_of_set (S \<union> T) = sorted_list_of_set S @ sorted_list_of_set T"
proof (rule sorted_distinct_set_unique)
  show "sorted (sorted_list_of_set S @ sorted_list_of_set T)"
    using assms by (auto simp: sorted_append intro: less_imp_le)
  show "distinct (sorted_list_of_set S @ sorted_list_of_set T)" using assms by fastforce
qed (use assms in auto)

lemma sorted_list_of_set_insert_greatest:
  fixes S :: "'a::linorder set"
  assumes "finite S" and "\<And>y. y \<in> S \<Longrightarrow> y < x"
  shows "sorted_list_of_set (insert x S) = sorted_list_of_set S @ [x]"
  using sorted_list_of_set_Un_less [of S "{x}"] assms by simp

lemma sorted_list_of_set_Cons:
  fixes S :: "'a::linorder set"
  assumes "finite S" and "sorted_list_of_set S = x # xs"
  shows "x \<in> S" and "xs = sorted_list_of_set (S - {x})" and "\<And>y. y \<in> S - {x} \<Longrightarrow> x < y"
proof -
  have s: "sorted (x # xs)" and d: "distinct (x # xs)"
    using sorted_sorted_list_of_set [of S] distinct_sorted_list_of_set [of S]
    unfolding assms(2) by auto
  have set: "S = set (x # xs)" using assms set_sorted_list_of_set by metis
  show "x \<in> S" using set by simp
  show "xs = sorted_list_of_set (S - {x})"
    using s d set assms(1) by (intro sorted_distinct_set_unique) auto
  show "x < y" if "y \<in> S - {x}" for y using that s d set by (auto simp: le_less)
qed

lemma sorted_list_of_set_remove_head:
  fixes x :: "'a::linorder"
  assumes "finite S" and "x \<in> S" and "\<And>y. y \<in> S - {x} \<Longrightarrow> x < y"
  shows "sorted_list_of_set S = x # sorted_list_of_set (S - {x})"
proof -
  have "S = {x} \<union> (S - {x})" using assms(2) by auto
  then have "sorted_list_of_set S = sorted_list_of_set {x} @ sorted_list_of_set (S - {x})"
    using sorted_list_of_set_Un_less [of "{x}" "S - {x}"] assms by auto
  then show ?thesis by simp
qed

section \<open>Association lists\<close>

lemma map_of_eq_Some_iff_mem:
  "distinct (map fst xs) \<Longrightarrow> map_of xs k = Some v \<longleftrightarrow> (k, v) \<in> set xs"
  by simp

lemma distinct_map_fst_filter: "distinct (map fst xs) \<Longrightarrow> distinct (map fst (filter P xs))"
  by (induction xs) auto

end
