(* ===== verification/Errors.thy ===== *)
theory Errors
  imports Prelude
begin

text \<open>
  The errors of the program (\<open>src/inengine-core/src/error.rs\<close>): the error enums with the text
  that each one displays and the source it keeps, and the two renderings of an error with its
  chain of sources. Errors of the standard library and of third-party crates are values of
  \<open>dyn_error\<close>: a display text and an optional source, which is all that \<open>dyn Error\<close> offers.
\<close>

section \<open>Errors as values\<close>

datatype dyn_error = DynError (err_text: string) (err_source: "dyn_error option")

datatype io_kind = NotFound | AlreadyExists | PermissionDenied | InterruptedCall | OtherKind

datatype io_error = IoError (io_kind: io_kind) (io_dyn: dyn_error)

definition io_other :: "string \<Rightarrow> io_error" where
  "io_other t = IoError OtherKind (DynError t None)"

text \<open>\<open>CommandError\<close>, \<open>QueueError\<close>, \<open>DuplicateCommand\<close> and \<open>ConfigError\<close>.\<close>

datatype command_error =
    Failed string "dyn_error option"
  | Timeout u64
  | Interrupted

type_synonym command_result = "command_error + unit"

definition failed :: "string \<Rightarrow> command_error" where
  "failed message = Failed message None"

definition failed_with :: "string \<Rightarrow> dyn_error \<Rightarrow> command_error" where
  "failed_with message source = Failed message (Some source)"

datatype queue_error =
    Serialization dyn_error
  | Compress io_error
  | Decompress io_error
  | PayloadNotBase64 dyn_error
  | QueueIo io_error
  | RedisError dyn_error
  | UnknownCommand string string

datatype duplicate_command = DuplicateCommand string string

datatype config_error =
    FileNotFound string
  | Invalid string
  | ConfigIo string io_error

text \<open>The text and the source of each error, as the \<open>#[error]\<close> and \<open>#[source]\<close> attributes give them.\<close>

fun command_error_dyn :: "command_error \<Rightarrow> dyn_error" where
  "command_error_dyn (Failed message source) = DynError (''command failed: '' @ message) source"
| "command_error_dyn (Timeout seconds) =
     DynError (''command timed out after '' @ show_nat (unat seconds) @ '' seconds'') None"
| "command_error_dyn Interrupted =
     DynError ''command stopped because the server is stopping'' None"

fun queue_error_dyn :: "queue_error \<Rightarrow> dyn_error" where
  "queue_error_dyn (Serialization e) =
     DynError ''could not serialize or parse a queued message'' (Some e)"
| "queue_error_dyn (Compress e) = DynError ''could not compress the payload'' (Some (io_dyn e))"
| "queue_error_dyn (Decompress e) = DynError ''could not decompress the payload'' (Some (io_dyn e))"
| "queue_error_dyn (PayloadNotBase64 e) = DynError ''the payload is not valid base64'' (Some e)"
| "queue_error_dyn (QueueIo e) =
     DynError ''could not read or write the queue files'' (Some (io_dyn e))"
| "queue_error_dyn (RedisError e) = DynError ''could not complete a Redis command'' (Some e)"
| "queue_error_dyn (UnknownCommand plugin command) =
     DynError (''command not found in plugin '' @ [CHR 0x27] @ plugin @ [CHR 0x27] @ '': '' @ command) None"

fun duplicate_command_dyn :: "duplicate_command \<Rightarrow> dyn_error" where
  "duplicate_command_dyn (DuplicateCommand plugin command) =
     DynError (''duplicate command in plugin '' @ [CHR 0x27] @ plugin @ [CHR 0x27] @ '': '' @ command) None"

section \<open>The chain of an error and its sources\<close>

text \<open>\<open>std::iter::successors(Some(error), source)\<close>: the error, its source, the source of that.\<close>

fun successors :: "dyn_error \<Rightarrow> dyn_error list" where
  "successors (DynError t None) = [DynError t None]"
| "successors (DynError t (Some e)) = DynError t (Some e) # successors e"

text \<open>
  The filter of \<open>chain\<close>. The closure keeps the text of the last error it saw, kept or not, and
  drops an error whose non-empty text ends that text.
\<close>

fun skip_repeated :: "string \<Rightarrow> dyn_error list \<Rightarrow> dyn_error list" where
  "skip_repeated previous [] = []"
| "skip_repeated previous (e # es) =
     (let text = err_text e; repeated = text \<noteq> [] \<and> ends_with previous text
      in if repeated then skip_repeated text es else e # skip_repeated text es)"

definition chain :: "dyn_error \<Rightarrow> dyn_error list" where
  "chain error = skip_repeated [] (successors error)"

definition describe_error_chain :: "dyn_error \<Rightarrow> string" where
  "describe_error_chain error =
     (case chain error of
        [] \<Rightarrow> []
      | first # causes \<Rightarrow>
          ''Error: '' @ err_text first @ [newline]
          @ concat (map (\<lambda>cause. ''  caused by: '' @ err_text cause @ [newline]) causes))"

text \<open>\<open>Display\<close> of \<open>ErrorChain\<close>: the separator comes before every error but the first.\<close>

definition error_chain :: "dyn_error \<Rightarrow> string" where
  "error_chain error =
     concat (map (\<lambda>(index, e). (if index > 0 then '': '' else []) @ err_text e)
       (enumerate 0 (chain error)))"

section \<open>Facts\<close>

lemma successors_hd: "\<exists>es. successors e = e # es"
  by (cases e rule: successors.cases) auto

lemma ends_with_Nil [simp]: "ends_with [] t \<longleftrightarrow> t = []"
  by (auto simp: ends_with_def)

lemma ends_with_refl [simp]: "ends_with t t"
  by (simp add: ends_with_def)

lemma chain_hd: "\<exists>es. chain e = e # es"
  using successors_hd [of e] by (auto simp: chain_def Let_def)

lemma error_chain_Cons:
  "concat (map (\<lambda>(index, e). (if index > 0 then '': '' else []) @ err_text e) (enumerate (Suc n) es))
    = concat (map (\<lambda>e. '': '' @ err_text e) es)"
  by (induction es arbitrary: n) auto

text \<open>The stateful filter, as a condition on the neighbours of the unfiltered chain.\<close>

definition shown_by_parent :: "dyn_error \<Rightarrow> dyn_error \<Rightarrow> bool" where
  "shown_by_parent parent e = (err_text e \<noteq> [] \<and> ends_with (err_text parent) (err_text e))"

lemma skip_repeated_index:
  "skip_repeated (err_text p) es =
     map (nth es) (filter (\<lambda>i. \<not> shown_by_parent ((p # es) ! i) (es ! i)) [0..<length es])"
proof (induction es arbitrary: p)
  case (Cons e es)
  have upt: "[0..<length (e # es)] = 0 # map Suc [0..<length es]"
    by (simp add: upt_conv_Cons map_Suc_upt del: upt_Suc)
  show ?case
    unfolding upt using Cons.IH [of e]
    by (simp add: Let_def shown_by_parent_def filter_map comp_def)
qed simp

lemma chain_index:
  "chain e = e # map (nth (tl (successors e)))
     (filter (\<lambda>i. \<not> shown_by_parent (successors e ! i) (tl (successors e) ! i))
       [0..<length (tl (successors e))])"
proof -
  obtain es where es: "successors e = e # es" using successors_hd by blast
  then show ?thesis using skip_repeated_index [of e es] by (simp add: chain_def Let_def)
qed

end
