(* ===== verification/FileSys.thy ===== *)
theory FileSys
  imports Errors
begin

text \<open>
  The part of \<open>std::fs\<close>, \<open>std::time\<close> and of the version 7 UUID supply that the file queue uses,
  as operations on an explicit world. A directory is an association list from file names to
  nodes, in the order in which \<open>read_dir\<close> yields them, which is arbitrary.

  Other processes, failing calls and crashes are part of the world. \<open>script\<close> says what happens
  around each of the coming calls, in order: the actions of rival processes before it, and
  then whether the call proceeds, fails with an error, or finds the process crashed. A crashed
  process stays crashed: every later call of it has no effect, so a run whose script crashes
  at a call leaves the directories as that prefix of the operation left them. With the empty
  script every call proceeds undisturbed.
\<close>

section \<open>The world\<close>

datatype node = RegFile bytes int | Directory int

fun modified :: "node \<Rightarrow> int" where
  "modified (RegFile _ t) = t"
| "modified (Directory t) = t"

fun is_file :: "node \<Rightarrow> bool" where
  "is_file (RegFile _ _) = True"
| "is_file (Directory _) = False"

type_synonym directory = "(string \<times> node) list"
type_synonym fsys = "string \<rightharpoonup> directory"

datatype rival =
    Elapse nat
  | RivalRemove string string
  | RivalRename string string string string
  | RivalWrite string string bytes

datatype outcome = Proceed | Fault io_error nat | Crash

text \<open>\<open>clock\<close> is the time in nanoseconds; \<open>uuids i\<close> is the text of the \<open>i\<close>-th UUID made.\<close>

record world =
  dirs :: fsys
  script :: "(rival list \<times> outcome) list"
  clock :: int
  uuids :: "nat \<Rightarrow> string"
  uuid_next :: nat

type_synonym 'a io = "world \<Rightarrow> (io_error + 'a) \<times> world"

definition node_at :: "fsys \<Rightarrow> string \<Rightarrow> string \<Rightarrow> node option" where
  "node_at d p n = (case d p of None \<Rightarrow> None | Some es \<Rightarrow> map_of es n)"

definition put_node :: "string \<Rightarrow> string \<Rightarrow> node \<Rightarrow> fsys \<Rightarrow> fsys" where
  "put_node p n x d = (case d p of None \<Rightarrow> d | Some es \<Rightarrow> d(p \<mapsto> AList.update n x es))"

definition drop_node :: "string \<Rightarrow> string \<Rightarrow> fsys \<Rightarrow> fsys" where
  "drop_node p n d = (case d p of None \<Rightarrow> d | Some es \<Rightarrow> d(p \<mapsto> AList.delete n es))"

section \<open>The effect of each call\<close>

type_synonym 'a call = "int \<Rightarrow> fsys \<Rightarrow> (io_error + 'a) \<times> fsys"

definition not_found :: io_error where
  "not_found = IoError NotFound (DynError ''No such file or directory (os error 2)'' None)"

definition already_exists :: io_error where
  "already_exists = IoError AlreadyExists (DynError ''File exists (os error 17)'' None)"

definition is_a_directory :: io_error where
  "is_a_directory = IoError OtherKind (DynError ''Is a directory (os error 21)'' None)"

definition call_remove_file :: "string \<Rightarrow> string \<Rightarrow> unit call" where
  "call_remove_file p n t d =
     (case node_at d p n of
        None \<Rightarrow> (Inl not_found, d)
      | Some (Directory _) \<Rightarrow> (Inl is_a_directory, d)
      | Some (RegFile _ _) \<Rightarrow> (Inr (), drop_node p n d))"

text \<open>A rename replaces a regular file at the target; a directory on either side of an existing target fails.\<close>

definition call_rename :: "string \<Rightarrow> string \<Rightarrow> string \<Rightarrow> string \<Rightarrow> unit call" where
  "call_rename p n q m t d =
     (case node_at d p n of
        None \<Rightarrow> (Inl not_found, d)
      | Some x \<Rightarrow>
          (if d q = None then (Inl not_found, d)
           else case node_at d q m of
               None \<Rightarrow> (Inr (), put_node q m x (drop_node p n d))
             | Some y \<Rightarrow>
                 (if is_file x \<and> is_file y then (Inr (), put_node q m x (drop_node p n d))
                  else (Inl is_a_directory, d))))"

definition call_create_new :: "string \<Rightarrow> string \<Rightarrow> unit call" where
  "call_create_new p n t d =
     (if d p = None then (Inl not_found, d)
      else case node_at d p n of
          Some _ \<Rightarrow> (Inl already_exists, d)
        | None \<Rightarrow> (Inr (), put_node p n (RegFile [] t) d))"

text \<open>Writing to an open file whose name is gone changes no directory.\<close>

definition write_prefix :: "string \<Rightarrow> string \<Rightarrow> bytes \<Rightarrow> int \<Rightarrow> fsys \<Rightarrow> fsys" where
  "write_prefix p n b t d =
     (case node_at d p n of Some (RegFile _ _) \<Rightarrow> put_node p n (RegFile b t) d | _ \<Rightarrow> d)"

definition call_write_all :: "string \<Rightarrow> string \<Rightarrow> bytes \<Rightarrow> unit call" where
  "call_write_all p n b t d = (Inr (), write_prefix p n b t d)"

definition call_sync :: "unit call" where
  "call_sync t d = (Inr (), d)"

definition call_open_dir :: "string \<Rightarrow> unit call" where
  "call_open_dir p t d = (if d p = None then Inl not_found else Inr (), d)"

definition call_read :: "string \<Rightarrow> string \<Rightarrow> bytes call" where
  "call_read p n t d =
     (case node_at d p n of
        None \<Rightarrow> Inl not_found
      | Some (Directory _) \<Rightarrow> Inl is_a_directory
      | Some (RegFile b _) \<Rightarrow> Inr b, d)"

definition call_node :: "string \<Rightarrow> string \<Rightarrow> node call" where
  "call_node p n t d = (case node_at d p n of None \<Rightarrow> Inl not_found | Some x \<Rightarrow> Inr x, d)"

definition call_exists :: "string \<Rightarrow> string \<Rightarrow> bool call" where
  "call_exists p n t d = (Inr (node_at d p n \<noteq> None), d)"

definition call_read_dir :: "string \<Rightarrow> string list call" where
  "call_read_dir p t d = (case d p of None \<Rightarrow> Inl not_found | Some es \<Rightarrow> Inr (map fst es), d)"

definition call_create_dir_all :: "string \<Rightarrow> unit call" where
  "call_create_dir_all p t d = (Inr (), if d p = None then d(p \<mapsto> []) else d)"

section \<open>Calls in a world with rivals, faults and crashes\<close>

fun rival_step :: "rival \<Rightarrow> world \<Rightarrow> world" where
  "rival_step (Elapse n) w = w\<lparr>clock := clock w + int n\<rparr>"
| "rival_step (RivalRemove p n) w = w\<lparr>dirs := snd (call_remove_file p n (clock w) (dirs w))\<rparr>"
| "rival_step (RivalRename p n q m) w = w\<lparr>dirs := snd (call_rename p n q m (clock w) (dirs w))\<rparr>"
| "rival_step (RivalWrite p n b) w = w\<lparr>dirs := put_node p n (RegFile b (clock w)) (dirs w)\<rparr>"

definition rivals :: "rival list \<Rightarrow> world \<Rightarrow> world" where
  "rivals rs w = fold rival_step rs w"

definition run_call :: "'a call \<Rightarrow> 'a io" where
  "run_call f w = (let (r, d) = f (clock w) (dirs w) in (r, w\<lparr>dirs := d\<rparr>))"

definition crashed :: io_error where
  "crashed = io_other ''the process is gone''"

text \<open>\<open>part\<close> is the effect of a call that fails after it processed some bytes.\<close>

definition syscall_with :: "(nat \<Rightarrow> int \<Rightarrow> fsys \<Rightarrow> fsys) \<Rightarrow> 'a call \<Rightarrow> 'a io" where
  "syscall_with part f w =
     (case script w of
        [] \<Rightarrow> run_call f w
      | (rs, Crash) # rest \<Rightarrow> (Inl crashed, w)
      | (rs, Proceed) # rest \<Rightarrow> run_call f (rivals rs (w\<lparr>script := rest\<rparr>))
      | (rs, Fault e k) # rest \<Rightarrow>
          (let w' = rivals rs (w\<lparr>script := rest\<rparr>)
           in (Inl e, w'\<lparr>dirs := part k (clock w') (dirs w')\<rparr>)))"

definition syscall :: "'a call \<Rightarrow> 'a io" where
  "syscall = syscall_with (\<lambda>_ _ d. d)"

definition fs_remove_file :: "string \<Rightarrow> string \<Rightarrow> unit io" where
  "fs_remove_file p n = syscall (call_remove_file p n)"

definition fs_rename :: "string \<Rightarrow> string \<Rightarrow> string \<Rightarrow> string \<Rightarrow> unit io" where
  "fs_rename p n q m = syscall (call_rename p n q m)"

definition fs_create_new :: "string \<Rightarrow> string \<Rightarrow> unit io" where
  "fs_create_new p n = syscall (call_create_new p n)"

definition fs_write_all :: "string \<Rightarrow> string \<Rightarrow> bytes \<Rightarrow> unit io" where
  "fs_write_all p n b =
     syscall_with (\<lambda>k. write_prefix p n (take k b)) (call_write_all p n b)"

definition fs_sync_all :: "unit io" where
  "fs_sync_all = syscall call_sync"

definition fs_open_dir :: "string \<Rightarrow> unit io" where
  "fs_open_dir p = syscall (call_open_dir p)"

definition fs_read :: "string \<Rightarrow> string \<Rightarrow> bytes io" where
  "fs_read p n = syscall (call_read p n)"

definition fs_node :: "string \<Rightarrow> string \<Rightarrow> node io" where
  "fs_node p n = syscall (call_node p n)"

definition fs_read_dir :: "string \<Rightarrow> string list io" where
  "fs_read_dir p = syscall (call_read_dir p)"

text \<open>The next entry of an open \<open>read_dir\<close> stream: the name is known, the read can fail.\<close>

definition fs_next_entry :: "unit io" where
  "fs_next_entry = syscall call_sync"

definition fs_create_dir_all :: "string \<Rightarrow> unit io" where
  "fs_create_dir_all p = syscall (call_create_dir_all p)"

text \<open>\<open>Path::exists\<close> reports a failing call as false.\<close>

definition path_exists :: "string \<Rightarrow> string \<Rightarrow> world \<Rightarrow> bool \<times> world" where
  "path_exists p n w =
     (case syscall (call_exists p n) w of (Inl _, w') \<Rightarrow> (False, w') | (Inr b, w') \<Rightarrow> (b, w'))"

text \<open>\<open>uuid::Uuid::now_v7().simple().to_string()\<close> takes the next UUID of the supply.\<close>

definition now_v7 :: "world \<Rightarrow> string \<times> world" where
  "now_v7 w = (uuids w (uuid_next w), w\<lparr>uuid_next := Suc (uuid_next w)\<rparr>)"

section \<open>Directories as maps\<close>

lemma node_at_put [simp]:
  "node_at (put_node p n x d) q m =
     (if d p \<noteq> None \<and> q = p \<and> m = n then Some x else node_at d q m)"
  by (auto simp: node_at_def put_node_def update_conv' split: option.splits)

lemma node_at_drop [simp]:
  "node_at (drop_node p n d) q m = (if q = p \<and> m = n then None else node_at d q m)"
  by (auto simp: node_at_def drop_node_def delete_conv' split: option.splits)

lemma put_node_None [simp]: "put_node p n x d q = None \<longleftrightarrow> d q = None"
  by (auto simp: put_node_def split: option.splits)

lemma drop_node_None [simp]: "drop_node p n d q = None \<longleftrightarrow> d q = None"
  by (auto simp: drop_node_def split: option.splits)

lemma write_prefix_None [simp]: "write_prefix p n b t d q = None \<longleftrightarrow> d q = None"
  by (auto simp: write_prefix_def split: option.splits node.splits)

lemma node_at_dir: "node_at d p n = Some x \<Longrightarrow> d p \<noteq> None"
  by (auto simp: node_at_def split: option.splits)

lemma node_at_write_prefix:
  "node_at (write_prefix p n b t d) q m =
     (if q = p \<and> m = n then (case node_at d p n of Some (RegFile _ _) \<Rightarrow> Some (RegFile b t) | x \<Rightarrow> x)
      else node_at d q m)"
  by (auto simp: write_prefix_def split: option.splits node.splits dest: node_at_dir)

text \<open>Every directory lists each name once.\<close>

definition fs_ok :: "fsys \<Rightarrow> bool" where
  "fs_ok d = (\<forall>p es. d p = Some es \<longrightarrow> distinct (map fst es))"

lemma fs_ok_put [simp]: "fs_ok d \<Longrightarrow> fs_ok (put_node p n x d)"
  by (auto simp: fs_ok_def put_node_def distinct_update split: option.splits if_splits)

lemma fs_ok_drop [simp]: "fs_ok d \<Longrightarrow> fs_ok (drop_node p n d)"
  by (auto simp: fs_ok_def drop_node_def distinct_delete split: option.splits if_splits)

lemma fs_ok_write_prefix [simp]: "fs_ok d \<Longrightarrow> fs_ok (write_prefix p n b t d)"
  by (auto simp: write_prefix_def split: option.splits node.splits)

lemma fs_ok_new_dir [simp]: "fs_ok d \<Longrightarrow> fs_ok (d(p \<mapsto> []))"
  by (auto simp: fs_ok_def)

section \<open>Quiet worlds\<close>

text \<open>Nothing interferes: the script is empty.\<close>

lemma syscall_quiet [quiet_simps]:
  "script w = [] \<Longrightarrow> syscall f w = (fst (f (clock w) (dirs w)), w\<lparr>dirs := snd (f (clock w) (dirs w))\<rparr>)"
  by (simp add: syscall_def syscall_with_def run_call_def split: prod.splits)

lemma syscall_with_quiet [quiet_simps]:
  "script w = [] \<Longrightarrow>
     syscall_with g f w = (fst (f (clock w) (dirs w)), w\<lparr>dirs := snd (f (clock w) (dirs w))\<rparr>)"
  by (simp add: syscall_with_def run_call_def split: prod.splits)

lemmas fs_defs = fs_remove_file_def fs_rename_def fs_create_new_def fs_write_all_def
  fs_sync_all_def fs_open_dir_def fs_read_def fs_node_def fs_read_dir_def fs_next_entry_def
  fs_create_dir_all_def

lemmas call_defs = call_remove_file_def call_rename_def call_create_new_def call_write_all_def
  call_sync_def call_open_dir_def call_read_def call_node_def call_exists_def call_read_dir_def
  call_create_dir_all_def

end
