(* ===== verification/Utf8.thy ===== *)
theory Utf8
  imports Prelude
begin

text \<open>
  UTF-8 as the standard library checks and repairs it: \<open>str::from_utf8\<close>, \<open>OsStr::to_str\<close> and
  \<open>String::from_utf8_lossy\<close>, which replaces each maximal invalid part by U+FFFD. The program
  calls them on the output of child processes (\<open>commands/exec/pipe.rs\<close>), on the output buffer
  (\<open>output.rs\<close>), on stored messages that do not parse (\<open>queue/mod.rs\<close>) and on file names
  (\<open>queue/driver/file/dir.rs\<close>).
\<close>

section \<open>Decoding one character\<close>

definition continuation :: "char \<Rightarrow> bool" where
  "continuation c = (of_char c \<in> {0x80..0xBF :: nat})"

text \<open>The number of bytes that the first byte announces, 0 when it cannot start a character.\<close>

definition char_width :: "char \<Rightarrow> nat" where
  "char_width c =
     (let a = of_char c :: nat
      in if a < 0x80 then 1
         else if a < 0xC2 then 0
         else if a < 0xE0 then 2
         else if a < 0xF0 then 3
         else if a < 0xF5 then 4
         else 0)"

text \<open>The second byte excludes overlong forms, surrogates and values past U+10FFFF.\<close>

definition second_ok :: "char \<Rightarrow> char \<Rightarrow> bool" where
  "second_ok c d =
     (let a = of_char c :: nat; b = of_char d :: nat
      in if a = 0xE0 then 0xA0 \<le> b \<and> b \<le> 0xBF
         else if a = 0xED then 0x80 \<le> b \<and> b \<le> 0x9F
         else if a = 0xF0 then 0x90 \<le> b \<and> b \<le> 0xBF
         else if a = 0xF4 then 0x80 \<le> b \<and> b \<le> 0x8F
         else continuation d)"

text \<open>Whether the bytes start with a character, and how many bytes it or the invalid part has.\<close>

fun utf8_step :: "bytes \<Rightarrow> bool \<times> nat" where
  "utf8_step [] = (False, 0)"
| "utf8_step (a # s) =
     (let w = char_width a
      in if w = 0 then (False, 1)
         else if w = 1 then (True, 1)
         else case s of
             [] \<Rightarrow> (False, 1)
           | b # s' \<Rightarrow>
               (if \<not> second_ok a b then (False, 1)
                else if w = 2 then (True, 2)
                else case s' of
                    [] \<Rightarrow> (False, 2)
                  | c # s'' \<Rightarrow>
                      (if \<not> continuation c then (False, 2)
                       else if w = 3 then (True, 3)
                       else case s'' of
                           [] \<Rightarrow> (False, 3)
                         | d # _ \<Rightarrow> if continuation d then (True, 4) else (False, 3))))"

lemma utf8_step_pos: "s \<noteq> [] \<Longrightarrow> 0 < snd (utf8_step s)"
  by (cases s) (auto simp: Let_def split: list.splits)

lemma utf8_step_le: "snd (utf8_step s) \<le> length s"
  by (cases s) (auto simp: Let_def split: list.splits)

lemma utf8_step_shorter: "s \<noteq> [] \<Longrightarrow> length s - snd (utf8_step s) < length s"
  using utf8_step_pos [of s] by (cases s) auto

section \<open>Checking and repairing text\<close>

function utf8_valid :: "bytes \<Rightarrow> bool" where
  "utf8_valid s =
     (if s = [] then True
      else if fst (utf8_step s) then utf8_valid (drop (snd (utf8_step s)) s)
      else False)"
  by pat_completeness auto
termination
  by (relation "measure length") (auto simp: utf8_step_shorter)

text \<open>\<open>OsStr::to_str\<close>.\<close>

definition to_str :: "bytes \<Rightarrow> string option" where
  "to_str s = (if utf8_valid s then Some s else None)"

definition replacement_char :: bytes where
  "replacement_char = map char_of [0xEF, 0xBF, 0xBD :: nat]"

function from_utf8_lossy :: "bytes \<Rightarrow> string" where
  "from_utf8_lossy s =
     (if s = [] then []
      else (case utf8_step s of (ok, n) \<Rightarrow> if ok then take n s else replacement_char)
           @ from_utf8_lossy (drop (snd (utf8_step s)) s))"
  by pat_completeness auto
termination
  by (relation "measure length") (auto simp: utf8_step_shorter)

declare utf8_valid.simps [simp del] from_utf8_lossy.simps [simp del]

lemma utf8_valid_Nil [simp]: "utf8_valid []"
  by (subst utf8_valid.simps) simp

lemma from_utf8_lossy_Nil [simp]: "from_utf8_lossy [] = []"
  by (subst from_utf8_lossy.simps) simp

lemma utf8_valid_step:
  "s \<noteq> [] \<Longrightarrow> utf8_valid s \<longleftrightarrow> fst (utf8_step s) \<and> utf8_valid (drop (snd (utf8_step s)) s)"
  by (subst utf8_valid.simps) simp

text \<open>A complete character is decoded the same way whatever follows it.\<close>

lemma utf8_step_append:
  assumes "fst (utf8_step s)"
  shows "utf8_step (s @ t) = utf8_step s"
  using assms by (cases s) (auto simp: Let_def split: list.splits if_splits)

lemma utf8_step_take:
  assumes "fst (utf8_step s)"
  shows "utf8_step (take (snd (utf8_step s)) s) = utf8_step s"
  using assms by (cases s) (auto simp: Let_def split: list.splits if_splits)

lemma from_utf8_lossy_valid: "utf8_valid s \<Longrightarrow> from_utf8_lossy s = s"
proof (induction s rule: utf8_valid.induct)
  case (1 s)
  show ?case
  proof (cases "s = []")
    case False
    then have ok: "fst (utf8_step s)" and rest: "utf8_valid (drop (snd (utf8_step s)) s)"
      using 1 utf8_valid_step by blast+
    then have "from_utf8_lossy (drop (snd (utf8_step s)) s) = drop (snd (utf8_step s)) s"
      using 1 False by blast
    then show ?thesis
      using ok False by (subst from_utf8_lossy.simps) (auto split: prod.splits)
  qed simp
qed

lemma utf8_valid_append: "utf8_valid s \<Longrightarrow> utf8_valid (s @ t) = utf8_valid t"
proof (induction s rule: utf8_valid.induct)
  case (1 s)
  show ?case
  proof (cases "s = []")
    case False
    then have ok: "fst (utf8_step s)" and rest: "utf8_valid (drop (snd (utf8_step s)) s)"
      using 1 utf8_valid_step by blast+
    have "utf8_valid (drop (snd (utf8_step s)) s @ t) = utf8_valid t"
      using 1 False ok rest by blast
    then show ?thesis
      using utf8_valid_step [of "s @ t"] utf8_step_append [OF ok, of t] False ok utf8_step_le [of s]
      by simp
  qed simp
qed

lemma utf8_valid_replacement [simp]: "utf8_valid replacement_char"
  by (simp add: replacement_char_def utf8_valid_step char_width_def second_ok_def
      continuation_def Let_def)

lemma utf8_valid_lossy: "utf8_valid (from_utf8_lossy s)"
proof (induction s rule: from_utf8_lossy.induct)
  case (1 s)
  show ?case
  proof (cases "s = []")
    case False
    let ?n = "snd (utf8_step s)"
    have IH: "utf8_valid (from_utf8_lossy (drop ?n s))" using 1 False by blast
    have "utf8_valid (take ?n s)" if "fst (utf8_step s)"
      using utf8_step_take [OF that] that False utf8_step_pos [of s] utf8_step_le [of s]
        utf8_valid_step [of "take ?n s"] by auto
    then have "utf8_valid (case utf8_step s of (ok, n) \<Rightarrow> if ok then take n s else replacement_char)"
      by (auto split: prod.splits)
    then show ?thesis
      using IH False by (subst from_utf8_lossy.simps) (simp add: utf8_valid_append)
  qed simp
qed

text \<open>ASCII text is valid.\<close>

lemma utf8_valid_ascii: "(\<And>c. c \<in> set s \<Longrightarrow> of_char c < (0x80 :: nat)) \<Longrightarrow> utf8_valid s"
proof (induction s)
  case (Cons a s)
  then have "char_width a = 1" by (simp add: char_width_def)
  then show ?case using Cons by (subst utf8_valid.simps) (simp add: Let_def)
qed simp

end
