(* ===== verification/QueueDir.thy ===== *)
theory QueueDir
  imports FileSys Utf8
begin

text \<open>
  The directory operations of the file queue (\<open>src/inengine-core/src/queue/driver/file/dir.rs\<close>):
  hidden names, listings, the atomic write, and removals and renames that tolerate a missing
  file. Each model makes its calls in the order of the source.
\<close>

definition TEMP_SUFFIX :: string where
  "TEMP_SUFFIX = ''.tmp''"

definition SETTLING_SUFFIX :: string where
  "SETTLING_SUFFIX = ''.settling''"

definition new_message_name :: "world \<Rightarrow> string \<times> world" where
  "new_message_name = now_v7"

definition is_hidden :: "string \<Rightarrow> bool" where
  "is_hidden name = (case name of [] \<Rightarrow> False | c # _ \<Rightarrow> c = CHR ''.'')"

definition hidden_name :: "string \<Rightarrow> string \<Rightarrow> string" where
  "hidden_name name sfx = ''.'' @ name @ sfx"

definition settling_name :: "string \<Rightarrow> string" where
  "settling_name name = hidden_name name SETTLING_SUFFIX"

definition strip_hidden_suffix :: "string \<Rightarrow> string \<Rightarrow> string option" where
  "strip_hidden_suffix name sfx =
     Option.bind (to_str name) (\<lambda>name.
     Option.bind (strip_prefix ''.'' name) (\<lambda>rest.
     Option.bind (strip_suffix sfx rest) (\<lambda>original.
       if original \<noteq> [] then Some original else None)))"

section \<open>Listings\<close>

text \<open>The loop of \<open>list_messages\<close> over the entries; \<open>file_type\<close> looks at the entry again.\<close>

primrec collect_messages :: "string \<Rightarrow> string list \<Rightarrow> string list \<Rightarrow> string list io" where
  "collect_messages dir [] names = retE names"
| "collect_messages dir (name # entries) names =
     bindE fs_next_entry (\<lambda>_.
       if is_hidden name then collect_messages dir entries names
       else catchE (fs_node dir name) (\<lambda>file_type.
         case file_type of
           Inr x \<Rightarrow>
             if is_file x then collect_messages dir entries (names @ [name])
             else collect_messages dir entries names
         | Inl error \<Rightarrow>
             if io_kind error = NotFound then collect_messages dir entries names
             else failE error))"

definition list_messages :: "string \<Rightarrow> string list io" where
  "list_messages dir =
     bindE (fs_read_dir dir) (\<lambda>entries.
     bindE (collect_messages dir entries []) (\<lambda>names. retE (sort names)))"

primrec collect_settles :: "string list \<Rightarrow> string list \<Rightarrow> string list io" where
  "collect_settles [] names = retE names"
| "collect_settles (name # entries) names =
     bindE fs_next_entry (\<lambda>_.
       case strip_hidden_suffix name SETTLING_SUFFIX of
         Some original \<Rightarrow> collect_settles entries (names @ [original])
       | None \<Rightarrow> collect_settles entries names)"

definition unfinished_settles :: "string \<Rightarrow> string list io" where
  "unfinished_settles dir =
     bindE (fs_read_dir dir) (\<lambda>entries.
     bindE (collect_settles entries []) (\<lambda>names. retE (sort names)))"

section \<open>Writes, removals and renames\<close>

text \<open>
  The write, the sync and the rename run until one of them fails; after a failure the temporary
  file is removed and its error is returned. The directory sync comes after the rename.
\<close>

definition write_atomic :: "string \<Rightarrow> string \<Rightarrow> bytes \<Rightarrow> unit io" where
  "write_atomic dir name contents =
     (let temp = hidden_name name TEMP_SUFFIX in
      bindE (fs_create_new dir temp) (\<lambda>_.
      catchE
        (bindE (fs_write_all dir temp contents) (\<lambda>_.
         bindE fs_sync_all (\<lambda>_.
         fs_rename dir temp dir name)))
        (\<lambda>written.
          case written of
            Inl error \<Rightarrow> catchE (fs_remove_file dir temp) (\<lambda>_. failE error)
          | Inr _ \<Rightarrow> bindE (fs_open_dir dir) (\<lambda>_. fs_sync_all))))"

definition remove_if_present :: "string \<Rightarrow> string \<Rightarrow> bool io" where
  "remove_if_present dir name =
     catchE (fs_remove_file dir name) (\<lambda>r.
       case r of
         Inr _ \<Rightarrow> retE True
       | Inl error \<Rightarrow> if io_kind error = NotFound then retE False else failE error)"

definition rename_if_present :: "string \<Rightarrow> string \<Rightarrow> string \<Rightarrow> string \<Rightarrow> bool io" where
  "rename_if_present from_dir from_name to_dir to_name =
     catchE (fs_rename from_dir from_name to_dir to_name) (\<lambda>r.
       case r of
         Inr _ \<Rightarrow> retE True
       | Inl error \<Rightarrow> if io_kind error = NotFound then retE False else failE error)"

text \<open>
  \<open>SystemTime::now().checked_sub(age)\<close> fails below the earliest time, and the epoch stands in.
\<close>

definition system_time_min :: int where
  "system_time_min = - (9223372036854775808 * 1000000000)"

definition cutoff_time :: "int \<Rightarrow> nat \<Rightarrow> int" where
  "cutoff_time now age = (if now - int age < system_time_min then 0 else now - int age)"

primrec remove_stale :: "string \<Rightarrow> int \<Rightarrow> string list \<Rightarrow> unit io" where
  "remove_stale dir cutoff [] = retE ()"
| "remove_stale dir cutoff (name # entries) =
     bindE fs_next_entry (\<lambda>_.
       if strip_hidden_suffix name TEMP_SUFFIX = None then remove_stale dir cutoff entries
       else catchE (fs_node dir name) (\<lambda>metadata.
         case metadata of
           Inl error \<Rightarrow>
             if io_kind error = NotFound then remove_stale dir cutoff entries else failE error
         | Inr x \<Rightarrow>
             if modified x < cutoff
             then bindE (remove_if_present dir name) (\<lambda>_. remove_stale dir cutoff entries)
             else remove_stale dir cutoff entries))"

definition remove_stale_temp_files :: "string \<Rightarrow> nat \<Rightarrow> unit io" where
  "remove_stale_temp_files dir age w =
     (let cutoff = cutoff_time (clock w) age
      in bindE (fs_read_dir dir) (remove_stale dir cutoff) w)"

primrec remove_settling :: "string \<Rightarrow> string list \<Rightarrow> nat \<Rightarrow> nat io" where
  "remove_settling dir [] removed = retE removed"
| "remove_settling dir (name # names) removed =
     bindE (remove_if_present dir (settling_name name)) (\<lambda>present.
       remove_settling dir names (if present then Suc removed else removed))"

definition remove_settling_files :: "string \<Rightarrow> nat io" where
  "remove_settling_files dir =
     bindE (unfinished_settles dir) (\<lambda>names. remove_settling dir names 0)"

section \<open>Names\<close>

lemma is_hidden_hidden_name [simp]: "is_hidden (hidden_name n s)"
  by (simp add: is_hidden_def hidden_name_def)

lemma is_hidden_settling [simp]: "is_hidden (settling_name n)"
  by (simp add: settling_name_def)

lemma hidden_name_inject [simp]: "hidden_name n s = hidden_name m s \<longleftrightarrow> n = m"
  by (simp add: hidden_name_def)

lemma settling_name_inject [simp]: "settling_name n = settling_name m \<longleftrightarrow> n = m"
  by (simp add: settling_name_def)

lemma temp_not_settling [simp]: "hidden_name n TEMP_SUFFIX \<noteq> settling_name m"
proof
  assume "hidden_name n TEMP_SUFFIX = settling_name m"
  then have "last (hidden_name n TEMP_SUFFIX) = last (settling_name m)" by simp
  then show False by (simp add: hidden_name_def settling_name_def TEMP_SUFFIX_def SETTLING_SUFFIX_def)
qed

lemma utf8_valid_suffixes: "utf8_valid ''.''" "utf8_valid TEMP_SUFFIX" "utf8_valid SETTLING_SUFFIX"
  by (rule utf8_valid_ascii, auto simp: TEMP_SUFFIX_def SETTLING_SUFFIX_def)+

lemma utf8_valid_hidden_name [simp]:
  "utf8_valid n \<Longrightarrow> s \<in> {TEMP_SUFFIX, SETTLING_SUFFIX} \<Longrightarrow> utf8_valid (hidden_name n s)"
  using utf8_valid_append [of "''.''" "n @ s"] utf8_valid_append [of n s] utf8_valid_suffixes
  by (auto simp: hidden_name_def)

lemma strip_hidden_suffix_Some:
  "strip_hidden_suffix name sfx = Some n \<longleftrightarrow> name = hidden_name n sfx \<and> n \<noteq> [] \<and> utf8_valid name"
  by (auto simp: strip_hidden_suffix_def to_str_def hidden_name_def bind_eq_Some_conv
      strip_prefix_Some strip_suffix_Some split: if_splits)

lemma strip_settling [simp]:
  "n \<noteq> [] \<Longrightarrow> utf8_valid n \<Longrightarrow> strip_hidden_suffix (settling_name n) SETTLING_SUFFIX = Some n"
  by (simp add: strip_hidden_suffix_Some settling_name_def)

lemma not_hidden_neq_hidden: "\<not> is_hidden n \<Longrightarrow> n \<noteq> hidden_name m s"
  by auto

lemma not_hidden_neq_settling: "\<not> is_hidden n \<Longrightarrow> n \<noteq> settling_name m"
  by auto

end
