(* ===== verification/Registry.thy ===== *)
theory Registry
  imports Errors
begin

text \<open>
  The command registry (\<open>src/inengine-core/src/queue/registry.rs\<close>): a map from plugin names to
  maps from command names to constructors. A constructor takes the JSON payload and builds a
  command or fails. The type \<open>'c\<close> of commands stands for \<open>Box<dyn Command>\<close>.
\<close>

type_synonym 'c constructor = "string \<Rightarrow> queue_error + 'c"

record 'c command_registry =
  plugins :: "string \<rightharpoonup> (string \<rightharpoonup> 'c constructor)"

text \<open>\<open>entry(plugin_name).or_default()\<close>: the plugin's map is created before the duplicate check.\<close>

definition register_command ::
  "string \<Rightarrow> string \<Rightarrow> 'c constructor \<Rightarrow> 'c command_registry
     \<Rightarrow> (duplicate_command + unit) \<times> 'c command_registry" where
  "register_command plugin_name command_name constructor registry =
     (let commands = (case plugins registry plugin_name of None \<Rightarrow> Map.empty | Some m \<Rightarrow> m)
      in if commands command_name \<noteq> None
         then (Inl (DuplicateCommand plugin_name command_name),
               registry\<lparr>plugins := (plugins registry)(plugin_name \<mapsto> commands)\<rparr>)
         else (Inr (),
               registry\<lparr>plugins := (plugins registry)
                 (plugin_name \<mapsto> commands(command_name \<mapsto> constructor))\<rparr>))"

text \<open>
  \<open>register_queueable\<close>: the constructor of a type \<open>T: QueueableCommand\<close> deserializes the payload.
  \<open>from_str\<close> is \<open>serde_json::from_str::<T>\<close> followed by boxing, with the names that \<open>T\<close> declares.
\<close>

definition register_queueable ::
  "string \<Rightarrow> string \<Rightarrow> (string \<Rightarrow> dyn_error + 'c) \<Rightarrow> 'c command_registry
     \<Rightarrow> (duplicate_command + unit) \<times> 'c command_registry" where
  "register_queueable PLUGIN_NAME COMMAND_NAME from_str =
     register_command PLUGIN_NAME COMMAND_NAME
       (\<lambda>json. case from_str json of Inl e \<Rightarrow> Inl (Serialization e) | Inr command \<Rightarrow> Inr command)"

definition build_command ::
  "'c command_registry \<Rightarrow> string \<Rightarrow> string \<Rightarrow> string \<Rightarrow> queue_error + 'c" where
  "build_command registry plugin_name command_name json =
     (case Option.bind (plugins registry plugin_name) (\<lambda>commands. commands command_name) of
        None \<Rightarrow> Inl (UnknownCommand plugin_name command_name)
      | Some constructor \<Rightarrow> constructor json)"

definition BUILTIN_PLUGIN_NAME :: string where
  "BUILTIN_PLUGIN_NAME = ''inengine-core''"

text \<open>
  \<open>CommandRegistry::new\<close> registers Echo, and Exec when that succeeded; \<open>None\<close> is the panic of
  \<open>expect\<close> when either registration fails.
\<close>

definition new_registry ::
  "(string \<Rightarrow> dyn_error + 'c) \<Rightarrow> (string \<Rightarrow> dyn_error + 'c) \<Rightarrow> 'c command_registry option" where
  "new_registry echo_from_str exec_from_str =
     (case register_queueable BUILTIN_PLUGIN_NAME ''echo'' echo_from_str \<lparr>plugins = Map.empty\<rparr> of
        (Inl _, _) \<Rightarrow> None
      | (Inr _, registry) \<Rightarrow>
          (case register_queueable BUILTIN_PLUGIN_NAME ''exec'' exec_from_str registry of
             (Inl _, _) \<Rightarrow> None
           | (Inr _, registry') \<Rightarrow> Some registry'))"

text \<open>The constructor that is registered for a pair of names.\<close>

definition constructor_for ::
  "'c command_registry \<Rightarrow> string \<times> string \<Rightarrow> 'c constructor option" where
  "constructor_for registry = (\<lambda>(p, c). Option.bind (plugins registry p) (\<lambda>m. m c))"

section \<open>Facts\<close>

lemma constructor_for_register:
  "constructor_for (snd (register_command p c f r)) =
     (if constructor_for r (p, c) = None then (constructor_for r)((p, c) \<mapsto> f)
      else constructor_for r)"
  by (rule ext) (auto simp: constructor_for_def register_command_def Let_def split: option.splits if_splits)

lemma register_result:
  "fst (register_command p c f r) =
     (if constructor_for r (p, c) = None then Inr () else Inl (DuplicateCommand p c))"
  by (auto simp: constructor_for_def register_command_def Let_def split: option.splits)

lemma build_constructor_for:
  "build_command r p c json =
     (case constructor_for r (p, c) of None \<Rightarrow> Inl (UnknownCommand p c) | Some f \<Rightarrow> f json)"
  by (simp add: build_command_def constructor_for_def)

lemma constructor_for_empty [simp]: "constructor_for \<lparr>plugins = Map.empty\<rparr> = Map.empty"
  by (auto simp: constructor_for_def)

text \<open>
  Registration as a client sees it: a finite map from pairs of names in which an insertion
  never replaces. The plugin loader and the command line rely on these laws alone.
\<close>

locale insert_once_map =
  fixes insert_entry :: "'k \<Rightarrow> 'v \<Rightarrow> 'm \<Rightarrow> ('e + unit) \<times> 'm"
    and entries :: "'m \<Rightarrow> 'k \<Rightarrow> 'v option"
    and duplicate :: "'k \<Rightarrow> 'e"
  assumes insert_fresh: "entries m k = None \<Longrightarrow> fst (insert_entry k v m) = Inr ()"
    and insert_duplicate: "entries m k \<noteq> None \<Longrightarrow> fst (insert_entry k v m) = Inl (duplicate k)"
    and entries_insert: "entries (snd (insert_entry k v m)) =
      (if entries m k = None then (entries m)(k \<mapsto> v) else entries m)"
begin

text \<open>Registering a list of entries, collecting the duplicates.\<close>

fun insert_all :: "('k \<times> 'v) list \<Rightarrow> 'm \<Rightarrow> 'e list \<times> 'm" where
  "insert_all [] m = ([], m)"
| "insert_all ((k, v) # es) m =
     (case insert_entry k v m of
        (Inl e, m') \<Rightarrow> (case insert_all es m' of (errs, m'') \<Rightarrow> (e # errs, m''))
      | (Inr _, m') \<Rightarrow> insert_all es m')"

lemma entries_insert_all:
  "entries (snd (insert_all es m)) = (\<lambda>k. case entries m k of Some v \<Rightarrow> Some v | None \<Rightarrow> map_of es k)"
proof (induction es m rule: insert_all.induct)
  case (1 m)
  then show ?case by (auto split: option.splits)
next
  case (2 k v es m)
  obtain r m' where m': "insert_entry k v m = (r, m')" by (cases "insert_entry k v m")
  have r: "r = (if entries m k = None then Inr () else Inl (duplicate k))"
    and e: "entries m' = (if entries m k = None then (entries m)(k \<mapsto> v) else entries m)"
    using insert_fresh [of m k v] insert_duplicate [of m k v] entries_insert [of k v m] m' by auto
  have "entries (snd (insert_all es m')) =
      (\<lambda>j. case entries m' j of Some v \<Rightarrow> Some v | None \<Rightarrow> map_of es j)"
    using 2 m' r by (cases "entries m k = None") auto
  then show ?case
    using m' r e by (cases "entries m k = None") (auto split: option.splits prod.splits)
qed

text \<open>The first entry for a key wins, and each later one is reported once.\<close>

lemma insert_all_errors:
  "fst (insert_all es m) =
     map duplicate (map (fst \<circ> nth es) (filter (\<lambda>i. entries m (fst (es ! i)) \<noteq> None
       \<or> fst (es ! i) \<in> fst ` set (take i es)) [0..<length es]))"
proof (induction es m rule: insert_all.induct)
  case (2 k v es m)
  obtain r m' where m': "insert_entry k v m = (r, m')" by (cases "insert_entry k v m")
  have r: "r = (if entries m k = None then Inr () else Inl (duplicate k))"
    and e: "entries m' = (if entries m k = None then (entries m)(k \<mapsto> v) else entries m)"
    using insert_fresh [of m k v] insert_duplicate [of m k v] entries_insert [of k v m] m' by auto
  have IH: "fst (insert_all es m') =
     map duplicate (map (fst \<circ> nth es) (filter (\<lambda>i. entries m' (fst (es ! i)) \<noteq> None
       \<or> fst (es ! i) \<in> fst ` set (take i es)) [0..<length es]))"
    using 2 m' r by (cases "entries m k = None") auto
  have upt: "[0..<length ((k, v) # es)] = 0 # map Suc [0..<length es]"
    by (simp add: upt_conv_Cons map_Suc_upt del: upt_Suc)
  have same: "(entries m' (fst (es ! i)) \<noteq> None \<or> fst (es ! i) \<in> fst ` set (take i es)) =
    (entries m (fst (es ! i)) \<noteq> None \<or> fst (es ! i) = k \<or> fst (es ! i) \<in> fst ` set (take i es))" for i
    using e by auto
  obtain errs m'' where rest: "insert_all es m' = (errs, m'')" by (cases "insert_all es m'")
  show ?case
    unfolding upt using m' r IH same rest
    by (cases "entries m k = None") (simp_all add: filter_map comp_def)
qed simp

end

interpretation registry_map: insert_once_map
  "\<lambda>(p, c) f r. register_command p c f r" constructor_for "\<lambda>(p, c). DuplicateCommand p c"
  by unfold_locales (auto simp: register_result constructor_for_register)

lemma new_registry_Some:
  "\<exists>r. new_registry echo exec = Some r
     \<and> dom (constructor_for r) = {(BUILTIN_PLUGIN_NAME, ''echo''), (BUILTIN_PLUGIN_NAME, ''exec'')}"
proof -
  let ?f = "\<lambda>from_str json. case from_str json of Inl e \<Rightarrow> Inl (Serialization e) | Inr c \<Rightarrow> Inr c"
  let ?r1 = "snd (register_queueable BUILTIN_PLUGIN_NAME ''echo'' echo \<lparr>plugins = Map.empty\<rparr>)"
  have f1: "fst (register_queueable BUILTIN_PLUGIN_NAME ''echo'' echo \<lparr>plugins = Map.empty\<rparr>) = Inr ()"
    by (simp add: register_queueable_def register_result)
  have c1: "constructor_for ?r1 = [(BUILTIN_PLUGIN_NAME, ''echo'') \<mapsto> ?f echo]"
    by (simp add: register_queueable_def constructor_for_register)
  have f2: "fst (register_queueable BUILTIN_PLUGIN_NAME ''exec'' exec ?r1) = Inr ()"
    using c1 by (simp add: register_queueable_def register_result)
  have c2: "constructor_for (snd (register_queueable BUILTIN_PLUGIN_NAME ''exec'' exec ?r1)) =
     [(BUILTIN_PLUGIN_NAME, ''echo'') \<mapsto> ?f echo, (BUILTIN_PLUGIN_NAME, ''exec'') \<mapsto> ?f exec]"
    using c1 by (simp add: register_queueable_def constructor_for_register)
  obtain r1 where r1: "register_queueable BUILTIN_PLUGIN_NAME ''echo'' echo \<lparr>plugins = Map.empty\<rparr>
      = (Inr (), r1)"
    using f1 by (metis prod.collapse)
  obtain r2 where r2: "register_queueable BUILTIN_PLUGIN_NAME ''exec'' exec r1 = (Inr (), r2)"
    using f2 r1 by (metis prod.collapse snd_conv)
  have "dom (constructor_for r2) =
      {(BUILTIN_PLUGIN_NAME, ''echo''), (BUILTIN_PLUGIN_NAME, ''exec'')}"
    using c2 r1 r2 by auto
  then show ?thesis using r1 r2 by (simp add: new_registry_def)
qed

end
