(* ===== verification/Envelope.thy ===== *)
theory Envelope
  imports Registry
begin

text \<open>
  Queue lanes, stages and messages: the enums of \<open>src/inengine-core/src/queue/mod.rs\<close>, the payload
  compression of \<open>compression.rs\<close> and the message envelope of \<open>envelope.rs\<close>. gzip, base64 and
  \<open>serde_json\<close> are third-party code and enter as the records \<open>packer\<close> and \<open>codec\<close> of
  functions; what the program relies on is stated as \<open>packer_ok\<close> and \<open>codec_ok\<close>.
\<close>

section \<open>Lanes and stages\<close>

datatype queue_lane = Primary | Secondary

definition all_lanes :: "queue_lane list" where
  "all_lanes = [Primary, Secondary]"

fun lane_str :: "queue_lane \<Rightarrow> string" where
  "lane_str Primary = ''Primary''"
| "lane_str Secondary = ''Secondary''"

datatype stage = Pending | InProgress | FailedStage

definition all_stages :: "stage list" where
  "all_stages = [Pending, InProgress, FailedStage]"

fun stage_str :: "stage \<Rightarrow> string" where
  "stage_str Pending = ''Pending''"
| "stage_str InProgress = ''InProgress''"
| "stage_str FailedStage = ''Failed''"

fun stage_label :: "stage \<Rightarrow> string" where
  "stage_label Pending = ''pending''"
| "stage_label InProgress = ''in-progress''"
| "stage_label FailedStage = ''failed''"

text \<open>\<open>QueueLane::ALL\<close> and \<open>Stage::ALL\<close> list every value once, so that a claim on all of them can be computed.\<close>

instantiation queue_lane :: enum
begin

definition "enum_class.enum = all_lanes"

definition "enum_class.enum_all P = list_all P all_lanes"

definition "enum_class.enum_ex P = list_ex P all_lanes"

instance
proof
  have all: "set all_lanes = UNIV"
    by (rule set_eqI, case_tac x) (simp_all add: all_lanes_def)
  then show "(UNIV :: queue_lane set) = set enum_class.enum" by (simp add: enum_queue_lane_def)
  show "enum_class.enum_all P = Ball UNIV P" "enum_class.enum_ex P = Bex UNIV P" for P :: "queue_lane \<Rightarrow> bool"
    by (simp_all add: enum_all_queue_lane_def enum_ex_queue_lane_def list_all_iff list_ex_iff all)
qed (simp add: enum_queue_lane_def all_lanes_def)

end

instantiation stage :: enum
begin

definition "enum_class.enum = all_stages"

definition "enum_class.enum_all P = list_all P all_stages"

definition "enum_class.enum_ex P = list_ex P all_stages"

instance
proof
  have all: "set all_stages = UNIV"
    by (rule set_eqI, case_tac x) (simp_all add: all_stages_def)
  then show "(UNIV :: stage set) = set enum_class.enum" by (simp add: enum_stage_def)
  show "enum_class.enum_all P = Ball UNIV P" "enum_class.enum_ex P = Bex UNIV P" for P :: "stage \<Rightarrow> bool"
    by (simp_all add: enum_all_stage_def enum_ex_stage_def list_all_iff list_ex_iff all)
qed (simp add: enum_stage_def all_stages_def)

end

lemma all_stages_UNIV [simp]: "set all_stages = UNIV" and all_lanes_UNIV [simp]: "set all_lanes = UNIV"
  by (simp_all add: UNIV_enum enum_stage_def enum_queue_lane_def)

record queue_lengths =
  len_pending :: nat
  len_in_progress :: nat
  len_failed :: nat

section \<open>Compression\<close>

record packer =
  gzip :: "bytes \<Rightarrow> io_error + bytes"
  gunzip_to_string :: "bytes \<Rightarrow> io_error + string"
  base64_encode :: "bytes \<Rightarrow> string"
  base64_decode :: "string \<Rightarrow> dyn_error + bytes"

text \<open>Documented behaviour of flate2 and base64: decoding inverts encoding, and a gzip stream is never empty.\<close>

definition packer_ok :: "packer \<Rightarrow> bool" where
  "packer_ok k =
     ((\<forall>t z. gzip k t = Inr z \<longrightarrow> gunzip_to_string k z = Inr t)
      \<and> (\<forall>z. base64_decode k (base64_encode k z) = Inr z)
      \<and> (\<forall>t z. gzip k t = Inr z \<longrightarrow> base64_encode k z \<noteq> []))"

definition compress :: "packer \<Rightarrow> string \<Rightarrow> queue_error + string" where
  "compress k txt =
     (if txt = [] then Inr []
      else case gzip k txt of
          Inl e \<Rightarrow> Inl (Compress e)
        | Inr compressed \<Rightarrow> Inr (base64_encode k compressed))"

definition decompress :: "packer \<Rightarrow> string \<Rightarrow> queue_error + string" where
  "decompress k compressed =
     (if compressed = [] then Inr []
      else case base64_decode k compressed of
          Inl e \<Rightarrow> Inl (PayloadNotBase64 e)
        | Inr z \<Rightarrow>
            (case gunzip_to_string k z of
               Inl e \<Rightarrow> Inl (Decompress e)
             | Inr txt \<Rightarrow> Inr txt))"

section \<open>Envelopes\<close>

type_synonym uuid = "128 word"

record command_envelope =
  env_id :: uuid
  plugin_name :: string
  command_name :: string
  payload :: string
  queued_at :: int
  is_compressed :: bool
  attempts :: u32
  max_retries :: u32

text \<open>\<open>CommandEnvelope::new\<close>; the new UUID and the current time are arguments.\<close>

definition new_envelope ::
  "packer \<Rightarrow> uuid \<Rightarrow> int \<Rightarrow> string \<Rightarrow> string \<Rightarrow> string \<Rightarrow> bool \<Rightarrow> u32 \<Rightarrow> queue_error + command_envelope" where
  "new_envelope k new_id now command plugin json use_compression retries =
     (case (if use_compression then compress k json else Inr json) of
        Inl e \<Rightarrow> Inl e
      | Inr serialized \<Rightarrow>
          Inr \<lparr>env_id = new_id, plugin_name = plugin, command_name = command,
               payload = serialized, queued_at = now, is_compressed = use_compression,
               attempts = 0, max_retries = retries\<rparr>)"

text \<open>\<open>from_command\<close> for a queueable type with its two names and its \<open>serde_json::to_string\<close>.\<close>

definition from_command ::
  "packer \<Rightarrow> uuid \<Rightarrow> int \<Rightarrow> string \<Rightarrow> string \<Rightarrow> ('t \<Rightarrow> dyn_error + string) \<Rightarrow> 't \<Rightarrow> bool \<Rightarrow> u32
     \<Rightarrow> queue_error + command_envelope" where
  "from_command k new_id now PLUGIN_NAME COMMAND_NAME to_string cmd use_compression retries =
     (case to_string cmd of
        Inl e \<Rightarrow> Inl (Serialization e)
      | Inr json \<Rightarrow> new_envelope k new_id now COMMAND_NAME PLUGIN_NAME json use_compression retries)"

definition to_command ::
  "packer \<Rightarrow> command_envelope \<Rightarrow> 'c command_registry \<Rightarrow> queue_error + 'c" where
  "to_command k env registry =
     (case (if is_compressed env then decompress k (payload env) else Inr (payload env)) of
        Inl e \<Rightarrow> Inl e
      | Inr json \<Rightarrow> build_command registry (plugin_name env) (command_name env) json)"

definition has_retries_left :: "command_envelope \<Rightarrow> bool" where
  "has_retries_left env = (attempts env \<le> max_retries env)"

text \<open>
  The JSON forms of an envelope: \<open>to_vec_pretty\<close> (the file driver), \<open>to_vec\<close> (Redis) and
  \<open>from_slice\<close>. \<open>codec_ok\<close> is serde's round trip for the derived implementations.
\<close>

record codec =
  to_vec_pretty :: "command_envelope \<Rightarrow> dyn_error + bytes"
  to_vec :: "command_envelope \<Rightarrow> dyn_error + bytes"
  from_slice :: "bytes \<Rightarrow> dyn_error + command_envelope"

definition codec_ok :: "codec \<Rightarrow> bool" where
  "codec_ok c =
     (\<forall>env. (\<exists>b. to_vec_pretty c env = Inr b \<and> from_slice c b = Inr env)
         \<and> (\<exists>b. to_vec c env = Inr b \<and> from_slice c b = Inr env))"

text \<open>
  \<open>PeekedMessage\<close>: an entry read by a peek. \<open>lossy\<close> is \<open>String::from_utf8_lossy\<close>, modelled in the
  theory of UTF-8 text.
\<close>

datatype peeked_message = PeekEnvelope command_envelope | Malformed string string

definition parse_peeked :: "codec \<Rightarrow> (bytes \<Rightarrow> string) \<Rightarrow> bytes \<Rightarrow> peeked_message" where
  "parse_peeked c lossy raw =
     (case from_slice c raw of
        Inr env \<Rightarrow> PeekEnvelope env
      | Inl error \<Rightarrow> Malformed (lossy raw) (err_text error))"

section \<open>Facts\<close>

lemma compress_decompress:
  assumes "packer_ok k" and "compress k t = Inr z"
  shows "decompress k z = Inr t"
proof (cases "t = []")
  case False
  then obtain g where g: "gzip k t = Inr g" "z = base64_encode k g"
    using assms(2) by (auto simp: compress_def split: sum.splits)
  then have "gunzip_to_string k g = Inr t" and "base64_decode k z = Inr g" and "z \<noteq> []"
    using assms(1) by (auto simp: packer_ok_def)
  then show ?thesis by (simp add: decompress_def)
qed (use assms in \<open>simp add: compress_def decompress_def\<close>)

lemma new_envelope_payload:
  assumes "packer_ok k" and "new_envelope k i now c p json z r = Inr env"
  shows "to_command k env registry = build_command registry p c json"
  using assms compress_decompress [of k json]
  by (auto simp: new_envelope_def to_command_def split: if_splits sum.splits)

lemma has_retries_left_unat: "has_retries_left env \<longleftrightarrow> unat (attempts env) \<le> unat (max_retries env)"
  by (simp add: has_retries_left_def word_le_nat_alt)

end
