(* ===== verification/Delivery.thy ===== *)
theory Delivery
  imports Envelope
begin

text \<open>
  Deliveries and how they settle (\<open>src/inengine-core/src/queue/delivery.rs\<close>): a claimed message
  with its lane and receipt, the policy table that picks the settle action of an attempt, and
  the errors of a settle.
\<close>

section \<open>Deliveries\<close>

datatype receipt = FileReceipt string | RedisReceipt bytes

record delivery =
  envelope :: command_envelope
  delivery_lane :: queue_lane
  delivery_receipt :: receipt

definition new_delivery :: "command_envelope \<Rightarrow> queue_lane \<Rightarrow> receipt \<Rightarrow> delivery" where
  "new_delivery env lane r = \<lparr>envelope = env, delivery_lane = lane, delivery_receipt = r\<rparr>"

datatype settle_error =
    Lost
  | Rejected delivery
  | SettleInterrupted delivery queue_error

fun into_delivery :: "settle_error \<Rightarrow> delivery option" where
  "into_delivery Lost = None"
| "into_delivery (Rejected d) = Some d"
| "into_delivery (SettleInterrupted d source) = Some d"

text \<open>The text of a settle error; \<open>show_id\<close> is the display form of a UUID.\<close>

fun settle_error_dyn :: "(uuid \<Rightarrow> string) \<Rightarrow> settle_error \<Rightarrow> dyn_error" where
  "settle_error_dyn show_id Lost = DynError ''the message is no longer in progress'' None"
| "settle_error_dyn show_id (Rejected d) =
     DynError (''message '' @ show_id (env_id (envelope d))
       @ '' belongs to a different queue lane or driver'') None"
| "settle_error_dyn show_id (SettleInterrupted d source) =
     DynError (''could not settle message '' @ show_id (env_id (envelope d)))
       (Some (queue_error_dyn source))"

section \<open>The settle policy\<close>

datatype attempt_kind = KSucceeded | KCommandFailed | KUnrunnable | KInterrupted

datatype settle_action = Acknowledge | Retry | MoveToFailed | Release

datatype settle_outcome = Acknowledged | Retried | MovedToFailed | Released

fun for_attempt :: "attempt_kind \<Rightarrow> command_envelope \<Rightarrow> settle_action" where
  "for_attempt KSucceeded env = Acknowledge"
| "for_attempt KCommandFailed env = (if has_retries_left env then Retry else MoveToFailed)"
| "for_attempt KUnrunnable env = MoveToFailed"
| "for_attempt KInterrupted env = Release"

fun outcome_label :: "settle_outcome \<Rightarrow> string" where
  "outcome_label Acknowledged = ''completed''"
| "outcome_label Retried = ''returned to pending for a retry''"
| "outcome_label MovedToFailed = ''moved to failed''"
| "outcome_label Released = ''returned to pending because the server is stopping''"

text \<open>The outcome that each action reports when its settle succeeds.\<close>

fun outcome_of :: "settle_action \<Rightarrow> settle_outcome" where
  "outcome_of Acknowledge = Acknowledged"
| "outcome_of Retry = Retried"
| "outcome_of MoveToFailed = MovedToFailed"
| "outcome_of Release = Released"

text \<open>\<open>settle_result\<close> of \<open>queue/mod.rs\<close>: \<open>Ok(false)\<close> means the message was no longer in progress.\<close>

fun settle_result :: "delivery \<Rightarrow> queue_error + bool \<Rightarrow> settle_error + unit" where
  "settle_result d (Inr True) = Inr ()"
| "settle_result d (Inr False) = Inl Lost"
| "settle_result d (Inl source) = Inl (SettleInterrupted d source)"

text \<open>\<open>Queue::release\<close> takes back the attempt that the claim counted.\<close>

definition uncount_attempt :: "delivery \<Rightarrow> delivery" where
  "uncount_attempt d =
     d\<lparr>envelope := (envelope d)\<lparr>attempts := sat_sub_u32 (attempts (envelope d)) 1\<rparr>\<rparr>"

text \<open>A claim counts an attempt: \<open>envelope.attempts += 1\<close> on \<open>u32\<close>, which wraps in a release build.\<close>

definition count_attempt :: "command_envelope \<Rightarrow> command_envelope" where
  "count_attempt env = env\<lparr>attempts := attempts env + 1\<rparr>"

section \<open>Facts\<close>

lemma count_uncount:
  "attempts env \<noteq> - 1 \<Longrightarrow>
     envelope (uncount_attempt (new_delivery (count_attempt env) l r)) = env"
proof -
  assume a: "attempts env \<noteq> - 1"
  have "attempts env + 1 \<noteq> 0" using a by (metis add_eq_0_iff2)
  then have "\<not> attempts env + 1 < 1" by (simp add: word_less_1)
  then show ?thesis
    by (simp add: uncount_attempt_def new_delivery_def count_attempt_def sat_sub_u32_def)
qed

lemma count_attempt_unat:
  "unat (attempts env) < 4294967295 \<Longrightarrow> unat (attempts (count_attempt env)) = Suc (unat (attempts env))"
  by (simp add: count_attempt_def unat_word_ariths)

lemma count_attempt_simps [simp]:
  "max_retries (count_attempt env) = max_retries env"
  "env_id (count_attempt env) = env_id env"
  "plugin_name (count_attempt env) = plugin_name env"
  "command_name (count_attempt env) = command_name env"
  "payload (count_attempt env) = payload env"
  "is_compressed (count_attempt env) = is_compressed env"
  by (simp_all add: count_attempt_def)

lemma settle_result_Inr: "settle_result d r = Inr () \<longleftrightarrow> r = Inr True"
  by (cases "(d, r)" rule: settle_result.cases) auto

end
