(* ===== verification/FileStore.thy ===== *)
theory FileStore
  imports QueueDir Delivery
begin

text \<open>
  The file queue of one lane (\<open>src/inengine-core/src/queue/driver/file/store.rs\<close> and the polling
  driver of \<open>driver/file/mod.rs\<close>). Each operation is the sequence of file calls of the source,
  so what happens when a call fails, when another process interferes or when the process
  crashes between two calls follows from the model.
\<close>

section \<open>The store\<close>

definition STALE_TEMP_AGE :: nat where
  "STALE_TEMP_AGE = 60 * 60 * 1000000000"

record file_store =
  store_lane :: queue_lane
  pending_dir :: string
  in_progress_dir :: string
  failed_dir :: string

type_synonym 'a store_call = "world \<Rightarrow> (queue_error + 'a) \<times> world"

text \<open>The conversion of \<open>io::Error\<close> by \<open>?\<close>.\<close>

abbreviation io_to_queue :: "'a io \<Rightarrow> 'a store_call" where
  "io_to_queue \<equiv> map_errE QueueIo"

definition stage_dir :: "file_store \<Rightarrow> stage \<Rightarrow> string" where
  "stage_dir st s =
     (case s of Pending \<Rightarrow> pending_dir st | InProgress \<Rightarrow> in_progress_dir st
      | FailedStage \<Rightarrow> failed_dir st)"

definition stage_path :: "string \<Rightarrow> queue_lane \<Rightarrow> string \<Rightarrow> stage \<Rightarrow> string" where
  "stage_path queue_name lane base s =
     path_join base (queue_name @ ''_'' @ lane_str lane @ ''_'' @ stage_str s)"

primrec open_stages :: "file_store \<Rightarrow> stage list \<Rightarrow> unit store_call" where
  "open_stages st [] = retE ()"
| "open_stages st (s # ss) =
     bindE (io_to_queue (fs_create_dir_all (stage_dir st s))) (\<lambda>_.
     bindE (io_to_queue (remove_stale_temp_files (stage_dir st s) STALE_TEMP_AGE)) (\<lambda>_.
     open_stages st ss))"

definition open_store :: "string \<Rightarrow> queue_lane \<Rightarrow> string \<Rightarrow> file_store store_call" where
  "open_store queue_name lane base =
     (let st = \<lparr>store_lane = lane,
                pending_dir = stage_path queue_name lane base Pending,
                in_progress_dir = stage_path queue_name lane base InProgress,
                failed_dir = stage_path queue_name lane base FailedStage\<rparr>
      in bindE (open_stages st all_stages) (\<lambda>_. retE st))"

text \<open>A fallible pure step, \<open>serde_json::to_vec_pretty(envelope)?\<close>.\<close>

definition serialize :: "codec \<Rightarrow> command_envelope \<Rightarrow> bytes store_call" where
  "serialize c env w =
     (case to_vec_pretty c env of Inl e \<Rightarrow> (Inl (Serialization e), w) | Inr b \<Rightarrow> (Inr b, w))"

definition with_new_name :: "(string \<Rightarrow> 'a store_call) \<Rightarrow> 'a store_call" where
  "with_new_name k w = (case new_message_name w of (name, w') \<Rightarrow> k name w')"

definition store_publish :: "codec \<Rightarrow> file_store \<Rightarrow> command_envelope \<Rightarrow> unit store_call" where
  "store_publish c st env =
     bindE (serialize c env) (\<lambda>json.
     with_new_name (\<lambda>name. io_to_queue (write_atomic (pending_dir st) name json)))"

definition store_acknowledge :: "file_store \<Rightarrow> string \<Rightarrow> bool store_call" where
  "store_acknowledge st name = io_to_queue (remove_if_present (in_progress_dir st) name)"

text \<open>
  The settle that moves a claimed message. \<open>claimed\<close> is the hidden settling name. The call of
  \<open>exists\<close> happens only when the rename did not find the in-progress file.
\<close>

definition store_finish_move ::
  "file_store \<Rightarrow> string \<Rightarrow> string \<Rightarrow> string \<Rightarrow> bool store_call" where
  "store_finish_move st claimed target_dir target_name =
     catchE (fs_remove_file (in_progress_dir st) claimed) (\<lambda>r.
       case r of
         Inr _ \<Rightarrow> retE True
       | Inl error \<Rightarrow>
           if io_kind error = NotFound
           then bindE (io_to_queue (remove_if_present target_dir target_name)) (\<lambda>_. retE False)
           else retE True)"

definition store_write_moved ::
  "codec \<Rightarrow> file_store \<Rightarrow> string \<Rightarrow> command_envelope \<Rightarrow> stage \<Rightarrow> bool store_call" where
  "store_write_moved c st name env target =
     (let current = name; claimed = settling_name name in
      bindE (serialize c env) (\<lambda>json.
      let target_dir = stage_dir st target in
      with_new_name (\<lambda>target_name.
      catchE (write_atomic target_dir target_name json) (\<lambda>r.
        case r of
          Inl error \<Rightarrow>
            catchE (fs_rename (in_progress_dir st) claimed (in_progress_dir st) current)
              (\<lambda>_. failE (QueueIo error))
        | Inr _ \<Rightarrow> store_finish_move st claimed target_dir target_name))))"

definition store_move_claimed ::
  "codec \<Rightarrow> file_store \<Rightarrow> string \<Rightarrow> command_envelope \<Rightarrow> stage \<Rightarrow> bool store_call" where
  "store_move_claimed c st name env target =
     (let current = name; claimed = settling_name name in
      bindE (io_to_queue
        (rename_if_present (in_progress_dir st) current (in_progress_dir st) claimed))
        (\<lambda>renamed.
          if renamed then store_write_moved c st name env target
          else (\<lambda>w. case path_exists (in_progress_dir st) claimed w of
                  (there, w') \<Rightarrow>
                    if \<not> there then retE False w' else store_write_moved c st name env target w')))"

section \<open>Recovery, counts and clears\<close>

primrec recover_messages :: "file_store \<Rightarrow> string list \<Rightarrow> nat \<Rightarrow> nat store_call" where
  "recover_messages st [] moved = retE moved"
| "recover_messages st (name # names) moved =
     bindE (io_to_queue (rename_if_present (in_progress_dir st) name (pending_dir st) name))
       (\<lambda>present. recover_messages st names (if present then Suc moved else moved))"

primrec recover_settles :: "file_store \<Rightarrow> string list \<Rightarrow> nat \<Rightarrow> nat store_call" where
  "recover_settles st [] moved = retE moved"
| "recover_settles st (name # names) moved =
     bindE (io_to_queue
         (rename_if_present (in_progress_dir st) (settling_name name) (pending_dir st) name))
       (\<lambda>present. recover_settles st names (if present then Suc moved else moved))"

definition store_recover :: "file_store \<Rightarrow> nat store_call" where
  "store_recover st =
     bindE (io_to_queue (list_messages (in_progress_dir st))) (\<lambda>names.
     bindE (recover_messages st names 0) (\<lambda>moved.
     bindE (io_to_queue (unfinished_settles (in_progress_dir st))) (\<lambda>settles.
     recover_settles st settles moved)))"

text \<open>
  \<open>stage_paths\<close>: the in-progress stage also lists the messages whose settle is unfinished, under
  their original names, sorted by name and then by path. Paths of one directory compare as
  their file names.
\<close>

definition stage_entries :: "file_store \<Rightarrow> stage \<Rightarrow> (string \<times> string) list store_call" where
  "stage_entries st s =
     bindE (io_to_queue (list_messages (stage_dir st s))) (\<lambda>names.
     let entries = map (\<lambda>name. (name, name)) names in
     if s = InProgress
     then bindE (io_to_queue (unfinished_settles (stage_dir st s))) (\<lambda>settles.
       retE (sort_key fst (sort_key snd
         (entries @ map (\<lambda>name. (name, settling_name name)) settles))))
     else retE entries)"

definition stage_paths :: "file_store \<Rightarrow> stage \<Rightarrow> string list store_call" where
  "stage_paths st s = bindE (stage_entries st s) (\<lambda>entries. retE (map snd entries))"

definition store_lengths :: "file_store \<Rightarrow> queue_lengths store_call" where
  "store_lengths st =
     bindE (stage_paths st Pending) (\<lambda>p.
     bindE (stage_paths st InProgress) (\<lambda>i.
     bindE (stage_paths st FailedStage) (\<lambda>f.
     retE \<lparr>len_pending = length p, len_in_progress = length i, len_failed = length f\<rparr>)))"

primrec clear_names :: "string \<Rightarrow> string list \<Rightarrow> nat \<Rightarrow> nat store_call" where
  "clear_names dir [] removed = retE removed"
| "clear_names dir (name # names) removed =
     bindE (io_to_queue (remove_if_present dir name))
       (\<lambda>present. clear_names dir names (if present then Suc removed else removed))"

definition store_clear :: "file_store \<Rightarrow> stage \<Rightarrow> nat store_call" where
  "store_clear st s =
     (let dir = stage_dir st s in
      bindE (io_to_queue (list_messages dir)) (\<lambda>names.
      bindE (clear_names dir names 0) (\<lambda>removed.
      bindE (if s = InProgress
             then bindE (io_to_queue (remove_settling_files dir)) (\<lambda>n. retE (removed + n))
             else retE removed) (\<lambda>removed.
      bindE (io_to_queue (remove_stale_temp_files dir STALE_TEMP_AGE)) (\<lambda>_. retE removed)))))"

section \<open>Peeking, republishing and claiming\<close>

primrec peek_paths ::
  "codec \<Rightarrow> string \<Rightarrow> string list \<Rightarrow> peeked_message list \<Rightarrow> peeked_message list store_call" where
  "peek_paths c dir [] messages = retE messages"
| "peek_paths c dir (path # paths) messages =
     catchE (fs_read dir path) (\<lambda>r.
       case r of
         Inr raw \<Rightarrow> peek_paths c dir paths (messages @ [parse_peeked c from_utf8_lossy raw])
       | Inl error \<Rightarrow>
           if io_kind error = NotFound then peek_paths c dir paths messages
           else failE (QueueIo error))"

definition peek_count :: "nat \<Rightarrow> nat \<Rightarrow> nat" where
  "peek_count lo hi = sat_add_usize (hi - lo) 1"

definition store_peek ::
  "codec \<Rightarrow> file_store \<Rightarrow> stage \<Rightarrow> nat \<Rightarrow> nat \<Rightarrow> peeked_message list store_call" where
  "store_peek c st s lo hi =
     bindE (stage_paths st s) (\<lambda>paths.
       peek_paths c (stage_dir st s) (take (peek_count lo hi) (drop lo paths)) [])"

primrec republish_names :: "file_store \<Rightarrow> string list \<Rightarrow> nat \<Rightarrow> nat store_call" where
  "republish_names st [] moved = retE moved"
| "republish_names st (name # names) moved =
     with_new_name (\<lambda>to_name.
       bindE (io_to_queue (rename_if_present (failed_dir st) name (pending_dir st) to_name))
         (\<lambda>present. republish_names st names (if present then Suc moved else moved)))"

definition store_republish_failed :: "file_store \<Rightarrow> nat \<Rightarrow> nat store_call" where
  "store_republish_failed st limit =
     bindE (io_to_queue (list_messages (failed_dir st))) (\<lambda>names.
       republish_names st (take limit names) 0)"

text \<open>\<open>move_unreadable_to_failed\<close> logs and ignores a failing move.\<close>

definition move_unreadable_to_failed :: "file_store \<Rightarrow> string \<Rightarrow> unit store_call" where
  "move_unreadable_to_failed st name =
     with_new_name (\<lambda>to_name.
       catchE (rename_if_present (in_progress_dir st) name (failed_dir st) to_name)
         (\<lambda>_. retE ()))"

primrec claim_first :: "codec \<Rightarrow> file_store \<Rightarrow> string list \<Rightarrow> delivery option store_call" where
  "claim_first c st [] = retE None"
| "claim_first c st (name # names) =
     bindE (io_to_queue (rename_if_present (pending_dir st) name (in_progress_dir st) name))
       (\<lambda>present.
         if \<not> present then claim_first c st names
         else catchE (fs_read (in_progress_dir st) name) (\<lambda>r.
           case r of
             Inr raw \<Rightarrow>
               (case from_slice c raw of
                  Inr env \<Rightarrow>
                    retE (Some (new_delivery (count_attempt env) (store_lane st) (FileReceipt name)))
                | Inl _ \<Rightarrow>
                    bindE (move_unreadable_to_failed st name) (\<lambda>_. claim_first c st names))
           | Inl error \<Rightarrow>
               if io_kind error = NotFound then claim_first c st names
               else bindE (move_unreadable_to_failed st name) (\<lambda>_. claim_first c st names)))"

definition store_claim_oldest :: "codec \<Rightarrow> file_store \<Rightarrow> delivery option store_call" where
  "store_claim_oldest c st =
     bindE (io_to_queue (list_messages (pending_dir st))) (claim_first c st)"

section \<open>The driver\<close>

text \<open>
  \<open>FileDriver\<close> runs each store call on the blocking pool. A task ends with its result, or by a panic
  with the error that joining it gives; the pool turns the panic into an IO error. The store's own
  operations return. The driver keeps the lane that it opened its store with, which the store has too.
\<close>

type_synonym 'a pool_task = "world \<Rightarrow> (dyn_error + (queue_error + 'a)) \<times> world"

definition on_blocking_pool :: "'a pool_task \<Rightarrow> 'a store_call" where
  "on_blocking_pool task w =
     (case task w of
        (Inl join_error, w') \<Rightarrow> (Inl (QueueIo (IoError OtherKind join_error)), w')
      | (Inr result, w') \<Rightarrow> (result, w'))"

definition call_store :: "file_store \<Rightarrow> (file_store \<Rightarrow> 'a store_call) \<Rightarrow> 'a store_call" where
  "call_store st call = on_blocking_pool (\<lambda>w. apfst Inr (call st w))"

definition file_open :: "string \<Rightarrow> queue_lane \<Rightarrow> string \<Rightarrow> file_store store_call" where
  "file_open queue_name lane base_path =
     on_blocking_pool (\<lambda>w. apfst Inr (open_store queue_name lane base_path w))"

definition file_publish :: "codec \<Rightarrow> file_store \<Rightarrow> command_envelope \<Rightarrow> unit store_call" where
  "file_publish c st env = call_store st (\<lambda>store. store_publish c store env)"

definition file_acknowledge :: "file_store \<Rightarrow> string \<Rightarrow> bool store_call" where
  "file_acknowledge st name = call_store st (\<lambda>store. store_acknowledge store name)"

definition file_move_claimed ::
  "codec \<Rightarrow> file_store \<Rightarrow> string \<Rightarrow> command_envelope \<Rightarrow> stage \<Rightarrow> bool store_call" where
  "file_move_claimed c st name env target = call_store st (\<lambda>store. store_move_claimed c store name env target)"

definition file_recover :: "file_store \<Rightarrow> nat store_call" where
  "file_recover st = call_store st store_recover"

definition file_lengths :: "file_store \<Rightarrow> queue_lengths store_call" where
  "file_lengths st = call_store st store_lengths"

definition file_clear :: "file_store \<Rightarrow> stage \<Rightarrow> nat store_call" where
  "file_clear st t = call_store st (\<lambda>store. store_clear store t)"

definition file_peek :: "codec \<Rightarrow> file_store \<Rightarrow> stage \<Rightarrow> nat \<Rightarrow> nat \<Rightarrow> peeked_message list store_call" where
  "file_peek c st t lo hi = call_store st (\<lambda>store. store_peek c store t lo hi)"

definition file_republish_failed :: "file_store \<Rightarrow> nat \<Rightarrow> nat store_call" where
  "file_republish_failed st limit = call_store st (\<lambda>store. store_republish_failed store limit)"

lemma pool_returns: "on_blocking_pool (\<lambda>w. apfst Inr (m w)) = m"
  by (simp add: on_blocking_pool_def fun_eq_iff apfst_def map_prod_def split: prod.split)

lemma call_store_eq [simp]: "call_store st call = call st"
  by (simp add: call_store_def pool_returns)

text \<open>The driver is the store, behind the pool.\<close>

lemma file_driver_eq [simp]:
  "file_open queue_name lane base = open_store queue_name lane base"
  "file_publish c st env = store_publish c st env"
  "file_acknowledge st name = store_acknowledge st name"
  "file_move_claimed c st name env t = store_move_claimed c st name env t"
  "file_recover st = store_recover st" "file_lengths st = store_lengths st"
  "file_clear st t = store_clear st t" "file_peek c st t lo hi = store_peek c st t lo hi"
  "file_republish_failed st n = store_republish_failed st n"
  by (simp_all add: file_open_def file_publish_def file_acknowledge_def file_move_claimed_def
      file_recover_def file_lengths_def file_clear_def file_peek_def file_republish_failed_def pool_returns)

section \<open>The polling dequeue\<close>

definition POLL_INTERVAL :: nat where
  "POLL_INTERVAL = 1000000000"

text \<open>\<open>Instant::checked_add\<close>: the deadline is \<open>None\<close> when it is past what an instant can hold.\<close>

definition instant_max :: int where
  "instant_max = 9223372036854775807 * 1000000000 + 999999999"

definition checked_deadline :: "int \<Rightarrow> nat \<Rightarrow> int option" where
  "checked_deadline now wait = (if now + int wait > instant_max then None else Some (now + int wait))"

text \<open>\<open>saturating_duration_since\<close>, or the poll interval without a deadline.\<close>

definition remaining_wait :: "int option \<Rightarrow> int \<Rightarrow> nat" where
  "remaining_wait deadline now =
     (case deadline of Some d \<Rightarrow> nat (d - now) | None \<Rightarrow> POLL_INTERVAL)"

text \<open>\<open>tokio::time::sleep\<close>.\<close>

definition sleep :: "nat \<Rightarrow> world \<Rightarrow> world" where
  "sleep d w = w\<lparr>clock := clock w + int d\<rparr>"

partial_function (option) dequeue_loop ::
  "codec \<Rightarrow> file_store \<Rightarrow> int option \<Rightarrow> world \<Rightarrow> ((queue_error + delivery option) \<times> world) option" where
  "dequeue_loop c st deadline w =
     (case call_store st (store_claim_oldest c) w of
        (Inl e, w') \<Rightarrow> Some (Inl e, w')
      | (Inr (Some d), w') \<Rightarrow> Some (Inr (Some d), w')
      | (Inr None, w') \<Rightarrow>
          (let remaining = remaining_wait deadline (clock w')
           in if remaining = 0 then Some (Inr None, w')
              else dequeue_loop c st deadline (sleep (min remaining POLL_INTERVAL) w')))"

definition file_dequeue ::
  "codec \<Rightarrow> file_store \<Rightarrow> nat \<Rightarrow> world \<Rightarrow> ((queue_error + delivery option) \<times> world) option" where
  "file_dequeue c st wait w = dequeue_loop c st (checked_deadline (clock w) wait) w"

end
