(* ===== verification/RedisDriver.thy ===== *)
theory RedisDriver
  imports Delivery Utf8
begin

text \<open>
  The Redis queue of one lane (\<open>src/inengine-core/src/queue/driver/redis/mod.rs\<close>) and its two Lua
  scripts (\<open>scripts.rs\<close>). The server and the \<open>redis\<close> client crate are not part of the
  repository: they are the record \<open>redis_server\<close>, and \<open>redis_ok\<close> states the documented behaviour
  of the commands that the driver sends.
\<close>

section \<open>The server as the driver sees it\<close>

datatype redis_arg = Arg bytes | ArgInt int | ArgSeconds nat

datatype redis_value = RNil | RInt int | RBulk bytes | RArray "redis_value list" | RStatus

type_synonym 's server_action = "'s \<Rightarrow> redis_value \<times> 's"

text \<open>
  \<open>execute\<close> is one command at the server, \<open>request\<close> sends an action over the connection and waits
  for the reply, and \<open>instant_now\<close> reads the client's clock in nanoseconds.
\<close>

record 's redis_server =
  execute :: "string \<Rightarrow> redis_arg list \<Rightarrow> 's server_action"
  request :: "'s server_action \<Rightarrow> 's \<Rightarrow> (dyn_error + redis_value) \<times> 's"
  instant_now :: "'s \<Rightarrow> int"

type_synonym ('s, 'a) redis_call = "'s \<Rightarrow> (queue_error + 'a) \<times> 's"

text \<open>The conversions of replies by \<open>FromRedisValue\<close>; another shape is a type error.\<close>

definition wrong_type :: dyn_error where
  "wrong_type = DynError ''Response was of incompatible type'' None"

fun reply_int :: "redis_value \<Rightarrow> dyn_error + int" where
  "reply_int (RInt i) = Inr i"
| "reply_int v = Inl wrong_type"

fun reply_usize :: "redis_value \<Rightarrow> dyn_error + nat" where
  "reply_usize (RInt i) = (if i < 0 then Inl wrong_type else Inr (nat i))"
| "reply_usize v = Inl wrong_type"

fun reply_unit :: "redis_value \<Rightarrow> dyn_error + unit" where
  "reply_unit v = Inr ()"

fun reply_optional_bytes :: "redis_value \<Rightarrow> dyn_error + bytes option" where
  "reply_optional_bytes RNil = Inr None"
| "reply_optional_bytes (RBulk b) = Inr (Some b)"
| "reply_optional_bytes v = Inl wrong_type"

fun reply_elements :: "redis_value list \<Rightarrow> dyn_error + bytes list" where
  "reply_elements [] = Inr []"
| "reply_elements (RBulk b # vs) = map_sum id (Cons b) (reply_elements vs)"
| "reply_elements (v # vs) = Inl wrong_type"

fun reply_list :: "redis_value \<Rightarrow> dyn_error + bytes list" where
  "reply_list (RArray vs) = reply_elements vs"
| "reply_list v = Inl wrong_type"

fun reply_two :: "redis_value \<Rightarrow> dyn_error + nat \<times> int" where
  "reply_two (RArray [a, b]) =
     (case (reply_usize a, reply_int b) of (Inr x, Inr y) \<Rightarrow> Inr (x, y) | _ \<Rightarrow> Inl wrong_type)"
| "reply_two v = Inl wrong_type"

fun reply_three :: "redis_value \<Rightarrow> dyn_error + nat \<times> nat \<times> nat" where
  "reply_three (RArray [a, b, c]) =
     (case (reply_usize a, reply_usize b, reply_usize c) of
        (Inr x, Inr y, Inr z) \<Rightarrow> Inr (x, y, z) | _ \<Rightarrow> Inl wrong_type)"
| "reply_three v = Inl wrong_type"

text \<open>\<open>query_async(...).await?\<close>: send, wait, convert.\<close>

definition query_async ::
  "'s redis_server \<Rightarrow> (redis_value \<Rightarrow> dyn_error + 'a) \<Rightarrow> 's server_action \<Rightarrow> ('s, 'a) redis_call" where
  "query_async srv convert action s =
     (case request srv action s of
        (Inl e, s') \<Rightarrow> (Inl (RedisError e), s')
      | (Inr v, s') \<Rightarrow>
          (case convert v of Inl e \<Rightarrow> (Inl (RedisError e), s') | Inr x \<Rightarrow> (Inr x, s')))"

text \<open>A pipeline runs its commands in order and replies with the array of their replies.\<close>

definition pipeline :: "'s server_action list \<Rightarrow> 's server_action" where
  "pipeline actions s =
     (case fold (\<lambda>a (vs, s). case a s of (v, s') \<Rightarrow> (vs @ [v], s')) actions ([], s) of
        (vs, s') \<Rightarrow> (RArray vs, s'))"

section \<open>The Lua scripts\<close>

text \<open>\<open>MOVE_IF_PRESENT\<close>. Redis runs a script as one action.\<close>

definition MOVE_IF_PRESENT ::
  "'s redis_server \<Rightarrow> string \<Rightarrow> string \<Rightarrow> bytes \<Rightarrow> bytes \<Rightarrow> 's server_action" where
  "MOVE_IF_PRESENT srv key1 key2 argv1 argv2 s =
     (case execute srv ''LREM'' [Arg key1, ArgInt 1, Arg argv1] s of
        (v, s') \<Rightarrow>
          if v = RInt 1
          then (case execute srv ''LPUSH'' [Arg key2, Arg argv2] s' of (_, s'') \<Rightarrow> (RInt 1, s''))
          else (RInt 0, s'))"

text \<open>The loop of \<open>BULK_MOVE\<close>; a nil reply of \<open>LMOVE\<close> is \<open>false\<close> in Lua and stops it.\<close>

function bulk_move_loop ::
  "'s redis_server \<Rightarrow> string \<Rightarrow> string \<Rightarrow> string \<Rightarrow> string \<Rightarrow> nat \<Rightarrow> nat \<Rightarrow> 's server_action" where
  "bulk_move_loop srv key1 key2 from to batch moved s =
     (if moved < batch
      then (case execute srv ''LMOVE'' [Arg key1, Arg key2, Arg from, Arg to] s of
              (v, s') \<Rightarrow>
                if v = RNil then (RInt (int moved), s')
                else bulk_move_loop srv key1 key2 from to batch (Suc moved) s')
      else (RInt (int moved), s))"
  by pat_completeness auto
termination
  by (relation "measure (\<lambda>(srv, key1, key2, from, to, batch, moved, s). batch - moved)") auto

declare bulk_move_loop.simps [simp del]

definition BULK_MOVE ::
  "'s redis_server \<Rightarrow> string \<Rightarrow> string \<Rightarrow> nat \<Rightarrow> string \<Rightarrow> string \<Rightarrow> 's server_action" where
  "BULK_MOVE srv key1 key2 argv1 argv2 argv3 = bulk_move_loop srv key1 key2 argv2 argv3 argv1 0"

section \<open>The driver\<close>

definition RESPONSE_TIMEOUT :: nat where
  "RESPONSE_TIMEOUT = 30 * 1000000000"

definition MAX_BLOCKING_WAIT :: nat where
  "MAX_BLOCKING_WAIT = RESPONSE_TIMEOUT - 5 * 1000000000"

definition BULK_MOVE_BATCH_SIZE :: nat where
  "BULK_MOVE_BATCH_SIZE = 1000"

record redis_driver =
  redis_lane_id :: queue_lane
  pending_key :: string
  in_progress_key :: string
  failed_key :: string

definition redis_stage_key :: "string \<Rightarrow> queue_lane \<Rightarrow> stage \<Rightarrow> string" where
  "redis_stage_key queue_name lane s =
     queue_name @ '':'' @ lane_str lane @ '':'' @ stage_str s"

text \<open>\<open>RedisDriver::open\<close>, once the connection is made.\<close>

definition open_redis :: "string \<Rightarrow> queue_lane \<Rightarrow> redis_driver" where
  "open_redis queue_name lane =
     \<lparr>redis_lane_id = lane,
      pending_key = redis_stage_key queue_name lane Pending,
      in_progress_key = redis_stage_key queue_name lane InProgress,
      failed_key = redis_stage_key queue_name lane FailedStage\<rparr>"

definition stage_key :: "redis_driver \<Rightarrow> stage \<Rightarrow> string" where
  "stage_key d s =
     (case s of Pending \<Rightarrow> pending_key d | InProgress \<Rightarrow> in_progress_key d
      | FailedStage \<Rightarrow> failed_key d)"

definition redis_serialize :: "codec \<Rightarrow> command_envelope \<Rightarrow> ('s, bytes) redis_call" where
  "redis_serialize c env s =
     (case to_vec c env of Inl e \<Rightarrow> (Inl (Serialization e), s) | Inr b \<Rightarrow> (Inr b, s))"

definition redis_publish ::
  "'s redis_server \<Rightarrow> codec \<Rightarrow> redis_driver \<Rightarrow> command_envelope \<Rightarrow> ('s, unit) redis_call" where
  "redis_publish srv c d env =
     bindE (redis_serialize c env) (\<lambda>json.
       query_async srv reply_unit (execute srv ''LPUSH'' [Arg (pending_key d), Arg json]))"

definition move_if_present ::
  "'s redis_server \<Rightarrow> redis_driver \<Rightarrow> bytes \<Rightarrow> string \<Rightarrow> bytes \<Rightarrow> ('s, bool) redis_call" where
  "move_if_present srv d element destination replacement =
     bindE (query_async srv reply_int
         (MOVE_IF_PRESENT srv (in_progress_key d) destination element replacement))
       (\<lambda>moved. retE (moved = 1))"

definition claim_element :: "'s redis_server \<Rightarrow> redis_driver \<Rightarrow> nat \<Rightarrow> ('s, bytes option) redis_call" where
  "claim_element srv d wait =
     (let command = (if wait = 0 then ''LMOVE'' else ''BLMOVE'');
          args = [Arg (pending_key d), Arg (in_progress_key d), Arg ''RIGHT'', Arg ''LEFT'']
            @ (if wait \<noteq> 0 then [ArgSeconds wait] else [])
      in query_async srv reply_optional_bytes (execute srv command args))"

text \<open>\<open>move_unreadable_to_failed\<close> logs and ignores a failing move.\<close>

definition redis_unreadable :: "'s redis_server \<Rightarrow> redis_driver \<Rightarrow> bytes \<Rightarrow> ('s, unit) redis_call" where
  "redis_unreadable srv d element =
     catchE (move_if_present srv d element (failed_key d) element) (\<lambda>_. retE ())"

partial_function (option) redis_dequeue_loop ::
  "'s redis_server \<Rightarrow> codec \<Rightarrow> redis_driver \<Rightarrow> int \<Rightarrow> 's \<Rightarrow> ((queue_error + delivery option) \<times> 's) option" where
  "redis_dequeue_loop srv c d deadline s =
     (case claim_element srv d (nat (deadline - instant_now srv s)) s of
        (Inl e, s') \<Rightarrow> Some (Inl e, s')
      | (Inr None, s') \<Rightarrow> Some (Inr None, s')
      | (Inr (Some element), s') \<Rightarrow>
          (case from_slice c element of
             Inr env \<Rightarrow>
               Some (Inr (Some (new_delivery (count_attempt env) (redis_lane_id d) (RedisReceipt element))), s')
           | Inl _ \<Rightarrow>
               (case redis_unreadable srv d element s' of
                  (_, s'') \<Rightarrow> redis_dequeue_loop srv c d deadline s'')))"

definition redis_dequeue ::
  "'s redis_server \<Rightarrow> codec \<Rightarrow> redis_driver \<Rightarrow> nat \<Rightarrow> 's \<Rightarrow> ((queue_error + delivery option) \<times> 's) option" where
  "redis_dequeue srv c d wait s =
     redis_dequeue_loop srv c d (instant_now srv s + int (min wait MAX_BLOCKING_WAIT)) s"

definition redis_acknowledge :: "'s redis_server \<Rightarrow> redis_driver \<Rightarrow> bytes \<Rightarrow> ('s, bool) redis_call" where
  "redis_acknowledge srv d element =
     bindE (query_async srv reply_int
         (execute srv ''LREM'' [Arg (in_progress_key d), ArgInt 1, Arg element]))
       (\<lambda>removed. retE (removed = 1))"

definition redis_move_claimed ::
  "'s redis_server \<Rightarrow> codec \<Rightarrow> redis_driver \<Rightarrow> bytes \<Rightarrow> command_envelope \<Rightarrow> stage \<Rightarrow> ('s, bool) redis_call" where
  "redis_move_claimed srv c d element env target =
     bindE (redis_serialize c env) (\<lambda>updated.
       move_if_present srv d element (stage_key d target) updated)"

text \<open>
  The loop of \<open>bulk_move\<close>. A batch that moves less than asked for stops it. A reply above the
  batch size cannot come from the script, and the loop would stop on it as well.
\<close>

function bulk_move ::
  "'s redis_server \<Rightarrow> string \<Rightarrow> string \<Rightarrow> string \<Rightarrow> string \<Rightarrow> nat \<Rightarrow> nat \<Rightarrow> ('s, nat) redis_call" where
  "bulk_move srv source destination from to limit moved s =
     (if moved < limit
      then (let batch = min (limit - moved) BULK_MOVE_BATCH_SIZE in
            case query_async srv reply_usize (BULK_MOVE srv source destination batch from to) s of
              (Inl e, s') \<Rightarrow> (Inl e, s')
            | (Inr count, s') \<Rightarrow>
                if count < batch then (Inr (moved + count), s')
                else bulk_move srv source destination from to limit (moved + count) s')
      else (Inr moved, s))"
  by pat_completeness auto
termination
  by (relation "measure (\<lambda>(srv, source, destination, from, to, limit, moved, s). limit - moved)")
    (auto simp: BULK_MOVE_BATCH_SIZE_def min_def split: if_splits)

declare bulk_move.simps [simp del]

definition redis_recover :: "'s redis_server \<Rightarrow> redis_driver \<Rightarrow> ('s, nat) redis_call" where
  "redis_recover srv d =
     bulk_move srv (in_progress_key d) (pending_key d) ''LEFT'' ''RIGHT'' usize_max 0"

definition redis_republish_failed :: "'s redis_server \<Rightarrow> redis_driver \<Rightarrow> nat \<Rightarrow> ('s, nat) redis_call" where
  "redis_republish_failed srv d limit =
     bulk_move srv (failed_key d) (pending_key d) ''RIGHT'' ''LEFT'' limit 0"

definition redis_lengths :: "'s redis_server \<Rightarrow> redis_driver \<Rightarrow> ('s, queue_lengths) redis_call" where
  "redis_lengths srv d =
     bindE (query_async srv reply_three (pipeline
         [execute srv ''LLEN'' [Arg (pending_key d)], execute srv ''LLEN'' [Arg (in_progress_key d)],
          execute srv ''LLEN'' [Arg (failed_key d)]]))
       (\<lambda>(p, i, f). retE \<lparr>len_pending = p, len_in_progress = i, len_failed = f\<rparr>)"

definition redis_clear :: "'s redis_server \<Rightarrow> redis_driver \<Rightarrow> stage \<Rightarrow> ('s, nat) redis_call" where
  "redis_clear srv d s =
     (let key = stage_key d s in
      bindE (query_async srv reply_two
          (pipeline [execute srv ''LLEN'' [Arg key], execute srv ''DEL'' [Arg key]]))
        (\<lambda>(len, _). retE len))"

definition redis_index_limit :: nat where
  "redis_index_limit = 9223372036854775807 - 1"

definition redis_peek ::
  "'s redis_server \<Rightarrow> codec \<Rightarrow> redis_driver \<Rightarrow> stage \<Rightarrow> nat \<Rightarrow> nat \<Rightarrow> ('s, peeked_message list) redis_call" where
  "redis_peek srv c d s lo hi =
     (let lo = int (min lo redis_index_limit); hi = int (min hi redis_index_limit) in
      bindE (query_async srv reply_list
          (execute srv ''LRANGE'' [Arg (stage_key d s), ArgInt (- (hi + 1)), ArgInt (- (lo + 1))]))
        (\<lambda>elements. retE (map (parse_peeked c from_utf8_lossy) (rev elements))))"

end
