(* ===== verification/Queue.thy ===== *)
theory Queue
  imports FileStore RedisDriver
begin

text \<open>
  A queue of one lane on the configured driver (\<open>src/inengine-core/src/queue/mod.rs\<close>): the dispatch
  to the drivers, the ownership check of a settle, and \<open>settle\<close> of \<open>delivery.rs\<close>. The state holds
  the file system and the Redis server; a queue uses one of them.
\<close>

section \<open>Queues\<close>

record 's stores =
  files :: world
  server :: 's

datatype backend = FileBackend file_store | RedisBackend redis_driver

text \<open>The code of other crates that the queue calls: JSON and the Redis client.\<close>

record 's queue_deps =
  json_codec :: codec
  redis_client :: "'s redis_server"

type_synonym ('s, 'a) queue_call = "'s stores \<Rightarrow> (queue_error + 'a) \<times> 's stores"

definition on_files :: "(world \<Rightarrow> 'a \<times> world) \<Rightarrow> 's stores \<Rightarrow> 'a \<times> 's stores" where
  "on_files m s = (case m (files s) of (r, w) \<Rightarrow> (r, s\<lparr>files := w\<rparr>))"

definition on_server :: "('s \<Rightarrow> 'a \<times> 's) \<Rightarrow> 's stores \<Rightarrow> 'a \<times> 's stores" where
  "on_server m s = (case m (server s) of (r, v) \<Rightarrow> (r, s\<lparr>server := v\<rparr>))"

text \<open>
  \<open>Queue::open\<close>. The connection to Redis, with its settings, is the client's: \<open>connect\<close> makes it or
  fails.
\<close>

datatype queue_driver = FileDriver | RedisDriver

definition open_queue ::
  "('s \<Rightarrow> (dyn_error + unit) \<times> 's) \<Rightarrow> queue_driver \<Rightarrow> string \<Rightarrow> string \<Rightarrow> queue_lane \<Rightarrow> ('s, backend) queue_call" where
  "open_queue connect driver queue_name base_path lane =
     (case driver of
        FileDriver \<Rightarrow>
          bindE (on_files (file_open queue_name lane base_path)) (\<lambda>st. retE (FileBackend st))
      | RedisDriver \<Rightarrow>
          bindE (on_server (map_errE RedisError connect))
            (\<lambda>_. retE (RedisBackend (open_redis queue_name lane))))"

fun queue_lane_of :: "backend \<Rightarrow> queue_lane" where
  "queue_lane_of (FileBackend st) = store_lane st"
| "queue_lane_of (RedisBackend d) = redis_lane_id d"

definition queue_publish :: "'s queue_deps \<Rightarrow> backend \<Rightarrow> command_envelope \<Rightarrow> ('s, unit) queue_call" where
  "queue_publish x q env =
     (case q of
        FileBackend st \<Rightarrow> on_files (file_publish (json_codec x) st env)
      | RedisBackend d \<Rightarrow> on_server (redis_publish (redis_client x) (json_codec x) d env))"

text \<open>A dequeue that never returns is \<open>None\<close>.\<close>

definition queue_dequeue ::
  "'s queue_deps \<Rightarrow> backend \<Rightarrow> nat \<Rightarrow> 's stores \<Rightarrow> ((queue_error + delivery option) \<times> 's stores) option" where
  "queue_dequeue x q wait s =
     (case q of
        FileBackend st \<Rightarrow>
          map_option (\<lambda>(r, w). (r, s\<lparr>files := w\<rparr>)) (file_dequeue (json_codec x) st wait (files s))
      | RedisBackend d \<Rightarrow>
          map_option (\<lambda>(r, v). (r, s\<lparr>server := v\<rparr>))
            (redis_dequeue (redis_client x) (json_codec x) d wait (server s)))"

definition owns :: "backend \<Rightarrow> delivery \<Rightarrow> bool" where
  "owns q d = (delivery_lane d = queue_lane_of q)"

definition queue_acknowledge ::
  "'s queue_deps \<Rightarrow> backend \<Rightarrow> delivery \<Rightarrow> 's stores \<Rightarrow> (settle_error + unit) \<times> 's stores" where
  "queue_acknowledge x q d s =
     (case (q, delivery_receipt d) of
        (FileBackend st, FileReceipt name) \<Rightarrow>
          if owns q d
          then (case on_files (file_acknowledge st name) s of (settled, s') \<Rightarrow> (settle_result d settled, s'))
          else (Inl (Rejected d), s)
      | (RedisBackend dr, RedisReceipt element) \<Rightarrow>
          if owns q d
          then (case on_server (redis_acknowledge (redis_client x) dr element) s of
                  (settled, s') \<Rightarrow> (settle_result d settled, s'))
          else (Inl (Rejected d), s)
      | _ \<Rightarrow> (Inl (Rejected d), s))"

definition queue_move_claimed ::
  "'s queue_deps \<Rightarrow> backend \<Rightarrow> delivery \<Rightarrow> stage \<Rightarrow> 's stores \<Rightarrow> (settle_error + unit) \<times> 's stores" where
  "queue_move_claimed x q d target s =
     (case (q, delivery_receipt d) of
        (FileBackend st, FileReceipt name) \<Rightarrow>
          if owns q d
          then (case on_files (file_move_claimed (json_codec x) st name (envelope d) target) s of
                  (settled, s') \<Rightarrow> (settle_result d settled, s'))
          else (Inl (Rejected d), s)
      | (RedisBackend dr, RedisReceipt element) \<Rightarrow>
          if owns q d
          then (case on_server (redis_move_claimed (redis_client x) (json_codec x) dr element
                      (envelope d) target) s of
                  (settled, s') \<Rightarrow> (settle_result d settled, s'))
          else (Inl (Rejected d), s)
      | _ \<Rightarrow> (Inl (Rejected d), s))"

definition queue_retry ::
  "'s queue_deps \<Rightarrow> backend \<Rightarrow> delivery \<Rightarrow> 's stores \<Rightarrow> (settle_error + unit) \<times> 's stores" where
  "queue_retry x q d = queue_move_claimed x q d Pending"

definition queue_move_to_failed ::
  "'s queue_deps \<Rightarrow> backend \<Rightarrow> delivery \<Rightarrow> 's stores \<Rightarrow> (settle_error + unit) \<times> 's stores" where
  "queue_move_to_failed x q d = queue_move_claimed x q d FailedStage"

definition queue_release ::
  "'s queue_deps \<Rightarrow> backend \<Rightarrow> delivery \<Rightarrow> 's stores \<Rightarrow> (settle_error + unit) \<times> 's stores" where
  "queue_release x q d = queue_move_claimed x q (uncount_attempt d) Pending"

definition queue_recover :: "'s queue_deps \<Rightarrow> backend \<Rightarrow> ('s, nat) queue_call" where
  "queue_recover x q =
     (case q of
        FileBackend st \<Rightarrow> on_files (file_recover st)
      | RedisBackend d \<Rightarrow> on_server (redis_recover (redis_client x) d))"

definition queue_lengths_of :: "'s queue_deps \<Rightarrow> backend \<Rightarrow> ('s, queue_lengths) queue_call" where
  "queue_lengths_of x q =
     (case q of
        FileBackend st \<Rightarrow> on_files (file_lengths st)
      | RedisBackend d \<Rightarrow> on_server (redis_lengths (redis_client x) d))"

definition queue_clear :: "'s queue_deps \<Rightarrow> backend \<Rightarrow> stage \<Rightarrow> ('s, nat) queue_call" where
  "queue_clear x q t =
     (case q of
        FileBackend st \<Rightarrow> on_files (file_clear st t)
      | RedisBackend d \<Rightarrow> on_server (redis_clear (redis_client x) d t))"

text \<open>\<open>peek\<close> of an inclusive range, which is empty when it is reversed.\<close>

definition queue_peek ::
  "'s queue_deps \<Rightarrow> backend \<Rightarrow> stage \<Rightarrow> nat \<times> nat \<Rightarrow> ('s, peeked_message list) queue_call" where
  "queue_peek x q t bounds =
     (case bounds of (lo, hi) \<Rightarrow>
        if hi < lo then retE []
        else case q of
            FileBackend st \<Rightarrow> on_files (file_peek (json_codec x) st t lo hi)
          | RedisBackend d \<Rightarrow> on_server (redis_peek (redis_client x) (json_codec x) d t lo hi))"

definition queue_republish_failed :: "'s queue_deps \<Rightarrow> backend \<Rightarrow> nat \<Rightarrow> ('s, nat) queue_call" where
  "queue_republish_failed x q limit =
     (case q of
        FileBackend st \<Rightarrow> on_files (file_republish_failed st limit)
      | RedisBackend d \<Rightarrow> on_server (redis_republish_failed (redis_client x) d limit))"

section \<open>Settling an attempt\<close>

text \<open>\<open>settle\<close> of \<open>delivery.rs\<close>: the policy table picks the operation.\<close>

definition settle ::
  "'s queue_deps \<Rightarrow> backend \<Rightarrow> delivery \<Rightarrow> attempt_kind \<Rightarrow> 's stores
     \<Rightarrow> (settle_error + settle_outcome) \<times> 's stores" where
  "settle x q d kind s =
     (case for_attempt kind (envelope d) of
        Acknowledge \<Rightarrow> apfst (map_sum id (\<lambda>_. Acknowledged)) (queue_acknowledge x q d s)
      | Retry \<Rightarrow> apfst (map_sum id (\<lambda>_. Retried)) (queue_retry x q d s)
      | MoveToFailed \<Rightarrow> apfst (map_sum id (\<lambda>_. MovedToFailed)) (queue_move_to_failed x q d s)
      | Release \<Rightarrow> apfst (map_sum id (\<lambda>_. Released)) (queue_release x q d s))"

section \<open>Processing a delivery\<close>

datatype attempt =
    AttemptSucceeded
  | AttemptFailed command_error
  | AttemptUnrunnable queue_error
  | AttemptInterrupted

fun kind_of :: "attempt \<Rightarrow> attempt_kind" where
  "kind_of AttemptSucceeded = KSucceeded"
| "kind_of (AttemptFailed e) = KCommandFailed"
| "kind_of (AttemptUnrunnable e) = KUnrunnable"
| "kind_of AttemptInterrupted = KInterrupted"

record processed_delivery =
  processed_id :: uuid
  processed_attempt :: attempt
  processed_settled :: "settle_error + settle_outcome"

text \<open>
  Running a command changes an environment \<open>'e\<close>, which \<open>cancelled\<close> asks whether the token has
  fired. \<open>run\<close> is the closure of the caller; \<open>None\<close> is a command that does not return.
\<close>

definition run_attempt ::
  "packer \<Rightarrow> delivery \<Rightarrow> 'c command_registry \<Rightarrow> ('e \<Rightarrow> bool) \<Rightarrow> ('c \<Rightarrow> 'e \<Rightarrow> (command_result \<times> 'e) option)
     \<Rightarrow> 'e \<Rightarrow> (attempt \<times> 'e) option" where
  "run_attempt k d registry cancelled run e =
     (case to_command k (envelope d) registry of
        Inr command \<Rightarrow>
          (case run command e of
             None \<Rightarrow> None
           | Some (result, e') \<Rightarrow>
               Some ((case result of
                   Inr _ \<Rightarrow> AttemptSucceeded
                 | Inl Interrupted \<Rightarrow>
                     if cancelled e' then AttemptInterrupted
                     else AttemptFailed (failed
                       ''the command stopped as if the server were stopping, but the server is running'')
                 | Inl error \<Rightarrow> AttemptFailed error), e'))
      | Inl error \<Rightarrow> Some (AttemptUnrunnable error, e))"

definition process_delivery ::
  "'s queue_deps \<Rightarrow> packer \<Rightarrow> backend \<Rightarrow> delivery \<Rightarrow> 'c command_registry \<Rightarrow> ('e \<Rightarrow> bool)
     \<Rightarrow> ('c \<Rightarrow> 'e \<Rightarrow> (command_result \<times> 'e) option) \<Rightarrow> 's stores \<times> 'e
     \<Rightarrow> (processed_delivery \<times> 's stores \<times> 'e) option" where
  "process_delivery x k q d registry cancelled run = (\<lambda>(s, e).
     (let message_id = env_id (envelope d) in
      case (if cancelled e then Some (AttemptInterrupted, e) else run_attempt k d registry cancelled run e) of
        None \<Rightarrow> None
      | Some (attempt, e') \<Rightarrow>
          (let (settled, s') = settle x q d (kind_of attempt) s
           in Some (\<lparr>processed_id = message_id, processed_attempt = attempt, processed_settled = settled\<rparr>, s', e'))))"

end
