(* ===== verification/FileView.thy ===== *)
theory FileView
  imports FileStore
begin

text \<open>
  What the stage directories hold, and what each directory operation does when nothing
  interferes. A stage is the sorted list of its visible regular files with their contents.
  \<open>file_inv\<close> is the invariant of a lane between operations.
\<close>

section \<open>Messages of a directory\<close>

definition msgs :: "fsys \<Rightarrow> string \<Rightarrow> string set" where
  "msgs d p = {n. \<not> is_hidden n \<and> (\<exists>b t. node_at d p n = Some (RegFile b t))}"

definition settles :: "fsys \<Rightarrow> string \<Rightarrow> string set" where
  "settles d p = {n. n \<noteq> [] \<and> utf8_valid (settling_name n) \<and> node_at d p (settling_name n) \<noteq> None}"

definition content :: "fsys \<Rightarrow> string \<Rightarrow> string \<Rightarrow> bytes" where
  "content d p n = (case node_at d p n of Some (RegFile b _) \<Rightarrow> b | _ \<Rightarrow> [])"

definition stage_names :: "file_store \<Rightarrow> stage \<Rightarrow> world \<Rightarrow> string list" where
  "stage_names st s w = sorted_list_of_set (msgs (dirs w) (stage_dir st s))"

definition stage_view :: "file_store \<Rightarrow> stage \<Rightarrow> world \<Rightarrow> (string \<times> bytes) list" where
  "stage_view st s w = map (\<lambda>n. (n, content (dirs w) (stage_dir st s) n)) (stage_names st s w)"

lemma finite_nodes: "finite {n. node_at d p n \<noteq> None}"
proof (cases "d p")
  case None
  then show ?thesis by (simp add: node_at_def)
next
  case (Some es)
  have "{n. node_at d p n \<noteq> None} = dom (map_of es)"
    using Some by (auto simp: node_at_def)
  then show ?thesis by (simp add: finite_dom_map_of)
qed

lemma finite_msgs [simp]: "finite (msgs d p)"
  by (rule finite_subset [OF _ finite_nodes [of d p]]) (auto simp: msgs_def)

lemma finite_settles [simp]: "finite (settles d p)"
proof -
  have "settling_name ` settles d p \<subseteq> {n. node_at d p n \<noteq> None}"
    by (auto simp: settles_def)
  then have "finite (settling_name ` settles d p)" by (rule finite_subset) (rule finite_nodes)
  then show ?thesis by (rule finite_imageD) (simp add: inj_on_def)
qed

lemma in_msgs: "n \<in> msgs d p \<longleftrightarrow> \<not> is_hidden n \<and> (\<exists>b t. node_at d p n = Some (RegFile b t))"
  by (simp add: msgs_def)

section \<open>Quiet calls\<close>

lemma world_same_dirs [simp]: "w\<lparr>dirs := dirs w\<rparr> = w"
  by simp

lemma is_file_iff: "is_file x \<longleftrightarrow> (\<exists>b t. x = RegFile b t)"
  by (cases x) auto

lemma fs_rename_quiet [quiet_simps]:
  assumes "script w = []" "node_at (dirs w) p n = Some (RegFile b t)" "dirs w q \<noteq> None"
    and "\<And>y. node_at (dirs w) q m = Some y \<Longrightarrow> is_file y"
  shows "fs_rename p n q m w =
    (Inr (), w\<lparr>dirs := put_node q m (RegFile b t) (drop_node p n (dirs w))\<rparr>)"
  using assms by (auto simp: fs_defs call_defs syscall_quiet split: option.splits)

lemma fs_rename_missing [quiet_simps]:
  assumes "script w = []" "node_at (dirs w) p n = None"
  shows "fs_rename p n q m w = (Inl not_found, w)"
  using assms by (simp add: fs_defs call_defs syscall_quiet)

lemma fs_remove_quiet [quiet_simps]:
  assumes "script w = []" "node_at (dirs w) p n = Some (RegFile b t)"
  shows "fs_remove_file p n w = (Inr (), w\<lparr>dirs := drop_node p n (dirs w)\<rparr>)"
  using assms by (simp add: fs_defs call_defs syscall_quiet)

lemma fs_remove_missing [quiet_simps]:
  assumes "script w = []" "node_at (dirs w) p n = None"
  shows "fs_remove_file p n w = (Inl not_found, w)"
  using assms by (simp add: fs_defs call_defs syscall_quiet)

lemma fs_read_quiet [quiet_simps]:
  assumes "script w = []" "node_at (dirs w) p n = Some (RegFile b t)"
  shows "fs_read p n w = (Inr b, w)"
  using assms by (simp add: fs_defs call_defs syscall_quiet)

lemma fs_next_entry_quiet [quiet_simps]: "script w = [] \<Longrightarrow> fs_next_entry w = (Inr (), w)"
  by (simp add: fs_defs call_defs syscall_quiet)

lemma fs_node_quiet [quiet_simps]:
  "script w = [] \<Longrightarrow> fs_node p n w =
     (case node_at (dirs w) p n of None \<Rightarrow> Inl not_found | Some x \<Rightarrow> Inr x, w)"
  by (simp add: fs_defs call_defs syscall_quiet)

lemma io_kind_not_found [simp]: "io_kind not_found = NotFound"
  by (simp add: not_found_def)

lemma rename_if_present_quiet [quiet_simps]:
  assumes "script w = []" "node_at (dirs w) p n = Some (RegFile b t)" "dirs w q \<noteq> None"
    and "\<And>y. node_at (dirs w) q m = Some y \<Longrightarrow> is_file y"
  shows "rename_if_present p n q m w =
    (Inr True, w\<lparr>dirs := put_node q m (RegFile b t) (drop_node p n (dirs w))\<rparr>)"
  using fs_rename_quiet [OF assms] by (simp add: rename_if_present_def catchE_def retE_def)

lemma rename_if_present_missing [quiet_simps]:
  assumes "script w = []" "node_at (dirs w) p n = None"
  shows "rename_if_present p n q m w = (Inr False, w)"
  using fs_rename_missing [OF assms] by (simp add: rename_if_present_def catchE_def retE_def)

lemma remove_if_present_quiet [quiet_simps]:
  assumes "script w = []" "node_at (dirs w) p n = Some (RegFile b t)"
  shows "remove_if_present p n w = (Inr True, w\<lparr>dirs := drop_node p n (dirs w)\<rparr>)"
  using fs_remove_quiet [OF assms] by (simp add: remove_if_present_def catchE_def retE_def)

lemma remove_if_present_missing [quiet_simps]:
  assumes "script w = []" "node_at (dirs w) p n = None"
  shows "remove_if_present p n w = (Inr False, w)"
  using fs_remove_missing [OF assms] by (simp add: remove_if_present_def catchE_def retE_def)

lemma collect_messages_quiet:
  assumes "script w = []"
  shows "collect_messages p es ns w = (Inr (ns @ filter (\<lambda>n. n \<in> msgs (dirs w) p) es), w)"
  using assms
proof (induction es arbitrary: ns)
  case (Cons n es)
  then show ?case
    by (cases "node_at (dirs w) p n"; cases "is_hidden n")
      (auto simp: bindE_def catchE_def retE_def fs_next_entry_quiet fs_node_quiet in_msgs
        is_file_iff split: option.splits)
qed (simp add: retE_def)

lemma list_messages_quiet [quiet_simps]:
  assumes "script w = []" "fs_ok (dirs w)" "dirs w p \<noteq> None"
  shows "list_messages p w = (Inr (sorted_list_of_set (msgs (dirs w) p)), w)"
proof -
  obtain es where es: "dirs w p = Some es" using assms(3) by blast
  then have dist: "distinct (map fst es)" using assms(2) by (auto simp: fs_ok_def)
  have "msgs (dirs w) p \<subseteq> dom (map_of es)"
    using es by (auto simp: in_msgs node_at_def)
  then have set: "set (filter (\<lambda>n. n \<in> msgs (dirs w) p) (map fst es)) = msgs (dirs w) p"
    by (auto simp: dom_map_of_conv_image_fst)
  have "sort (filter (\<lambda>n. n \<in> msgs (dirs w) p) (map fst es)) = sorted_list_of_set (msgs (dirs w) p)"
    using sort_distinct_set [of "filter (\<lambda>n. n \<in> msgs (dirs w) p) (map fst es)"] dist
    unfolding set by simp
  then show ?thesis
    using es assms(1) collect_messages_quiet [OF assms(1), of p "map fst es" "[]"]
    by (simp add: list_messages_def bindE_def retE_def fs_defs call_defs syscall_quiet)
qed

lemma collect_settles_quiet:
  assumes "script w = []"
  shows "collect_settles es ns w =
    (Inr (ns @ List.map_filter (\<lambda>n. strip_hidden_suffix n SETTLING_SUFFIX) es), w)"
proof (induction es arbitrary: ns)
  case (Cons n es)
  then show ?case
    by (cases "strip_hidden_suffix n SETTLING_SUFFIX")
      (simp_all add: bindE_def fs_next_entry_quiet assms map_filter_simps)
qed (simp add: retE_def map_filter_simps)

lemma set_map_filter: "set (List.map_filter f xs) = {y. \<exists>x \<in> set xs. f x = Some y}"
  by (induction xs) (auto split: option.splits)

lemma map_filter_settles:
  assumes "dirs w p = Some es"
  shows "set (List.map_filter (\<lambda>n. strip_hidden_suffix n SETTLING_SUFFIX) (map fst es)) =
    settles (dirs w) p"
proof -
  have mem: "node_at (dirs w) p n \<noteq> None \<longleftrightarrow> n \<in> set (map fst es)" for n
    using assms by (simp add: node_at_def map_of_eq_None_iff)
  show ?thesis
    unfolding settles_def mem set_map_filter strip_hidden_suffix_Some settling_name_def by blast
qed

lemma unfinished_settles_quiet [quiet_simps]:
  assumes "script w = []" "fs_ok (dirs w)" "dirs w p \<noteq> None"
  shows "unfinished_settles p w = (Inr (sorted_list_of_set (settles (dirs w) p)), w)"
proof -
  obtain es where es: "dirs w p = Some es" using assms(3) by blast
  let ?f = "\<lambda>n. strip_hidden_suffix n SETTLING_SUFFIX"
  let ?ns = "List.map_filter ?f (map fst es)"
  have "distinct (map fst es)" using es assms(2) by (auto simp: fs_ok_def)
  moreover have "inj_on (the \<circ> ?f) {n. ?f n \<noteq> None}"
  proof (rule inj_onI)
    fix x y assume "x \<in> {n. ?f n \<noteq> None}" "y \<in> {n. ?f n \<noteq> None}" "(the \<circ> ?f) x = (the \<circ> ?f) y"
    then obtain a where "?f x = Some a" "?f y = Some a" by auto
    then show "x = y" by (simp add: strip_hidden_suffix_Some)
  qed
  ultimately have "distinct ?ns"
    by (auto simp: map_filter_def distinct_map intro: inj_on_subset)
  then have "sort ?ns = sorted_list_of_set (settles (dirs w) p)"
    using sort_distinct_set map_filter_settles [OF es] by metis
  then show ?thesis
    using es assms(1) collect_settles_quiet [OF assms(1), of "map fst es" "[]"]
    by (simp add: unfinished_settles_def bindE_def retE_def fs_defs call_defs syscall_quiet)
qed


section \<open>The view of a directory\<close>

text \<open>The visible nodes of a directory, and how the sorted view follows their changes.\<close>

definition vis :: "fsys \<Rightarrow> string \<Rightarrow> string \<rightharpoonup> node" where
  "vis d p = (\<lambda>n. if is_hidden n then None else node_at d p n)"

definition files_of :: "(string \<rightharpoonup> node) \<Rightarrow> string set" where
  "files_of v = {n. \<exists>b t. v n = Some (RegFile b t)}"

definition bytes_of :: "node option \<Rightarrow> bytes" where
  "bytes_of x = (case x of Some (RegFile b _) \<Rightarrow> b | _ \<Rightarrow> [])"

definition view_of :: "(string \<rightharpoonup> node) \<Rightarrow> (string \<times> bytes) list" where
  "view_of v = map (\<lambda>n. (n, bytes_of (v n))) (sorted_list_of_set (files_of v))"

lemma msgs_vis: "msgs d p = files_of (vis d p)"
  by (auto simp: msgs_def files_of_def vis_def)

lemma finite_files_vis [simp]: "finite (files_of (vis d p))"
  by (metis finite_msgs msgs_vis)

lemma stage_view_vis: "stage_view st s w = view_of (vis (dirs w) (stage_dir st s))"
proof -
  have "content (dirs w) p n = bytes_of (vis (dirs w) p n)" if "n \<in> msgs (dirs w) p" for p n
    using that by (auto simp: content_def bytes_of_def vis_def in_msgs)
  then show ?thesis
    by (simp add: stage_view_def view_of_def stage_names_def msgs_vis)
qed

lemma files_of_upd: "files_of (v(n \<mapsto> RegFile b t)) = insert n (files_of v)"
  by (auto simp: files_of_def)

lemma files_of_del: "files_of (v(n := None)) = files_of v - {n}"
  by (auto simp: files_of_def)

lemma view_of_add:
  assumes "finite (files_of v)" "\<And>m. m \<in> files_of v \<Longrightarrow> m < n"
  shows "view_of (v(n \<mapsto> RegFile b t)) = view_of v @ [(n, b)]"
proof -
  have "n \<notin> files_of v" using assms(2) by blast
  then show ?thesis
    using assms sorted_list_of_set_insert_greatest [OF assms]
    by (auto simp: view_of_def files_of_upd bytes_of_def)
qed

lemma view_of_del:
  assumes "finite (files_of v)"
  shows "view_of (v(n := None)) = filter (\<lambda>x. fst x \<noteq> n) (view_of v)"
proof -
  have "sorted_list_of_set (files_of v - {n}) = filter (\<lambda>m. m \<noteq> n) (sorted_list_of_set (files_of v))"
    using assms by (intro sorted_distinct_set_unique) (auto simp: sorted_wrt_filter)
  then show ?thesis
    by (auto simp: view_of_def files_of_del filter_map comp_def intro!: map_cong)
qed

lemma view_of_mem: "finite (files_of v) \<Longrightarrow> (n, b) \<in> set (view_of v) \<longleftrightarrow> (\<exists>t. v n = Some (RegFile b t))"
  by (auto simp: view_of_def files_of_def bytes_of_def split: node.splits option.splits)

lemma view_of_keys: "finite (files_of v) \<Longrightarrow> fst ` set (view_of v) = files_of v"
  by (auto simp: view_of_def image_iff)

lemma view_of_distinct: "finite (files_of v) \<Longrightarrow> distinct (map fst (view_of v))"
  by (simp add: view_of_def comp_def)

lemma map_fst_view_of: "map fst (view_of v) = sorted_list_of_set (files_of v)"
  by (simp add: view_of_def comp_def)

lemma length_view_of: "length (view_of v) = length (sorted_list_of_set (files_of v))"
  by (simp add: view_of_def)

lemma filter_neq_hd:
  "distinct (map fst ((n, b) # xs)) \<Longrightarrow> filter (\<lambda>x. fst x \<noteq> n) ((n, b) # xs) = xs"
  by (auto simp: filter_id_conv)

lemma view_of_head:
  assumes "finite (files_of v)" "view_of v = (n, b) # xs"
  shows "\<exists>t. v n = Some (RegFile b t)" and "view_of (v(n := None)) = xs"
    and "\<And>m. m \<in> files_of v \<Longrightarrow> m \<noteq> n \<Longrightarrow> n < m"
proof -
  show "\<exists>t. v n = Some (RegFile b t)" using assms view_of_mem [of v n b] by simp
  show "view_of (v(n := None)) = xs"
    using view_of_del [OF assms(1), of n] assms(2) view_of_distinct [OF assms(1)] filter_neq_hd
    by metis
  have "sorted_list_of_set (files_of v) = n # map fst xs"
    using assms(2) map_fst_view_of [of v] by simp
  then show "n < m" if "m \<in> files_of v" "m \<noteq> n" for m
    using sorted_list_of_set_Cons(3) [OF assms(1)] that by blast
qed

lemma vis_put [simp]:
  "vis (put_node p n x d) q =
     (if q = p \<and> d p \<noteq> None \<and> \<not> is_hidden n then (vis d q)(n \<mapsto> x) else vis d q)"
  by (rule ext) (auto simp: vis_def)

lemma vis_drop [simp]:
  "vis (drop_node p n d) q = (if q = p \<and> \<not> is_hidden n then (vis d q)(n := None) else vis d q)"
  by (rule ext) (auto simp: vis_def)

section \<open>The invariant of a lane\<close>

text \<open>
  Documented behaviour of \<open>Uuid::now_v7\<close> and \<open>simple\<close>: later ids of a process sort after earlier
  ones, and the text is hexadecimal.
\<close>

definition uuid_supply :: "(nat \<Rightarrow> string) \<Rightarrow> bool" where
  "uuid_supply f =
     ((\<forall>i j. i < j \<longrightarrow> f i < f j) \<and> (\<forall>i. f i \<noteq> [] \<and> \<not> is_hidden (f i) \<and> utf8_valid (f i)))"

text \<open>
  Nothing interferes; the three directories exist and are distinct; every entry is a file, and a
  visible one is a message with a name that the UUID supply has passed; hidden entries, such as
  temporary files of a crashed process, are not in the way of coming names; no settle is
  unfinished; and every claimed message is older than every pending one.
\<close>

definition next_name :: "world \<Rightarrow> string" where
  "next_name w = uuids w (uuid_next w)"

definition stage_ok :: "world \<Rightarrow> string \<Rightarrow> bool" where
  "stage_ok w p =
     (dirs w p \<noteq> None
      \<and> (\<forall>n x. node_at (dirs w) p n = Some x \<longrightarrow> is_file x \<and> (\<not> is_hidden n \<longrightarrow> n < next_name w))
      \<and> (\<forall>i \<ge> uuid_next w. node_at (dirs w) p (hidden_name (uuids w i) TEMP_SUFFIX) = None)
      \<and> (\<forall>m. node_at (dirs w) p (settling_name m) = None))"

definition file_base :: "file_store \<Rightarrow> world \<Rightarrow> bool" where
  "file_base st w =
     (script w = [] \<and> fs_ok (dirs w) \<and> uuid_supply (uuids w)
      \<and> distinct (map (stage_dir st) all_stages)
      \<and> (\<forall>s \<in> set all_stages. stage_ok w (stage_dir st s)))"

definition file_inv :: "file_store \<Rightarrow> world \<Rightarrow> bool" where
  "file_inv st w =
     (file_base st w
      \<and> (\<forall>n \<in> msgs (dirs w) (in_progress_dir st). \<forall>m \<in> msgs (dirs w) (pending_dir st). n < m))"

text \<open>The visible nodes of a stage.\<close>

definition stage_vis :: "file_store \<Rightarrow> world \<Rightarrow> stage \<Rightarrow> string \<rightharpoonup> node" where
  "stage_vis st w s = vis (dirs w) (stage_dir st s)"

lemma stage_in_all [simp]: "s \<in> set all_stages"
  by (cases s) (auto simp: all_stages_def)

lemma file_inv_base: "file_inv st w \<Longrightarrow> file_base st w"
  by (simp add: file_inv_def)

lemma base_stage: "file_base st w \<Longrightarrow> stage_ok w (stage_dir st s)"
  by (simp add: file_base_def)

lemma stage_dir_inject: "file_base st w \<Longrightarrow> stage_dir st s = stage_dir st s' \<longleftrightarrow> s = s'"
  by (cases s; cases s') (auto simp: file_base_def all_stages_def)

lemma stage_dir_simps:
  "pending_dir st = stage_dir st Pending" "in_progress_dir st = stage_dir st InProgress"
  "failed_dir st = stage_dir st FailedStage"
  by (simp_all add: stage_dir_def)

lemma base_quiet: "file_base st w \<Longrightarrow> script w = []"
  by (simp add: file_base_def)

lemma base_dir: "file_base st w \<Longrightarrow> dirs w (stage_dir st s) \<noteq> None"
  using base_stage [of st w s] by (simp add: stage_ok_def)

lemma base_fs_ok: "file_base st w \<Longrightarrow> fs_ok (dirs w)"
  by (simp add: file_base_def)

lemma base_node:
  assumes "file_base st w" "node_at (dirs w) (stage_dir st s) n = Some x" "\<not> is_hidden n"
  shows "is_file x" "n < next_name w"
  using base_stage [OF assms(1), of s] assms(2,3) unfolding stage_ok_def by blast+

lemma base_is_file:
  assumes "file_base st w" "node_at (dirs w) (stage_dir st s) n = Some x"
  shows "is_file x"
  using base_stage [OF assms(1), of s] assms(2) unfolding stage_ok_def by blast

lemma base_vis:
  assumes "file_base st w" "stage_vis st w s n = Some x"
  shows "node_at (dirs w) (stage_dir st s) n = Some x" "\<not> is_hidden n" "is_file x" "n < next_name w"
  using assms base_node [OF assms(1)] by (auto simp: stage_vis_def vis_def split: if_splits)

lemma base_files: "file_base st w \<Longrightarrow> n \<in> files_of (stage_vis st w s) \<longleftrightarrow> stage_vis st w s n \<noteq> None"
  using base_vis(3) [of st w s n] by (auto simp: files_of_def is_file_iff)

lemma finite_stage_vis [simp]: "finite (files_of (stage_vis st w s))"
  by (simp add: stage_vis_def)

lemma stage_view_of: "stage_view st s w = view_of (stage_vis st w s)"
  by (simp add: stage_view_vis stage_vis_def)

lemma next_name_props:
  assumes "file_base st w"
  shows "next_name w \<noteq> []" "\<not> is_hidden (next_name w)" "utf8_valid (next_name w)"
    and "next_name w < uuids w (Suc (uuid_next w))"
    and "\<And>i j. uuids w i = uuids w j \<Longrightarrow> i = j"
proof -
  have u: "uuid_supply (uuids w)" using assms by (simp add: file_base_def)
  then show "next_name w \<noteq> []" "\<not> is_hidden (next_name w)" "utf8_valid (next_name w)"
    "next_name w < uuids w (Suc (uuid_next w))"
    unfolding uuid_supply_def next_name_def using lessI by blast+
  show "i = j" if "uuids w i = uuids w j" for i j
    using u that by (metis less_irrefl linorder_neqE_nat uuid_supply_def)
qed

lemma next_name_fresh: "file_base st w \<Longrightarrow> stage_vis st w s (next_name w) = None"
  using base_vis(4) [of st w s "next_name w"] by fastforce

section \<open>Single changes of a lane\<close>

definition bump :: "world \<Rightarrow> world" where
  "bump w = w\<lparr>uuid_next := Suc (uuid_next w)\<rparr>"

lemma with_new_name_eq [simp]: "with_new_name k w = k (next_name w) (bump w)"
  by (simp add: with_new_name_def new_message_name_def now_v7_def next_name_def bump_def)

lemma bump_simps [simp]:
  "dirs (bump w) = dirs w" "script (bump w) = script w" "clock (bump w) = clock w"
  "uuids (bump w) = uuids w" "stage_vis st (bump w) s = stage_vis st w s"
  by (simp_all add: bump_def stage_vis_def)

lemma base_bump:
  assumes "file_base st w"
  shows "file_base st (bump w)" and "next_name w < next_name (bump w)"
proof -
  show less: "next_name w < next_name (bump w)"
    using next_name_props(4) [OF assms] by (simp add: bump_def next_name_def)
  have "stage_ok (bump w) (stage_dir st s)" for s
    using base_stage [OF assms, of s] less unfolding stage_ok_def
    by (auto simp: bump_def intro: less_trans)
  then show "file_base st (bump w)" using assms by (simp add: file_base_def)
qed

text \<open>What a change of the directories must keep for the base invariant.\<close>

lemma base_change:
  assumes "file_base st w" "fs_ok d'" "\<And>q. d' q = None \<longleftrightarrow> dirs w q = None"
    and "\<And>s n x. node_at d' (stage_dir st s) n = Some x \<Longrightarrow>
        node_at (dirs w) (stage_dir st s) n = Some x \<or> \<not> is_hidden n \<and> is_file x \<and> n < next_name w"
  shows "file_base st (w\<lparr>dirs := d'\<rparr>)"
proof -
  have "stage_ok (w\<lparr>dirs := d'\<rparr>) (stage_dir st s)" for s
  proof -
    have ok: "stage_ok w (stage_dir st s)" using base_stage [OF assms(1)] .
    have hid: "node_at d' (stage_dir st s) n = None"
      if "is_hidden n" "node_at (dirs w) (stage_dir st s) n = None" for n
      using assms(4) [of s n] that by (cases "node_at d' (stage_dir st s) n") auto
    show ?thesis
      using ok assms(3) [of "stage_dir st s"] assms(4) [of s] hid
      unfolding stage_ok_def next_name_def by fastforce
  qed
  then show ?thesis using assms(1,2) by (simp add: file_base_def)
qed

lemma base_move:
  assumes base: "file_base st w" and src: "stage_vis st w s n = Some x"
    and ne: "s \<noteq> s'" and m: "\<not> is_hidden m" "m < next_name w"
  obtains w' where "rename_if_present (stage_dir st s) n (stage_dir st s') m w = (Inr True, w')"
    and "file_base st w'" "uuid_next w' = uuid_next w" "uuids w' = uuids w" "clock w' = clock w"
    and "stage_vis st w' = (stage_vis st w)(s := (stage_vis st w s)(n := None),
           s' := (stage_vis st w s')(m \<mapsto> x))"
proof -
  obtain b t where x: "x = RegFile b t" using base_vis(3) [OF base src] by (auto simp: is_file_iff)
  let ?d = "put_node (stage_dir st s') m x (drop_node (stage_dir st s) n (dirs w))"
  have dn: "stage_dir st s \<noteq> stage_dir st s'" using stage_dir_inject [OF base] ne by simp
  have r: "rename_if_present (stage_dir st s) n (stage_dir st s') m w = (Inr True, w\<lparr>dirs := ?d\<rparr>)"
    unfolding x using base_quiet [OF base] base_vis(1) [OF base src] base_dir [OF base, of s'] x m
    by (intro rename_if_present_quiet) (auto dest: base_node(1) [OF base])
  have b: "file_base st (w\<lparr>dirs := ?d\<rparr>)"
    using base m base_vis(3) [OF base src]
    by (intro base_change) (auto simp: base_fs_ok split: if_splits)
  have v: "stage_vis st (w\<lparr>dirs := ?d\<rparr>) = (stage_vis st w)(s := (stage_vis st w s)(n := None),
       s' := (stage_vis st w s')(m \<mapsto> x))"
    using ne m base_vis(2) [OF base src] base_dir [OF base, of s'] stage_dir_inject [OF base]
    by (auto simp: stage_vis_def fun_eq_iff)
  show thesis by (rule that [OF r b _ _ _ v]) simp_all
qed

lemma base_missing:
  assumes "file_base st w" "stage_vis st w s n = None" "\<not> is_hidden n"
  shows "rename_if_present (stage_dir st s) n q m w = (Inr False, w)"
    and "remove_if_present (stage_dir st s) n w = (Inr False, w)"
  using assms base_quiet [OF assms(1)]
  by (auto simp: stage_vis_def vis_def rename_if_present_missing remove_if_present_missing)

lemma base_remove:
  assumes base: "file_base st w" and src: "stage_vis st w s n = Some x"
  obtains w' where "remove_if_present (stage_dir st s) n w = (Inr True, w')"
    and "file_base st w'" "uuid_next w' = uuid_next w" "uuids w' = uuids w" "clock w' = clock w"
    and "stage_vis st w' = (stage_vis st w)(s := (stage_vis st w s)(n := None))"
proof -
  obtain b t where x: "x = RegFile b t" using base_vis(3) [OF base src] by (auto simp: is_file_iff)
  let ?d = "drop_node (stage_dir st s) n (dirs w)"
  have r: "remove_if_present (stage_dir st s) n w = (Inr True, w\<lparr>dirs := ?d\<rparr>)"
    using base_quiet [OF base] base_vis(1) [OF base src] x by (intro remove_if_present_quiet) auto
  have b: "file_base st (w\<lparr>dirs := ?d\<rparr>)"
    using base by (intro base_change) (auto simp: base_fs_ok split: if_splits)
  have v: "stage_vis st (w\<lparr>dirs := ?d\<rparr>) = (stage_vis st w)(s := (stage_vis st w s)(n := None))"
    using base_vis(2) [OF base src] stage_dir_inject [OF base]
    by (auto simp: stage_vis_def fun_eq_iff)
  show thesis by (rule that [OF r b _ _ _ v]) simp_all
qed

lemma write_atomic_quiet:
  assumes q: "script w = []" and p: "dirs w p \<noteq> None" and ok: "fs_ok (dirs w)"
    and temp: "node_at (dirs w) p (hidden_name n TEMP_SUFFIX) = None" and n: "\<not> is_hidden n"
    and isf: "\<And>y. node_at (dirs w) p n = Some y \<Longrightarrow> is_file y"
  obtains d' where "write_atomic p n b w = (Inr (), w\<lparr>dirs := d'\<rparr>)" "fs_ok d'"
    "\<And>q. d' q = None \<longleftrightarrow> dirs w q = None"
    "\<And>q m. node_at d' q m =
       (if q = p \<and> m = n then Some (RegFile b (clock w)) else node_at (dirs w) q m)"
proof -
  let ?t = "hidden_name n TEMP_SUFFIX"
  let ?d1 = "put_node p ?t (RegFile [] (clock w)) (dirs w)"
  let ?d2 = "write_prefix p ?t b (clock w) ?d1"
  let ?d3 = "put_node p n (RegFile b (clock w)) (drop_node p ?t ?d2)"
  have tn: "?t \<noteq> n" using not_hidden_neq_hidden [OF n] by (rule not_sym)
  have d2: "node_at ?d2 p ?t = Some (RegFile b (clock w))" "?d2 p \<noteq> None"
    using p by (auto simp: node_at_write_prefix)
  have file2: "is_file y" if "node_at ?d2 p n = Some y" for y
    using that isf tn by (simp add: node_at_write_prefix)
  have c: "fs_create_new p ?t w = (Inr (), w\<lparr>dirs := ?d1\<rparr>)"
    using q p temp by (simp add: fs_defs call_defs syscall_quiet)
  have wr: "fs_write_all p ?t b (w\<lparr>dirs := ?d1\<rparr>) = (Inr (), w\<lparr>dirs := ?d2\<rparr>)"
    using q by (simp add: fs_defs call_defs syscall_with_quiet)
  have sy: "fs_sync_all (w\<lparr>dirs := d\<rparr>) = (Inr (), w\<lparr>dirs := d\<rparr>)" for d
    using q by (simp add: fs_defs call_defs syscall_quiet)
  have rn: "fs_rename p ?t p n (w\<lparr>dirs := ?d2\<rparr>) = (Inr (), w\<lparr>dirs := ?d3\<rparr>)"
    using q d2 file2 fs_rename_quiet [of "w\<lparr>dirs := ?d2\<rparr>" p ?t b "clock w" p n] by simp
  have od: "fs_open_dir p (w\<lparr>dirs := ?d3\<rparr>) = (Inr (), w\<lparr>dirs := ?d3\<rparr>)"
    using q p by (simp add: fs_defs call_defs syscall_quiet)
  have "write_atomic p n b w = (Inr (), w\<lparr>dirs := ?d3\<rparr>)"
    by (simp add: write_atomic_def Let_def bindE_def catchE_def c wr sy rn od)
  moreover have "fs_ok ?d3" using ok by simp
  moreover have "?d3 q = None \<longleftrightarrow> dirs w q = None" for q by simp
  moreover have "node_at ?d3 q m =
      (if q = p \<and> m = n then Some (RegFile b (clock w)) else node_at (dirs w) q m)" for q m
    using p temp tn by (auto simp: node_at_write_prefix)
  ultimately show thesis by (rule that)
qed

lemma base_write:
  assumes base: "file_base st w" and name: "n = next_name w"
  obtains w' where "write_atomic (stage_dir st s) n b (bump w) = (Inr (), w')"
    and "file_base st w'" "uuid_next w' = Suc (uuid_next w)" "uuids w' = uuids w" "clock w' = clock w"
    and "stage_vis st w' = (stage_vis st w)(s := (stage_vis st w s)(n \<mapsto> RegFile b (clock w)))"
proof -
  have n: "\<not> is_hidden n" "n < next_name (bump w)"
    using next_name_props(2) [OF base] base_bump(2) [OF base] name by simp_all
  have base': "file_base st (bump w)" by (rule base_bump(1) [OF base])
  have temp: "node_at (dirs (bump w)) (stage_dir st s) (hidden_name n TEMP_SUFFIX) = None"
    using base_stage [OF base, of s] name by (simp add: stage_ok_def next_name_def)
  obtain d' where d0: "write_atomic (stage_dir st s) n b (bump w) = (Inr (), (bump w)\<lparr>dirs := d'\<rparr>)"
    "fs_ok d'" "\<And>q. d' q = None \<longleftrightarrow> dirs (bump w) q = None"
    "\<And>q m. node_at d' q m = (if q = stage_dir st s \<and> m = n then Some (RegFile b (clock (bump w)))
       else node_at (dirs (bump w)) q m)"
    by (rule write_atomic_quiet [OF base_quiet [OF base'] base_dir [OF base', of s]
      base_fs_ok [OF base'] temp n(1) base_node(1) [OF base' _ n(1), of s]]) blast+
  note d' = d0 [unfolded bump_simps]
  have b: "file_base st ((bump w)\<lparr>dirs := d'\<rparr>)"
    using base' d' n by (intro base_change) (auto split: if_splits)
  have v: "stage_vis st ((bump w)\<lparr>dirs := d'\<rparr>) =
      (stage_vis st w)(s := (stage_vis st w s)(n \<mapsto> RegFile b (clock w)))"
    using n(1) stage_dir_inject [OF base] by (auto simp: stage_vis_def vis_def fun_eq_iff d'(4))
  show thesis by (rule that [OF d'(1) b _ _ _ v]) (simp_all add: bump_def)
qed

end
