(* ===== verification/FileRuns.thy ===== *)
theory FileRuns
  imports FileStore
begin

text \<open>
  Facts on every run of the file driver, whatever other processes, failing calls and crashes do:
  each operation only goes forward, in that the clock does not go back and stands still when
  nothing interferes, the names of new messages are not taken again, and the script of coming
  interference is only consumed. A dequeue with a deadline therefore returns.
\<close>

definition later :: "world \<Rightarrow> world \<Rightarrow> bool" where
  "later w w' = (clock w \<le> clock w' \<and> uuids w' = uuids w \<and> uuid_next w \<le> uuid_next w'
     \<and> suffix (script w') (script w) \<and> (script w = [] \<longrightarrow> clock w' = clock w))"

definition forward :: "(world \<Rightarrow> 'a \<times> world) \<Rightarrow> bool" where
  "forward m = (\<forall>w. later w (snd (m w)))"

named_theorems forward_rules \<open>the operations that only go forward\<close>

lemma later_refl [simp]: "later w w"
  by (simp add: later_def)

lemma later_trans: "later u v \<Longrightarrow> later v w \<Longrightarrow> later u w"
  by (auto simp: later_def intro: suffix_order.trans)

lemma later_dirs [simp]: "later w (w'\<lparr>dirs := d\<rparr>) = later w w'"
  by (simp add: later_def)

lemma rivals_keep:
  "clock w \<le> clock (rivals rs w) \<and> uuids (rivals rs w) = uuids w
    \<and> uuid_next (rivals rs w) = uuid_next w \<and> script (rivals rs w) = script w"
proof (induction rs arbitrary: w)
  case (Cons r rs)
  have "clock w \<le> clock (rival_step r w) \<and> uuids (rival_step r w) = uuids w
      \<and> uuid_next (rival_step r w) = uuid_next w \<and> script (rival_step r w) = script w"
    by (cases r) simp_all
  then show ?case using Cons [of "rival_step r w"] by (auto simp: rivals_def)
qed (simp add: rivals_def)

lemma forwardD: "forward m \<Longrightarrow> m w = (r, w') \<Longrightarrow> later w w'"
  by (metis forward_def snd_conv)

lemma forward_syscall_with [forward_rules]: "forward (syscall_with part f)"
proof -
  have pop: "later w (rivals rs (w\<lparr>script := rest\<rparr>))" if "script w = x # rest" for w rs x rest
    using rivals_keep [of "w\<lparr>script := rest\<rparr>" rs] that by (simp add: later_def suffix_ConsI)
  have "later w (snd (syscall_with part f w))" for w
    using pop [of w]
    by (auto simp: syscall_with_def run_call_def Let_def split: list.split prod.split outcome.split)
  then show ?thesis by (simp add: forward_def)
qed

lemma forward_syscall [forward_rules]: "forward (syscall f)"
  by (simp add: syscall_def forward_rules)

lemma forward_fs [forward_rules]:
  "forward (fs_remove_file p n)" "forward (fs_rename p n q m)" "forward (fs_create_new p n)"
  "forward (fs_write_all p n b)" "forward fs_sync_all" "forward (fs_open_dir p)" "forward (fs_read p n)"
  "forward (fs_node p n)" "forward (fs_read_dir p)" "forward fs_next_entry" "forward (fs_create_dir_all p)"
  by (simp_all add: fs_defs forward_rules)

lemma forward_retE [forward_rules]: "forward (retE x)" and forward_failE [forward_rules]: "forward (failE e)"
  by (simp_all add: forward_def retE_def failE_def)

lemma forward_bindE [forward_rules]:
  assumes "forward m" "\<And>x. forward (k x)"
  shows "forward (bindE m k)"
  unfolding forward_def
proof
  fix w
  obtain r u where u: "m w = (r, u)" by fastforce
  have "later w u" by (rule forwardD [OF assms(1) u])
  moreover have "later u (snd (k x u))" for x using assms(2) by (simp add: forward_def)
  ultimately show "later w (snd (bindE m k w))"
    using later_trans u by (cases r) (auto simp: bindE_def)
qed

lemma forward_catchE [forward_rules]:
  assumes "forward m" "\<And>x. forward (k x)"
  shows "forward (catchE m k)"
  unfolding forward_def
proof
  fix w
  obtain r u where u: "m w = (r, u)" by fastforce
  have "later w u" by (rule forwardD [OF assms(1) u])
  moreover have "later u (snd (k x u))" for x using assms(2) by (simp add: forward_def)
  ultimately show "later w (snd (catchE m k w))"
    using later_trans u by (auto simp: catchE_def)
qed

lemma forward_map_errE [forward_rules]: "forward m \<Longrightarrow> forward (map_errE f m)"
  by (simp add: forward_def map_errE_def split: prod.split sum.split) (metis snd_conv)

lemma forward_with_new_name [forward_rules]:
  assumes "\<And>n. forward (k n)"
  shows "forward (with_new_name k)"
  unfolding forward_def
proof
  fix w
  have "later w (w\<lparr>uuid_next := Suc (uuid_next w)\<rparr>)" by (simp add: later_def)
  then show "later w (snd (with_new_name k w))"
    using assms later_trans
    by (auto simp: with_new_name_def new_message_name_def now_v7_def forward_def)
qed

lemma forward_rename_if_present [forward_rules]: "forward (rename_if_present p n q m)"
  and forward_remove_if_present [forward_rules]: "forward (remove_if_present p n)"
  unfolding rename_if_present_def remove_if_present_def
  by (auto intro!: forward_rules split: sum.split)

lemma forward_collect_messages [forward_rules]: "forward (collect_messages dir es ns)"
  by (induction es arbitrary: ns) (auto intro!: forward_rules split: sum.split)

lemma forward_list_messages [forward_rules]: "forward (list_messages dir)"
  unfolding list_messages_def by (intro forward_rules)

lemma forward_move_unreadable [forward_rules]: "forward (move_unreadable_to_failed st n)"
  unfolding move_unreadable_to_failed_def by (intro forward_rules)

lemma forward_claim_first [forward_rules]: "forward (claim_first c st names)"
  by (induction names) (auto intro!: forward_rules split: sum.split)

lemma forward_claim_oldest [forward_rules]: "forward (store_claim_oldest c st)"
  unfolding store_claim_oldest_def by (intro forward_rules)

lemma claim_clock: "clock w \<le> clock (snd (store_claim_oldest c st w))"
  using forward_claim_oldest [of c st] by (simp add: forward_def later_def)

lemma forward_serialize [forward_rules]: "forward (serialize c env)"
  by (simp add: forward_def serialize_def split: sum.split)

lemma forward_write_atomic [forward_rules]: "forward (write_atomic dir n b)"
  unfolding write_atomic_def Let_def by (auto intro!: forward_rules split: sum.split)

lemma forward_finish_move [forward_rules]: "forward (store_finish_move st k dir n)"
  unfolding store_finish_move_def by (auto intro!: forward_rules split: sum.split)

lemma forward_write_moved [forward_rules]: "forward (store_write_moved c st n env t)"
  unfolding store_write_moved_def Let_def by (auto intro!: forward_rules split: sum.split)

lemma forward_path_exists:
  assumes "\<And>b. forward (k b)"
  shows "forward (\<lambda>w. case path_exists p n w of (b, w') \<Rightarrow> k b w')"
  unfolding forward_def
proof
  fix w
  obtain r u where u: "syscall (call_exists p n) w = (r, u)" by fastforce
  have "later w u" by (rule forwardD [OF forward_syscall u])
  then show "later w (snd (case path_exists p n w of (b, w') \<Rightarrow> k b w'))"
    using u later_trans assms by (cases r) (auto simp: path_exists_def forward_def)
qed

lemma forward_move_claimed [forward_rules]: "forward (store_move_claimed c st n env t)"
proof -
  have "forward (\<lambda>w. case path_exists p claimed w of (there, w') \<Rightarrow>
      if \<not> there then retE False w' else store_write_moved c st n env t w')" for p claimed
    by (rule forward_path_exists [of "\<lambda>there. if \<not> there then retE False else store_write_moved c st n env t",
      simplified if_distribR]) (auto intro!: forward_rules)
  then show ?thesis
    unfolding store_move_claimed_def Let_def by (auto intro!: forward_rules)
qed

lemma forward_publish [forward_rules]: "forward (store_publish c st env)"
  unfolding store_publish_def by (intro forward_rules)

lemma forward_acknowledge [forward_rules]: "forward (store_acknowledge st n)"
  unfolding store_acknowledge_def by (intro forward_rules)

section \<open>A dequeue returns\<close>

text \<open>
  Each round of the polling loop sleeps for the time that is left, or one poll interval, so the
  time left is a measure, whatever happens around the file calls.
\<close>

lemma dequeue_loop_returns: "\<exists>res. dequeue_loop c st (Some d) w = Some res"
proof (induction "nat (d - clock w)" arbitrary: w rule: less_induct)
  case less
  obtain r w' where rw: "store_claim_oldest c st w = (r, w')" by fastforce
  let ?left = "remaining_wait (Some d) (clock w')"
  let ?w = "sleep (min ?left POLL_INTERVAL) w'"
  show ?case
  proof (cases "r = Inr None \<and> ?left \<noteq> 0")
    case True
    have "clock w \<le> clock w'" using claim_clock [of w c st] rw by simp
    then have "nat (d - clock ?w) < nat (d - clock w)"
      using True by (auto simp: sleep_def remaining_wait_def POLL_INTERVAL_def min_def)
    then obtain res where "dequeue_loop c st (Some d) ?w = Some res" using less by blast
    then show ?thesis using True rw by (simp add: dequeue_loop.simps [of _ _ _ w] Let_def)
  next
    case False
    then show ?thesis
      using rw by (cases r) (auto simp: dequeue_loop.simps [of _ _ _ w] Let_def split: option.split)
  qed
qed

text \<open>Without interference and without a wait, a dequeue takes no time.\<close>

lemma dequeue_zero_clock:
  assumes "script w = []" "clock w \<le> instant_max" "file_dequeue c st 0 w = Some (r, w')"
  shows "clock w' = clock w"
proof -
  obtain r1 w1 where w1: "store_claim_oldest c st w = (r1, w1)" by fastforce
  have "later w w1" by (rule forwardD [OF forward_claim_oldest w1])
  then have clock: "clock w1 = clock w" using assms(1) by (simp add: later_def)
  then have "w' = w1"
    using assms(2,3) w1 dequeue_loop.simps [of c st "Some (clock w)" w]
    by (auto simp: file_dequeue_def checked_deadline_def remaining_wait_def split: sum.splits option.splits)
  then show ?thesis using clock by simp
qed

end
