(* ===== verification/LaneSpec.thy ===== *)
theory LaneSpec
  imports Delivery Utf8
begin

text \<open>
  What one lane of a queue promises, whatever driver stores it: an abstract lane of three lists
  of stored messages, oldest first, the abstract operations on it, and the locale \<open>lane_driver\<close>
  of a driver that implements them. Receipts (\<open>'k\<close>) name the claimed messages. The facts that
  the consumers rely on are proved once, inside the locale, and hold for the file driver and
  for the Redis driver by interpretation.
\<close>

section \<open>Abstract lanes\<close>

record 'k lane =
  waiting :: "bytes list"
  running :: "('k \<times> bytes) list"
  dead :: "bytes list"

definition unreadable :: "codec \<Rightarrow> bytes \<Rightarrow> bool" where
  "unreadable c b = (case from_slice c b of Inl _ \<Rightarrow> True | Inr _ \<Rightarrow> False)"

definition lane_publish :: "bytes \<Rightarrow> 'k lane \<Rightarrow> 'k lane" where
  "lane_publish b L = L\<lparr>waiting := waiting L @ [b]\<rparr>"

text \<open>The unreadable messages ahead of the first readable one move to failed.\<close>

definition lane_skip :: "codec \<Rightarrow> 'k lane \<Rightarrow> 'k lane" where
  "lane_skip c L =
     L\<lparr>waiting := dropWhile (unreadable c) (waiting L),
       dead := dead L @ takeWhile (unreadable c) (waiting L)\<rparr>"

text \<open>The oldest waiting message becomes the youngest running one, under receipt \<open>k\<close>.\<close>

definition lane_take :: "'k \<Rightarrow> 'k lane \<Rightarrow> 'k lane" where
  "lane_take k L =
     (case waiting L of [] \<Rightarrow> L
      | b # bs \<Rightarrow> L\<lparr>waiting := bs, running := running L @ [(k, b)]\<rparr>)"

definition receipts :: "'k lane \<Rightarrow> 'k set" where
  "receipts L = fst ` set (running L)"

text \<open>Remove the youngest entry with receipt \<open>k\<close>.\<close>

fun drop_first :: "'k \<Rightarrow> ('k \<times> 'b) list \<Rightarrow> ('k \<times> 'b) list" where
  "drop_first k [] = []"
| "drop_first k (x # xs) = (if fst x = k then xs else x # drop_first k xs)"

definition drop_last :: "'k \<Rightarrow> ('k \<times> 'b) list \<Rightarrow> ('k \<times> 'b) list" where
  "drop_last k xs = rev (drop_first k (rev xs))"

definition lane_drop :: "'k \<Rightarrow> 'k lane \<Rightarrow> 'k lane" where
  "lane_drop k L = L\<lparr>running := drop_last k (running L)\<rparr>"

definition lane_put :: "stage \<Rightarrow> bytes \<Rightarrow> 'k lane \<Rightarrow> 'k lane" where
  "lane_put s b L =
     (case s of Pending \<Rightarrow> L\<lparr>waiting := waiting L @ [b]\<rparr>
      | InProgress \<Rightarrow> L
      | FailedStage \<Rightarrow> L\<lparr>dead := dead L @ [b]\<rparr>)"

definition lane_recover :: "'k lane \<Rightarrow> 'k lane" where
  "lane_recover L = L\<lparr>waiting := map snd (running L) @ waiting L, running := []\<rparr>"

definition lane_republish :: "nat \<Rightarrow> 'k lane \<Rightarrow> 'k lane" where
  "lane_republish n L = L\<lparr>waiting := waiting L @ take n (dead L), dead := drop n (dead L)\<rparr>"

definition lane_clear :: "stage \<Rightarrow> 'k lane \<Rightarrow> 'k lane" where
  "lane_clear s L =
     (case s of Pending \<Rightarrow> L\<lparr>waiting := []\<rparr> | InProgress \<Rightarrow> L\<lparr>running := []\<rparr>
      | FailedStage \<Rightarrow> L\<lparr>dead := []\<rparr>)"

definition lane_stage :: "stage \<Rightarrow> 'k lane \<Rightarrow> bytes list" where
  "lane_stage s L =
     (case s of Pending \<Rightarrow> waiting L | InProgress \<Rightarrow> map snd (running L) | FailedStage \<Rightarrow> dead L)"

definition lane_lengths :: "'k lane \<Rightarrow> queue_lengths" where
  "lane_lengths L =
     \<lparr>len_pending = length (waiting L), len_in_progress = length (running L),
      len_failed = length (dead L)\<rparr>"

text \<open>The elements at positions \<open>lo\<close> to \<open>hi\<close>.\<close>

definition range_of :: "nat \<Rightarrow> nat \<Rightarrow> 'a list \<Rightarrow> 'a list" where
  "range_of lo hi xs = take (Suc hi - lo) (drop lo xs)"

text \<open>All stored messages of a lane, as a multiset would count them.\<close>

definition lane_bytes :: "'k lane \<Rightarrow> bytes list" where
  "lane_bytes L = map snd (running L) @ waiting L @ dead L"

lemmas lane_defs = lane_publish_def lane_skip_def lane_take_def lane_drop_def lane_put_def
  lane_recover_def lane_republish_def lane_clear_def lane_stage_def lane_lengths_def

lemma drop_first_absent [simp]: "k \<notin> fst ` set xs \<Longrightarrow> drop_first k xs = xs"
  by (induction xs) auto

lemma drop_last_absent [simp]: "k \<notin> fst ` set xs \<Longrightarrow> drop_last k xs = xs"
  by (simp add: drop_last_def)

lemma drop_last_snoc [simp]: "drop_last k (xs @ [(k, b)]) = xs"
  by (simp add: drop_last_def)

lemma drop_first_distinct:
  "distinct (map fst xs) \<Longrightarrow> drop_first k xs = filter (\<lambda>x. fst x \<noteq> k) xs"
  by (induction xs) (auto simp: filter_id_conv)

lemma drop_last_distinct:
  assumes "distinct (map fst xs)"
  shows "drop_last k xs = filter (\<lambda>x. fst x \<noteq> k) xs"
proof -
  have "distinct (map fst (rev xs))" using assms by (simp add: rev_map [symmetric])
  then show ?thesis by (simp add: drop_last_def drop_first_distinct rev_filter)
qed

lemma length_drop_first: "k \<in> fst ` set xs \<Longrightarrow> length (drop_first k xs) = length xs - 1"
proof (induction xs)
  case (Cons x xs)
  then have "length (drop_first k xs) = length xs - 1" "xs \<noteq> []" if "fst x \<noteq> k"
    using that by auto
  then show ?case by (cases xs) auto
qed simp

lemma length_drop_last: "k \<in> fst ` set xs \<Longrightarrow> length (drop_last k xs) = length xs - 1"
  by (simp add: drop_last_def length_drop_first)

lemma lane_drop_absent [simp]: "k \<notin> receipts L \<Longrightarrow> lane_drop k L = L"
  by (simp add: lane_drop_def receipts_def)

lemma receipts_take: "waiting L \<noteq> [] \<Longrightarrow> receipts (lane_take k L) = insert k (receipts L)"
  by (auto simp: lane_take_def receipts_def split: list.splits)

lemma lane_drop_take: "waiting L = b # bs \<Longrightarrow> lane_drop k (lane_take k L) = L\<lparr>waiting := bs\<rparr>"
  by (simp add: lane_take_def lane_drop_def)

lemma lane_skip_Cons:
  "waiting L = b # bs \<Longrightarrow> unreadable c b \<Longrightarrow>
     lane_skip c (lane_put FailedStage b (lane_drop k (lane_take k L))) = lane_skip c L"
  by (simp add: lane_skip_def lane_put_def lane_drop_take)

lemma lane_skip_readable: "waiting L = b # bs \<Longrightarrow> \<not> unreadable c b \<Longrightarrow> lane_skip c L = L"
  by (simp add: lane_skip_def)

lemma lane_skip_Nil: "waiting L = [] \<Longrightarrow> lane_skip c L = L"
  by (simp add: lane_skip_def)

lemma recover_take:
  "running L = [] \<Longrightarrow> waiting L = b # bs \<Longrightarrow> lane_recover (lane_take k L) = L"
  by (simp add: lane_take_def lane_recover_def)

lemma new_delivery_receipt: "delivery_receipt (new_delivery env l r) = r"
  by (simp add: new_delivery_def)

section \<open>The contract of a driver\<close>

locale lane_driver =
  fixes c :: codec
    and enc :: "command_envelope \<Rightarrow> dyn_error + bytes"
    and lane_id :: queue_lane
    and receipt_of :: "'k \<Rightarrow> receipt"
    and good_receipt :: "'k \<Rightarrow> bool"
    and inv :: "'s \<Rightarrow> bool"
    and view :: "'s \<Rightarrow> 'k lane"
    and timely :: "'s \<Rightarrow> bool"
    and publish :: "command_envelope \<Rightarrow> 's \<Rightarrow> (queue_error + unit) \<times> 's"
    and claim :: "'s \<Rightarrow> ((queue_error + delivery option) \<times> 's) option"
    and acknowledge :: "'k \<Rightarrow> 's \<Rightarrow> (queue_error + bool) \<times> 's"
    and move_claimed :: "'k \<Rightarrow> command_envelope \<Rightarrow> stage \<Rightarrow> 's \<Rightarrow> (queue_error + bool) \<times> 's"
    and recover :: "'s \<Rightarrow> (queue_error + nat) \<times> 's"
  assumes publish_law: "inv s \<Longrightarrow> enc env = Inr b \<Longrightarrow>
      \<exists>s'. publish env s = (Inr (), s') \<and> inv s' \<and> view s' = lane_publish b (view s)"
    and claim_none: "inv s \<Longrightarrow> timely s \<Longrightarrow> waiting (lane_skip c (view s)) = [] \<Longrightarrow>
      \<exists>s'. claim s = Some (Inr None, s') \<and> inv s' \<and> view s' = lane_skip c (view s)"
    and claim_some: "inv s \<Longrightarrow> timely s \<Longrightarrow> waiting (lane_skip c (view s)) = b # bs \<Longrightarrow>
      from_slice c b = Inr env \<Longrightarrow>
      \<exists>k s'. claim s = Some (Inr (Some (new_delivery (count_attempt env) lane_id (receipt_of k))), s')
        \<and> good_receipt k \<and> inv s' \<and> view s' = lane_take k (lane_skip c (view s))"
    and acknowledge_law: "inv s \<Longrightarrow> good_receipt k \<Longrightarrow>
      \<exists>s'. acknowledge k s = (Inr (k \<in> receipts (view s)), s') \<and> inv s'
        \<and> view s' = lane_drop k (view s)"
    and move_law: "inv s \<Longrightarrow> good_receipt k \<Longrightarrow> enc env = Inr b \<Longrightarrow> t \<noteq> InProgress \<Longrightarrow>
      \<exists>s'. move_claimed k env t s = (Inr (k \<in> receipts (view s)), s') \<and> inv s'
        \<and> view s' = (if k \<in> receipts (view s) then lane_put t b (lane_drop k (view s)) else view s)"
    and recover_law: "inv s \<Longrightarrow> length (running (view s)) \<le> usize_max \<Longrightarrow>
      \<exists>s'. recover s = (Inr (length (running (view s))), s') \<and> inv s'
        \<and> view s' = lane_recover (view s)"
begin

lemma skip_readable:
  assumes "waiting (lane_skip c L) = b # bs"
  obtains env where "from_slice c b = Inr env"
proof -
  have "\<not> unreadable c b"
    using assms hd_dropWhile [of "unreadable c" "waiting L"] by (simp add: lane_skip_def)
  then show thesis using that by (cases "from_slice c b") (auto simp: unreadable_def)
qed

text \<open>A published message is the last of the waiting ones, so messages are claimed in order.\<close>

lemma publish_then_claim_order:
  assumes "inv s" "enc env = Inr b"
  shows "\<exists>s'. publish env s = (Inr (), s') \<and> inv s' \<and> waiting (view s') = waiting (view s) @ [b]"
  using publish_law [OF assms] by (auto simp: lane_publish_def)

text \<open>A claim followed by the acknowledgement of its delivery removes exactly that message.\<close>

lemma claim_acknowledge:
  assumes "inv s" "timely s" "waiting (lane_skip c (view s)) = b # bs"
  shows "\<exists>d k s1 s2. claim s = Some (Inr (Some d), s1) \<and> delivery_receipt d = receipt_of k
    \<and> acknowledge k s1 = (Inr True, s2) \<and> inv s2
    \<and> view s2 = (lane_skip c (view s))\<lparr>waiting := bs\<rparr>"
proof -
  obtain env where env: "from_slice c b = Inr env" using skip_readable [OF assms(3)] .
  obtain k s1 where s1: "claim s = Some (Inr (Some (new_delivery (count_attempt env) lane_id (receipt_of k))), s1)"
    "good_receipt k" "inv s1" "view s1 = lane_take k (lane_skip c (view s))"
    using claim_some [OF assms(1,2,3) env] by blast
  have k: "k \<in> receipts (view s1)" using s1(4) assms(3) by (simp add: receipts_take)
  obtain s2 where s2: "acknowledge k s1 = (Inr True, s2)" "inv s2" "view s2 = lane_drop k (view s1)"
    using acknowledge_law [OF s1(3,2)] k by auto
  have "view s2 = (lane_skip c (view s))\<lparr>waiting := bs\<rparr>"
    unfolding s2(3) s1(4) by (rule lane_drop_take [OF assms(3)])
  then show ?thesis using s1(1) s2(1,2) new_delivery_receipt by blast
qed

text \<open>A claim followed by a move puts the stored form of the envelope at the end of the target.\<close>

lemma claim_move:
  assumes "inv s" "timely s" "waiting (lane_skip c (view s)) = b # bs" "t \<noteq> InProgress"
    and "from_slice c b = Inr env" "enc env' = Inr b'"
  shows "\<exists>k s1 s2. claim s = Some (Inr (Some (new_delivery (count_attempt env) lane_id (receipt_of k))), s1)
    \<and> move_claimed k env' t s1 = (Inr True, s2) \<and> inv s2
    \<and> view s2 = lane_put t b' ((lane_skip c (view s))\<lparr>waiting := bs\<rparr>)"
proof -
  obtain k s1 where s1: "claim s = Some (Inr (Some (new_delivery (count_attempt env) lane_id (receipt_of k))), s1)"
    "good_receipt k" "inv s1" "view s1 = lane_take k (lane_skip c (view s))"
    using claim_some [OF assms(1,2,3,5)] by blast
  have k: "k \<in> receipts (view s1)" using s1(4) assms(3) by (simp add: receipts_take)
  obtain s2 where "move_claimed k env' t s1 = (Inr True, s2)" "inv s2"
    "view s2 = lane_put t b' (lane_drop k (view s1))"
    using move_law [OF s1(3,2) assms(6,4)] k by auto
  then show ?thesis using s1(1) unfolding s1(4) lane_drop_take [OF assms(3)] by blast
qed

text \<open>A consumer that dies after its claim: the recovery returns the message to the head.\<close>

lemma claim_recover:
  assumes "inv s" "timely s" "running (view s) = []" "waiting (lane_skip c (view s)) = b # bs"
  shows "\<exists>d s1 s2. claim s = Some (Inr (Some d), s1) \<and> recover s1 = (Inr 1, s2) \<and> inv s2
    \<and> view s2 = lane_skip c (view s)"
proof -
  obtain env where env: "from_slice c b = Inr env" using skip_readable [OF assms(4)] .
  obtain k s1 where s1: "claim s = Some (Inr (Some (new_delivery (count_attempt env) lane_id (receipt_of k))), s1)"
    "inv s1" "view s1 = lane_take k (lane_skip c (view s))"
    using claim_some [OF assms(1,2,4) env] by blast
  have idle: "running (lane_skip c (view s)) = []" using assms(3) by (simp add: lane_skip_def)
  have "length (running (view s1)) = 1"
    unfolding s1(3) using idle assms(4) by (simp add: lane_take_def)
  then obtain s2 where "recover s1 = (Inr 1, s2)" "inv s2" "view s2 = lane_recover (view s1)"
    using recover_law [OF s1(2)] by (auto simp: usize_max_def)
  then show ?thesis using s1(1) unfolding s1(3) recover_take [OF idle assms(4)] by blast
qed

text \<open>Operations on a receipt that is not in progress change nothing and say so.\<close>

lemma settle_lost:
  assumes "inv s" "good_receipt k" "k \<notin> receipts (view s)" "enc env = Inr b" "t \<noteq> InProgress"
  shows "\<exists>s'. acknowledge k s = (Inr False, s') \<and> inv s' \<and> view s' = view s"
    and "\<exists>s'. move_claimed k env t s = (Inr False, s') \<and> inv s' \<and> view s' = view s"
  using acknowledge_law [OF assms(1,2)] move_law [OF assms(1,2,4,5)] assms(3) by auto

end

section \<open>The administrative operations\<close>

text \<open>
  A driver that also counts, peeks, republishes and clears. A position of a peek is meaningful up
  to \<open>isize::MAX\<close>, which no stage reaches.
\<close>

definition isize_max :: nat where
  "isize_max = 9223372036854775807"

locale lane_store = lane_driver c enc lane_id receipt_of good_receipt inv view timely publish claim
    acknowledge move_claimed recover
  for c :: codec
    and enc :: "command_envelope \<Rightarrow> dyn_error + bytes"
    and lane_id :: queue_lane
    and receipt_of :: "'k \<Rightarrow> receipt"
    and good_receipt :: "'k \<Rightarrow> bool"
    and inv :: "'s \<Rightarrow> bool"
    and view :: "'s \<Rightarrow> 'k lane"
    and timely :: "'s \<Rightarrow> bool"
    and publish :: "command_envelope \<Rightarrow> 's \<Rightarrow> (queue_error + unit) \<times> 's"
    and claim :: "'s \<Rightarrow> ((queue_error + delivery option) \<times> 's) option"
    and acknowledge :: "'k \<Rightarrow> 's \<Rightarrow> (queue_error + bool) \<times> 's"
    and move_claimed :: "'k \<Rightarrow> command_envelope \<Rightarrow> stage \<Rightarrow> 's \<Rightarrow> (queue_error + bool) \<times> 's"
    and recover :: "'s \<Rightarrow> (queue_error + nat) \<times> 's" +
  fixes lengths :: "'s \<Rightarrow> (queue_error + queue_lengths) \<times> 's"
    and peek :: "stage \<Rightarrow> nat \<Rightarrow> nat \<Rightarrow> 's \<Rightarrow> (queue_error + peeked_message list) \<times> 's"
    and republish :: "nat \<Rightarrow> 's \<Rightarrow> (queue_error + nat) \<times> 's"
    and clear :: "stage \<Rightarrow> 's \<Rightarrow> (queue_error + nat) \<times> 's"
  assumes lengths_law: "inv s \<Longrightarrow>
      \<exists>s'. lengths s = (Inr (lane_lengths (view s)), s') \<and> inv s' \<and> view s' = view s"
    and peek_law: "inv s \<Longrightarrow> lo \<le> hi \<Longrightarrow> length (lane_stage t (view s)) < isize_max \<Longrightarrow>
      \<exists>s'. peek t lo hi s = (Inr (map (parse_peeked c from_utf8_lossy)
          (range_of lo hi (lane_stage t (view s)))), s') \<and> inv s' \<and> view s' = view s"
    and republish_law: "inv s \<Longrightarrow>
      \<exists>s'. republish n s = (Inr (min n (length (dead (view s)))), s') \<and> inv s'
        \<and> view s' = lane_republish n (view s)"
    and clear_law: "inv s \<Longrightarrow>
      \<exists>s'. clear t s = (Inr (length (lane_stage t (view s))), s') \<and> inv s'
        \<and> view s' = lane_clear t (view s)"
begin

text \<open>A peek of one page reads what the lengths count.\<close>

lemma peek_all:
  assumes "inv s" "length (lane_stage t (view s)) < isize_max" "lane_stage t (view s) \<noteq> []"
  shows "\<exists>s'. peek t 0 (length (lane_stage t (view s)) - 1) s =
      (Inr (map (parse_peeked c from_utf8_lossy) (lane_stage t (view s))), s')
    \<and> inv s' \<and> view s' = view s"
  using peek_law [OF assms(1) _ assms(2), of 0 "length (lane_stage t (view s)) - 1"] assms(3)
  by (simp add: range_of_def)

text \<open>Republishing all failed messages leaves none, and a clear counts what it removes.\<close>

lemma republish_clear:
  assumes "inv s" "length (dead (view s)) \<le> n"
  shows "\<exists>s1 s2. republish n s = (Inr (length (dead (view s))), s1)
    \<and> clear FailedStage s1 = (Inr 0, s2) \<and> inv s2
    \<and> view s2 = (view s)\<lparr>waiting := waiting (view s) @ dead (view s), dead := []\<rparr>"
proof -
  obtain s1 where s1: "republish n s = (Inr (length (dead (view s))), s1)" "inv s1"
    "view s1 = lane_republish n (view s)"
    using republish_law [OF assms(1), of n] assms(2) by (auto simp: min_absorb2)
  have v: "view s1 = (view s)\<lparr>waiting := waiting (view s) @ dead (view s), dead := []\<rparr>"
    using s1(3) assms(2) by (simp add: lane_republish_def)
  then obtain s2 where "clear FailedStage s1 = (Inr 0, s2)" "inv s2"
    "view s2 = lane_clear FailedStage (view s1)"
    using clear_law [OF s1(2), of FailedStage] by (auto simp: lane_stage_def)
  then show ?thesis using s1(1) v by (auto simp: lane_clear_def)
qed

end

end
