(* ===== verification/FileLane.thy ===== *)
theory FileLane
  imports FileView FileRuns LaneSpec
begin

text \<open>
  The file driver implements a lane: with nothing interfering, every operation of the file store
  keeps \<open>file_inv\<close> and acts on the abstract lane as \<open>lane_driver\<close> promises.
\<close>

section \<open>The lane of the three directories\<close>

definition lane_of :: "(stage \<Rightarrow> string \<rightharpoonup> node) \<Rightarrow> string lane" where
  "lane_of V = \<lparr>waiting = map snd (view_of (V Pending)), running = view_of (V InProgress),
                dead = map snd (view_of (V FailedStage))\<rparr>"

definition file_view :: "file_store \<Rightarrow> world \<Rightarrow> string lane" where
  "file_view st w = lane_of (stage_vis st w)"

definition claimed_first :: "(stage \<Rightarrow> string \<rightharpoonup> node) \<Rightarrow> bool" where
  "claimed_first V = (\<forall>n \<in> files_of (V InProgress). \<forall>m \<in> files_of (V Pending). n < m)"

lemma file_inv_iff: "file_inv st w \<longleftrightarrow> file_base st w \<and> claimed_first (stage_vis st w)"
  by (simp add: file_inv_def claimed_first_def msgs_vis stage_vis_def stage_dir_simps)

lemma file_receipts: "receipts (file_view st w) = files_of (stage_vis st w InProgress)"
  by (simp add: receipts_def file_view_def lane_of_def view_of_keys)

text \<open>A listing of a stage yields its view.\<close>

lemma list_stage:
  assumes "file_base st w"
  shows "list_messages (stage_dir st s) w = (Inr (map fst (stage_view st s w)), w)"
  using list_messages_quiet [OF base_quiet [OF assms] base_fs_ok [OF assms] base_dir [OF assms, of s]]
  by (simp add: stage_view_of map_fst_view_of msgs_vis stage_vis_def)

text \<open>A new name is greater than every name of the lane.\<close>

lemma view_of_new:
  assumes "file_base st w"
  shows "view_of ((stage_vis st w s)(next_name w \<mapsto> RegFile b t)) =
    view_of (stage_vis st w s) @ [(next_name w, b)]"
  using base_vis(4) [OF assms] by (intro view_of_add) (auto simp: base_files [OF assms])

lemma map_snd_view_of_new:
  assumes "file_base st w"
  shows "map snd (view_of ((stage_vis st w s)(next_name w \<mapsto> RegFile b t))) =
    map snd (view_of (stage_vis st w s)) @ [b]"
  by (simp add: view_of_new [OF assms])

lemma stage_vis_bump: "stage_vis st (bump w) = stage_vis st w"
  by (rule ext) simp

section \<open>Publishing\<close>

lemma serialize_Inr: "to_vec_pretty c env = Inr b \<Longrightarrow> serialize c env w = (Inr b, w)"
  by (simp add: serialize_def)

lemma publish_quiet:
  assumes inv: "file_inv st w" and enc: "to_vec_pretty c env = Inr b"
  shows "\<exists>w'. store_publish c st env w = (Inr (), w') \<and> file_inv st w'
    \<and> file_view st w' = lane_publish b (file_view st w)"
proof -
  have base: "file_base st w" using inv by (simp add: file_inv_iff)
  obtain w' where w': "write_atomic (stage_dir st Pending) (next_name w) b (bump w) = (Inr (), w')"
    "file_base st w'"
    "stage_vis st w' = (stage_vis st w)
       (Pending := (stage_vis st w Pending)(next_name w \<mapsto> RegFile b (clock w)))"
    by (rule base_write [OF base refl])
  have "store_publish c st env w = (Inr (), w')"
    using w'(1) by (simp add: store_publish_def bindE_def serialize_Inr [OF enc] map_errE_def
      stage_dir_simps)
  moreover have "claimed_first (stage_vis st w')"
    using inv base_vis(4) [OF base]
    unfolding file_inv_iff claimed_first_def w'(3) by (auto simp: files_of_upd base_files [OF base])
  moreover have "file_view st w' = lane_publish b (file_view st w)"
    unfolding file_view_def lane_of_def w'(3)
    by (simp add: map_snd_view_of_new [OF base] lane_publish_def)
  ultimately show ?thesis using w'(2) by (auto simp: file_inv_iff)
qed

section \<open>Settling\<close>

lemma view_of_in:
  assumes "file_base st w" "k \<in> files_of (stage_vis st w s)"
  obtains b t where "stage_vis st w s k = Some (RegFile b t)"
  using assms(2) by (auto simp: files_of_def)

lemma lane_of_drop:
  "finite (files_of (V InProgress)) \<Longrightarrow>
     lane_of (V(InProgress := (V InProgress)(k := None))) = lane_drop k (lane_of V)"
  by (simp add: lane_of_def lane_drop_def view_of_del drop_last_distinct view_of_distinct)

lemma claimed_first_drop:
  "claimed_first V \<Longrightarrow> claimed_first (V(InProgress := (V InProgress)(k := None)))"
  by (simp add: claimed_first_def files_of_del)

lemma acknowledge_quiet:
  assumes inv: "file_inv st w" and k: "\<not> is_hidden k"
  shows "\<exists>w'. store_acknowledge st k w = (Inr (k \<in> receipts (file_view st w)), w') \<and> file_inv st w'
    \<and> file_view st w' = lane_drop k (file_view st w)"
proof (cases "k \<in> files_of (stage_vis st w InProgress)")
  case True
  have base: "file_base st w" using inv by (simp add: file_inv_iff)
  obtain x where x: "stage_vis st w InProgress k = Some x"
    using True by (auto simp: files_of_def)
  obtain w' where w': "remove_if_present (stage_dir st InProgress) k w = (Inr True, w')"
    "file_base st w'" "stage_vis st w' =
       (stage_vis st w)(InProgress := (stage_vis st w InProgress)(k := None))"
    by (rule base_remove [OF base x])
  have "store_acknowledge st k w = (Inr True, w')"
    using w'(1) by (simp add: store_acknowledge_def map_errE_def stage_dir_simps)
  moreover have "file_inv st w'"
    using inv w' claimed_first_drop by (simp add: file_inv_iff)
  moreover have "file_view st w' = lane_drop k (file_view st w)"
    unfolding file_view_def w'(3) by (rule lane_of_drop) simp
  ultimately show ?thesis using True by (simp add: file_receipts)
next
  case False
  have base: "file_base st w" using inv by (simp add: file_inv_iff)
  have "stage_vis st w InProgress k = None" using False by (simp add: base_files [OF base])
  then have "store_acknowledge st k w = (Inr False, w)"
    using base_missing(2) [OF base _ k]
    by (simp add: store_acknowledge_def map_errE_def stage_dir_simps)
  then show ?thesis using False inv by (simp add: file_receipts)
qed

lemma lane_of_put:
  assumes "t \<noteq> InProgress"
    "view_of ((V t)(n \<mapsto> RegFile b x)) = view_of (V t) @ [(n, b)]"
  shows "lane_of (V(InProgress := v, t := (V t)(n \<mapsto> RegFile b x))) =
    lane_put t b (lane_of (V(InProgress := v)))"
  using assms by (cases t) (simp_all add: lane_of_def lane_put_def)

lemma move_quiet:
  assumes inv: "file_inv st w" and k: "\<not> is_hidden k"
    and enc: "to_vec_pretty c env = Inr b" and t: "t \<noteq> InProgress"
  shows "\<exists>w'. store_move_claimed c st k env t w = (Inr (k \<in> receipts (file_view st w)), w')
    \<and> file_inv st w' \<and> file_view st w' =
      (if k \<in> receipts (file_view st w) then lane_put t b (lane_drop k (file_view st w))
       else file_view st w)"
proof (cases "k \<in> files_of (stage_vis st w InProgress)")
  case False
  have base: "file_base st w" using inv by (simp add: file_inv_iff)
  have "stage_vis st w InProgress k = None" using False by (simp add: base_files [OF base])
  then have r: "rename_if_present (in_progress_dir st) k (in_progress_dir st) (settling_name k) w
      = (Inr False, w)"
    using base_missing(1) [OF base _ k] by (simp add: stage_dir_simps)
  have "node_at (dirs w) (in_progress_dir st) (settling_name k) = None"
    using base_stage [OF base, of InProgress] by (simp add: stage_ok_def stage_dir_simps)
  then have "path_exists (in_progress_dir st) (settling_name k) w = (False, w)"
    using base_quiet [OF base] by (simp add: path_exists_def syscall_quiet call_defs)
  then have "store_move_claimed c st k env t w = (Inr False, w)"
    by (simp add: store_move_claimed_def Let_def bindE_def map_errE_def r retE_def)
  then show ?thesis using False inv by (simp add: file_receipts)
next
  case True
  have base: "file_base st w" using inv by (simp add: file_inv_iff)
  obtain x y where x: "stage_vis st w InProgress k = Some (RegFile x y)"
    using view_of_in [OF base True] .
  let ?ip = "stage_dir st InProgress" and ?tp = "stage_dir st t" and ?n = "next_name w"
  let ?d1 = "put_node ?ip (settling_name k) (RegFile x y) (drop_node ?ip k (dirs w))"
  let ?w1 = "w\<lparr>dirs := ?d1\<rparr>"
  have q: "script w = []" by (rule base_quiet [OF base])
  have ne: "?tp \<noteq> ?ip" using t stage_dir_inject [OF base] by simp
  have nh: "\<not> is_hidden ?n" using next_name_props(2) [OF base] .
  have r: "rename_if_present ?ip k ?ip (settling_name k) w = (Inr True, ?w1)"
    using base_stage [OF base, of InProgress]
    by (intro rename_if_present_quiet [OF q base_vis(1) [OF base x] base_dir [OF base]])
      (simp add: stage_ok_def)
  have "script (bump ?w1) = []" "dirs (bump ?w1) ?tp \<noteq> None" "fs_ok (dirs (bump ?w1))"
    "node_at (dirs (bump ?w1)) ?tp (hidden_name ?n TEMP_SUFFIX) = None"
    using q base_dir [OF base, of t] base_fs_ok [OF base] base_stage [OF base, of t] ne
    by (simp_all add: stage_ok_def next_name_def)
  moreover have "is_file z" if "node_at (dirs (bump ?w1)) ?tp ?n = Some z" for z
    using that ne base_node(1) [OF base _ nh, of t] by simp
  ultimately obtain d2 where d2: "write_atomic ?tp ?n b (bump ?w1) = (Inr (), (bump ?w1)\<lparr>dirs := d2\<rparr>)"
    "fs_ok d2" "\<And>q. d2 q = None \<longleftrightarrow> dirs (bump ?w1) q = None"
    "\<And>q m. node_at d2 q m = (if q = ?tp \<and> m = ?n then Some (RegFile b (clock (bump ?w1)))
       else node_at (dirs (bump ?w1)) q m)"
    using write_atomic_quiet [of "bump ?w1" ?tp ?n b] nh by blast
  define d3 where "d3 = drop_node ?ip (settling_name k) d2"
  let ?w3 = "(bump w)\<lparr>dirs := d3\<rparr>"
  have w2: "(bump ?w1)\<lparr>dirs := d\<rparr> = (bump w)\<lparr>dirs := d\<rparr>" for d by (simp add: bump_def)
  have rm: "fs_remove_file ?ip (settling_name k) ((bump w)\<lparr>dirs := d2\<rparr>) = (Inr (), ?w3)"
    using q ne d2(4) [of ?ip "settling_name k"] base_dir [OF base, of InProgress]
    by (subst fs_remove_quiet [of _ _ _ x y]) (simp_all add: d3_def)
  have nn: "next_name ?w1 = ?n" by (simp add: next_name_def)
  have run: "store_move_claimed c st k env t w = (Inr True, ?w3)"
    using r d2(1) rm
    by (simp add: store_move_claimed_def store_write_moved_def store_finish_move_def Let_def
      bindE_def catchE_def map_errE_def serialize_Inr [OF enc] retE_def stage_dir_simps(2) nn w2)
  have node3: "node_at d3 q m = (if q = ?tp \<and> m = ?n then Some (RegFile b (clock w))
      else if q = ?ip \<and> m = k then None else node_at (dirs w) q m)" for q m
    using d2(4) [of q m] ne base_stage [OF base, of InProgress] base_dir [OF base, of InProgress] k
    by (auto simp: stage_ok_def d3_def)
  have d3: "fs_ok d3" "d3 q = None \<longleftrightarrow> dirs w q = None" for q
    using d2(2,3) by (simp_all add: d3_def)
  have base3: "file_base st ?w3"
    using base_bump [OF base] d3 nh
    by (intro base_change) (auto simp: node3 split: if_splits)
  have vis3: "stage_vis st ?w3 = (stage_vis st w)(InProgress := (stage_vis st w InProgress)(k := None),
      t := (stage_vis st w t)(?n \<mapsto> RegFile b (clock w)))"
    using t nh k stage_dir_inject [OF base]
    by (auto simp: stage_vis_def vis_def node3 fun_eq_iff)
  have first3: "claimed_first (stage_vis st ?w3)"
    using inv t base_vis(4) [OF base]
    unfolding file_inv_iff claimed_first_def vis3
    by (cases t) (auto simp: files_of_upd files_of_del base_files [OF base])
  have "file_view st ?w3 = lane_put t b (lane_drop k (file_view st w))"
    unfolding file_view_def vis3
    using lane_of_put [OF t, of "stage_vis st w" ?n b "clock w"] view_of_new [OF base, of t b]
      lane_of_drop [of "stage_vis st w" k]
    by simp
  then show ?thesis using run base3 first3 True by (simp add: file_receipts file_inv_iff)
qed

section \<open>Claiming\<close>

text \<open>A claim of the head of the pending stage, which \<open>claim_first\<close> renames before it reads it.\<close>

lemma claim_head:
  assumes inv: "file_inv st w" and v: "view_of (stage_vis st w Pending) = (n, b) # xs"
  obtains w' where "rename_if_present (stage_dir st Pending) n (stage_dir st InProgress) n w = (Inr True, w')"
    and "file_inv st w'" "fs_read (stage_dir st InProgress) n w' = (Inr b, w')" "\<not> is_hidden n"
    and "view_of (stage_vis st w' Pending) = xs"
    and "file_view st w' = lane_take n (file_view st w)"
    and "\<exists>t. stage_vis st w' = (stage_vis st w)(Pending := (stage_vis st w Pending)(n := None),
           InProgress := (stage_vis st w InProgress)(n \<mapsto> RegFile b t))"
proof -
  have base: "file_base st w" and first: "claimed_first (stage_vis st w)"
    using inv by (simp_all add: file_inv_iff)
  obtain t where x: "stage_vis st w Pending n = Some (RegFile b t)"
    using view_of_head(1) [OF finite_stage_vis v] by blast
  have rest: "view_of ((stage_vis st w Pending)(n := None)) = xs"
    and least: "\<And>m. m \<in> files_of (stage_vis st w Pending) \<Longrightarrow> m \<noteq> n \<Longrightarrow> n < m"
    using view_of_head(2,3) [OF finite_stage_vis v] by blast+
  obtain w' where w': "rename_if_present (stage_dir st Pending) n (stage_dir st InProgress) n w = (Inr True, w')"
    "file_base st w'" "stage_vis st w' = (stage_vis st w)
       (Pending := (stage_vis st w Pending)(n := None),
        InProgress := (stage_vis st w InProgress)(n \<mapsto> RegFile b t))"
    by (rule base_move [OF base x, of InProgress n]) (use base_vis [OF base x] in auto)
  have n: "\<not> is_hidden n" by (rule base_vis(2) [OF base x])
  have in_p: "n \<in> files_of (stage_vis st w Pending)" using x by (auto simp: files_of_def)
  have "claimed_first (stage_vis st w')"
    using first least in_p unfolding claimed_first_def w'(3)
    by (auto simp: files_of_upd files_of_del)
  then have inv': "file_inv st w'" using w'(2) by (simp add: file_inv_iff)
  have "stage_vis st w' InProgress n = Some (RegFile b t)" by (simp add: w'(3))
  then have read: "fs_read (stage_dir st InProgress) n w' = (Inr b, w')"
    by (rule fs_read_quiet [OF base_quiet [OF w'(2)] base_vis(1) [OF w'(2)]])
  have "view_of ((stage_vis st w InProgress)(n \<mapsto> RegFile b t)) =
      view_of (stage_vis st w InProgress) @ [(n, b)]"
    using first in_p by (intro view_of_add) (auto simp: claimed_first_def)
  then have view: "file_view st w' = lane_take n (file_view st w)"
    using v rest by (simp add: file_view_def lane_of_def w'(3) lane_take_def)
  show thesis
    by (rule that [OF w'(1) inv' read n _ view exI [of _ t]]) (simp_all add: w'(3) rest)
qed

text \<open>An unreadable message leaves for the failed stage under a new name.\<close>

lemma unreadable_quiet:
  assumes inv: "file_inv st w" and x: "stage_vis st w InProgress n = Some (RegFile b t)"
  obtains w' where "move_unreadable_to_failed st n w = (Inr (), w')" "file_inv st w'"
    and "stage_vis st w' Pending = stage_vis st w Pending"
    and "file_view st w' = lane_put FailedStage b (lane_drop n (file_view st w))"
proof -
  have base: "file_base st w" and first: "claimed_first (stage_vis st w)"
    using inv by (simp_all add: file_inv_iff)
  have base': "file_base st (bump w)" by (rule base_bump(1) [OF base])
  have x': "stage_vis st (bump w) InProgress n = Some (RegFile b t)" using x by simp
  obtain w' where w': "rename_if_present (stage_dir st InProgress) n (stage_dir st FailedStage)
       (next_name w) (bump w) = (Inr True, w')"
    "file_base st w'" "stage_vis st w' = (stage_vis st w)
       (InProgress := (stage_vis st w InProgress)(n := None),
        FailedStage := (stage_vis st w FailedStage)(next_name w \<mapsto> RegFile b t))"
    by (rule base_move [OF base' x', of FailedStage "next_name w"])
      (use next_name_props(2) [OF base] base_bump(2) [OF base] in \<open>auto simp: stage_vis_bump\<close>)
  have "claimed_first (stage_vis st w')"
    using first unfolding claimed_first_def w'(3) by (auto simp: files_of_del)
  then have inv': "file_inv st w'" using w'(2) by (simp add: file_inv_iff)
  have run: "move_unreadable_to_failed st n w = (Inr (), w')"
    using w'(1) by (simp add: move_unreadable_to_failed_def catchE_def retE_def stage_dir_simps)
  have view: "file_view st w' = lane_put FailedStage b (lane_drop n (file_view st w))"
    unfolding file_view_def w'(3)
    using lane_of_put [of FailedStage "stage_vis st w" "next_name w" b t]
      view_of_new [OF base, of FailedStage b t] lane_of_drop [of "stage_vis st w" n]
    by simp
  show thesis by (rule that [OF run inv' _ view]) (simp add: w'(3))
qed

text \<open>
  What \<open>claim_first\<close> does on the sorted listing of the pending stage; \<open>S\<close> is the lane after the
  unreadable messages moved away.
\<close>

definition claims_as ::
  "codec \<Rightarrow> file_store \<Rightarrow> string lane \<Rightarrow> (queue_error + delivery option) \<times> world \<Rightarrow> bool" where
  "claims_as c st S res =
     (file_inv st (snd res) \<and>
      (case waiting S of
         [] \<Rightarrow> fst res = Inr None \<and> file_view st (snd res) = S
       | b # bs \<Rightarrow>
           (\<exists>k env. from_slice c b = Inr env \<and> \<not> is_hidden k
              \<and> fst res = Inr (Some (new_delivery (count_attempt env) (store_lane st) (FileReceipt k)))
              \<and> file_view st (snd res) = lane_take k S)))"

lemma waiting_file_view: "waiting (file_view st w) = map snd (view_of (stage_vis st w Pending))"
  by (simp add: file_view_def lane_of_def)

lemma claim_first_quiet:
  assumes "file_inv st w" "view_of (stage_vis st w Pending) = xs"
  shows "claims_as c st (lane_skip c (file_view st w)) (claim_first c st (map fst xs) w)"
  using assms
proof (induction xs arbitrary: w)
  case Nil
  then show ?case
    by (simp add: claims_as_def retE_def lane_skip_def waiting_file_view)
next
  case (Cons x xs)
  obtain n b where x: "x = (n, b)" by (cases x)
  have inv: "file_inv st w" and v: "view_of (stage_vis st w Pending) = (n, b) # xs"
    using Cons.prems x by simp_all
  obtain w1 t where w1: "rename_if_present (stage_dir st Pending) n (stage_dir st InProgress) n w = (Inr True, w1)"
    "file_inv st w1" "fs_read (stage_dir st InProgress) n w1 = (Inr b, w1)" "\<not> is_hidden n"
    "view_of (stage_vis st w1 Pending) = xs" "file_view st w1 = lane_take n (file_view st w)"
    "stage_vis st w1 = (stage_vis st w)(Pending := (stage_vis st w Pending)(n := None),
       InProgress := (stage_vis st w InProgress)(n \<mapsto> RegFile b t))"
    by (rule claim_head [OF inv v]) blast
  have head: "waiting (file_view st w) = b # map snd xs" by (simp add: waiting_file_view v)
  note run = w1(1,3) stage_dir_simps bindE_def catchE_def map_errE_def retE_def
  show ?case
  proof (cases "from_slice c b")
    case (Inr env)
    then have "\<not> unreadable c b" by (simp add: unreadable_def)
    note skip = lane_skip_readable [OF head this]
    show ?thesis
      using Inr w1 head by (auto simp: x run claims_as_def skip)
  next
    case (Inl e)
    have "stage_vis st w1 InProgress n = Some (RegFile b t)" by (simp add: w1(7))
    then obtain w2 where w2: "move_unreadable_to_failed st n w1 = (Inr (), w2)" "file_inv st w2"
      "stage_vis st w2 Pending = stage_vis st w1 Pending"
      "file_view st w2 = lane_put FailedStage b (lane_drop n (file_view st w1))"
      by (rule unreadable_quiet [OF w1(2)])
    have skip: "lane_skip c (file_view st w2) = lane_skip c (file_view st w)"
      using lane_skip_Cons [OF head] Inl unfolding w2(4) w1(6) by (simp add: unreadable_def)
    have "claims_as c st (lane_skip c (file_view st w2)) (claim_first c st (map fst xs) w2)"
      using Cons.IH [OF w2(2)] w1(5) w2(3) by simp
    then show ?thesis
      using Inl w2(1) by (simp add: x run claims_as_def skip)
  qed
qed

lemma claim_quiet:
  assumes "file_inv st w"
  shows "claims_as c st (lane_skip c (file_view st w)) (store_claim_oldest c st w)"
proof -
  have base: "file_base st w" using assms by (simp add: file_inv_iff)
  have "list_messages (pending_dir st) w = (Inr (map fst (view_of (stage_vis st w Pending))), w)"
    using list_stage [OF base, of Pending] by (simp add: stage_dir_simps stage_view_of)
  then show ?thesis
    using claim_first_quiet [OF assms refl] by (simp add: store_claim_oldest_def bindE_def map_errE_def)
qed

text \<open>The polling loop repeats the claim until its deadline, which it reaches.\<close>

lemma file_inv_sleep [simp]:
  "file_inv st (sleep d w) = file_inv st w" "file_view st (sleep d w) = file_view st w"
proof -
  have "stage_vis st (sleep d w) = stage_vis st w" by (simp add: fun_eq_iff stage_vis_def sleep_def)
  then show "file_view st (sleep d w) = file_view st w" by (simp add: file_view_def)
  show "file_inv st (sleep d w) = file_inv st w"
    by (simp add: file_inv_def file_base_def stage_ok_def next_name_def sleep_def)
qed

lemma claims_as_Cons_or_None:
  assumes "claims_as c st S (r, w')"
  shows "(\<exists>d. r = Inr (Some d)) \<or> r = Inr None \<and> waiting S = [] \<and> file_view st w' = S"
  using assms by (cases "waiting S") (auto simp: claims_as_def)

lemma dequeue_loop_quiet:
  assumes "file_inv st w"
  shows "\<exists>res. dequeue_loop c st (Some d) w = Some res
    \<and> claims_as c st (lane_skip c (file_view st w)) res"
  using assms
proof (induction "nat (d - clock w)" arbitrary: w rule: less_induct)
  case less
  obtain r w' where rw: "store_claim_oldest c st w = (r, w')" by fastforce
  let ?S = "lane_skip c (file_view st w)"
  have cl: "claims_as c st ?S (r, w')" using claim_quiet [OF less.prems, of c] rw by simp
  then have inv': "file_inv st w'" by (simp add: claims_as_def)
  show ?case
  proof (cases "\<exists>d. r = Inr (Some d)")
    case True
    then show ?thesis using cl rw by (auto simp: dequeue_loop.simps)
  next
    case False
    then have none: "r = Inr None" "waiting ?S = []" "file_view st w' = ?S"
      using claims_as_Cons_or_None [OF cl] by auto
    have again: "lane_skip c (file_view st w') = ?S"
      using none(2,3) lane_skip_Nil [of ?S c] by simp
    show ?thesis
    proof (cases "remaining_wait (Some d) (clock w') = 0")
      case True
      then show ?thesis using cl rw none(1) by (auto simp: dequeue_loop.simps)
    next
      case rest: False
      let ?w = "sleep (min (remaining_wait (Some d) (clock w')) POLL_INTERVAL) w'"
      have "clock w \<le> clock w'" using claim_clock [of w c st] rw by simp
      then have "nat (d - clock ?w) < nat (d - clock w)"
        using rest by (auto simp: sleep_def remaining_wait_def POLL_INTERVAL_def min_def)
      then obtain res where "dequeue_loop c st (Some d) ?w = Some res" "claims_as c st ?S res"
        using less.hyps [of ?w] inv' again by auto
      then show ?thesis using rest rw none(1) by (auto simp: dequeue_loop.simps [of _ _ _ w] Let_def)
    qed
  qed
qed

lemma dequeue_quiet:
  assumes "file_inv st w" "clock w + int wait \<le> instant_max"
  shows "\<exists>res. file_dequeue c st wait w = Some res
    \<and> claims_as c st (lane_skip c (file_view st w)) res"
  using dequeue_loop_quiet [OF assms(1)] assms(2) by (simp add: file_dequeue_def checked_deadline_def)

section \<open>Recovering\<close>

lemma view_of_sorted: "sorted_wrt (<) (map fst (view_of v))"
  by (simp add: map_fst_view_of)

lemma view_of_unique:
  assumes "finite (files_of v)" "sorted_wrt (<) (map fst ys)"
    and "\<And>n b. (n, b) \<in> set ys \<longleftrightarrow> (\<exists>t. v n = Some (RegFile b t))"
  shows "view_of v = ys"
proof -
  have "n \<in> fst ` set ys \<longleftrightarrow> n \<in> files_of v" for n
    using assms(3) [of n] unfolding files_of_def by auto (metis fst_conv image_eqI)
  then have "fst ` set ys = files_of v" by blast
  then have "sorted_list_of_set (files_of v) = map fst ys"
    using assms(1,2) by (intro sorted_distinct_set_unique)
      (auto simp: strict_sorted_iff)
  moreover have "(n, bytes_of (v n)) = (n, b)" if "(n, b) \<in> set ys" for n b
    using that assms(3) [of n b] by (auto simp: bytes_of_def)
  then have "map (\<lambda>n. (n, bytes_of (v n))) (map fst ys) = ys"
    unfolding map_map by (intro map_idI) auto
  ultimately show ?thesis by (simp add: view_of_def)
qed

lemma view_of_insert:
  assumes "finite (files_of v)" "view_of v = ds @ ps" "sorted_wrt (<) (map fst (ds @ (n, b) # ps))"
  shows "view_of (v(n \<mapsto> RegFile b t)) = ds @ (n, b) # ps"
proof (rule view_of_unique)
  show "(m, b') \<in> set (ds @ (n, b) # ps) \<longleftrightarrow> (\<exists>t'. (v(n \<mapsto> RegFile b t)) m = Some (RegFile b' t'))"
    for m b'
  proof (cases "m = n")
    case True
    have "(n, b') \<notin> set ds" "(n, b') \<notin> set ps" using assms(3) by (auto simp: sorted_wrt_append)
    then show ?thesis using True by auto
  next
    case False
    then show ?thesis using view_of_mem [OF assms(1), of m b'] by (simp add: assms(2))
  qed
qed (use assms in \<open>simp_all add: files_of_upd\<close>)

text \<open>
  Recovery renames the claimed messages in their order; all of them sort before the pending ones,
  so they end up at the head. The induction moves the least claimed message \<open>n\<close> while the
  messages \<open>done\<close> already recovered are less than it.
\<close>

lemma recover_messages_quiet:
  assumes "file_base st w" "view_of (stage_vis st w InProgress) = xs"
    and "view_of (stage_vis st w Pending) = ds @ ps" "sorted_wrt (<) (map fst (ds @ xs @ ps))"
  shows "\<exists>w'. recover_messages st (map fst xs) moved w = (Inr (moved + length xs), w') \<and> file_base st w'
    \<and> view_of (stage_vis st w' InProgress) = [] \<and> view_of (stage_vis st w' Pending) = ds @ xs @ ps
    \<and> stage_vis st w' FailedStage = stage_vis st w FailedStage"
  using assms
proof (induction xs arbitrary: w ds moved)
  case Nil
  then show ?case by (simp add: retE_def)
next
  case (Cons y xs)
  obtain n b where y: "y = (n, b)" by (cases y)
  have v: "view_of (stage_vis st w InProgress) = (n, b) # xs" using Cons.prems(2) y by simp
  obtain t where x: "stage_vis st w InProgress n = Some (RegFile b t)"
    using view_of_head(1) [OF finite_stage_vis v] by blast
  obtain w' where w': "rename_if_present (stage_dir st InProgress) n (stage_dir st Pending) n w = (Inr True, w')"
    "file_base st w'" "stage_vis st w' = (stage_vis st w)
       (InProgress := (stage_vis st w InProgress)(n := None),
        Pending := (stage_vis st w Pending)(n \<mapsto> RegFile b t))"
    by (rule base_move [OF Cons.prems(1) x, of Pending n])
      (use base_vis [OF Cons.prems(1) x] in auto)
  have "view_of (stage_vis st w' InProgress) = xs"
    using view_of_head(2) [OF finite_stage_vis v] by (simp add: w'(3))
  moreover have "view_of (stage_vis st w' Pending) = (ds @ [(n, b)]) @ ps"
    using view_of_insert [of "stage_vis st w Pending" ds ps n b t] Cons.prems(3,4) y
    by (simp add: w'(3) sorted_wrt_append image_Un ball_Un)
  moreover have "sorted_wrt (<) (map fst ((ds @ [(n, b)]) @ xs @ ps))"
    using Cons.prems(4) y by simp
  ultimately obtain w'' where "recover_messages st (map fst xs) (Suc moved) w' =
      (Inr (Suc moved + length xs), w'')" "file_base st w''"
    "view_of (stage_vis st w'' InProgress) = []"
    "view_of (stage_vis st w'' Pending) = (ds @ [(n, b)]) @ xs @ ps"
    "stage_vis st w'' FailedStage = stage_vis st w' FailedStage"
    using Cons.IH [OF w'(2)] by blast
  then show ?case
    using w'(1) y by (simp add: bindE_def map_errE_def stage_dir_simps w'(3))
qed

lemma no_settles:
  assumes "file_base st w"
  shows "unfinished_settles (stage_dir st s) w = (Inr [], w)"
proof -
  have "settles (dirs w) (stage_dir st s) = {}"
    using base_stage [OF assms, of s] by (auto simp: settles_def stage_ok_def)
  then show ?thesis
    using unfinished_settles_quiet [OF base_quiet [OF assms] base_fs_ok [OF assms]
      base_dir [OF assms, of s]] by simp
qed

lemma recover_quiet:
  assumes inv: "file_inv st w"
  shows "\<exists>w'. store_recover st w = (Inr (length (running (file_view st w))), w') \<and> file_inv st w'
    \<and> file_view st w' = lane_recover (file_view st w)"
proof -
  have base: "file_base st w" and first: "claimed_first (stage_vis st w)"
    using inv by (simp_all add: file_inv_iff)
  let ?xs = "view_of (stage_vis st w InProgress)" and ?ps = "view_of (stage_vis st w Pending)"
  have "sorted_wrt (<) (map fst (?xs @ ?ps))"
    using first by (simp add: map_fst_view_of sorted_wrt_append claimed_first_def)
  then obtain w' where w': "recover_messages st (map fst ?xs) 0 w = (Inr (length ?xs), w')"
    "file_base st w'" "view_of (stage_vis st w' InProgress) = []"
    "view_of (stage_vis st w' Pending) = ?xs @ ?ps"
    "stage_vis st w' FailedStage = stage_vis st w FailedStage"
    using recover_messages_quiet [OF base refl, of "[]" ?ps 0] by auto
  have "files_of (stage_vis st w' InProgress) = {}"
    using w'(3) view_of_keys [of "stage_vis st w' InProgress"] by simp
  then have "file_inv st w'" using w'(2) by (simp add: file_inv_iff claimed_first_def)
  moreover have "store_recover st w = (Inr (length ?xs), w')"
    using list_stage [OF base, of InProgress] no_settles [OF w'(2), of InProgress] w'(1)
    by (simp add: store_recover_def bindE_def map_errE_def stage_dir_simps stage_view_of retE_def)
  ultimately show ?thesis
    using w'(3-5) by (simp add: file_view_def lane_of_def lane_recover_def)
qed

section \<open>The file driver implements the contract\<close>

interpretation file_lane: lane_driver c "to_vec_pretty c" "store_lane st" FileReceipt
  "\<lambda>k. \<not> is_hidden k" "file_inv st" "file_view st" "\<lambda>w. clock w + int wait \<le> instant_max"
  "store_publish c st" "file_dequeue c st wait"
  "store_acknowledge st" "store_move_claimed c st" "store_recover st"
  for c :: codec and st :: file_store and wait :: nat
proof unfold_locales
  fix s env b
  assume inv: "file_inv st s"
  show "to_vec_pretty c env = Inr b \<Longrightarrow> \<exists>s'. store_publish c st env s = (Inr (), s') \<and> file_inv st s'
      \<and> file_view st s' = lane_publish b (file_view st s)"
    by (rule publish_quiet [OF inv])
  show "clock s + int wait \<le> instant_max \<Longrightarrow> waiting (lane_skip c (file_view st s)) = [] \<Longrightarrow>
      \<exists>s'. file_dequeue c st wait s = Some (Inr None, s') \<and> file_inv st s'
        \<and> file_view st s' = lane_skip c (file_view st s)"
    using dequeue_quiet [OF inv, of wait c] by (auto simp: claims_as_def)
  show "\<exists>s'. store_recover st s = (Inr (length (running (file_view st s))), s') \<and> file_inv st s'
      \<and> file_view st s' = lane_recover (file_view st s)"
    by (rule recover_quiet [OF inv])
next
  fix s b bs env
  assume "file_inv st s" "clock s + int wait \<le> instant_max"
    "waiting (lane_skip c (file_view st s)) = b # bs" "from_slice c b = Inr env"
  then show "\<exists>k s'. file_dequeue c st wait s =
      Some (Inr (Some (new_delivery (count_attempt env) (store_lane st) (FileReceipt k))), s')
      \<and> \<not> is_hidden k \<and> file_inv st s' \<and> file_view st s' = lane_take k (lane_skip c (file_view st s))"
    using dequeue_quiet [of st s wait c] by (auto simp: claims_as_def)
qed (rule acknowledge_quiet move_quiet; assumption)+

end
