(* ===== verification/FileAdmin.thy ===== *)
theory FileAdmin
  imports FileLane
begin

text \<open>
  The administrative operations of the file driver on the lane: counts, peeks, republishing and
  clears, and the interpretation of \<open>lane_store\<close>.
\<close>

section \<open>Counts and peeks\<close>

lemma stage_bytes: "lane_stage s (file_view st w) = map snd (view_of (stage_vis st w s))"
  by (cases s) (simp_all add: lane_stage_def file_view_def lane_of_def)

lemma stage_paths_quiet:
  assumes "file_base st w"
  shows "stage_paths st s w = (Inr (map fst (view_of (stage_vis st w s))), w)"
proof -
  let ?ns = "map fst (view_of (stage_vis st w s))"
  let ?es = "map (\<lambda>name. (name, name)) ?ns"
  have fs: "map fst ?es = ?ns" and sn: "map snd ?es = ?ns" by (simp_all add: comp_def)
  have sorted: "sorted ?ns" by (simp add: map_fst_view_of)
  have "sort_key snd ?es = ?es" by (rule sort_key_id_if_sorted) (unfold sn, rule sorted)
  moreover have "sort_key fst ?es = ?es" by (rule sort_key_id_if_sorted) (unfold fs, rule sorted)
  ultimately have sorts: "sort_key fst (sort_key snd ?es) = ?es" by (simp only:)
  have "stage_entries st s w = (Inr ?es, w)"
    using sorts list_stage [OF assms, of s] no_settles [OF assms, of s]
    by (cases "s = InProgress") (simp_all add: stage_entries_def Let_def bindE_def map_errE_def retE_def stage_view_of)
  then show ?thesis by (simp add: stage_paths_def bindE_def retE_def comp_def)
qed

lemma lengths_quiet:
  assumes "file_base st w"
  shows "store_lengths st w = (Inr (lane_lengths (file_view st w)), w)"
  using stage_paths_quiet [OF assms]
  by (simp add: store_lengths_def bindE_def retE_def lane_lengths_def file_view_def lane_of_def)

lemma peek_paths_quiet:
  assumes "file_base st w"
  shows "set xs \<subseteq> set (view_of (stage_vis st w s)) \<Longrightarrow>
    peek_paths c (stage_dir st s) (map fst xs) ms w =
      (Inr (ms @ map (parse_peeked c from_utf8_lossy) (map snd xs)), w)"
proof (induction xs arbitrary: ms)
  case (Cons x xs)
  obtain n b where x: "x = (n, b)" by (cases x)
  obtain t where "stage_vis st w s n = Some (RegFile b t)"
    using Cons.prems view_of_mem [of "stage_vis st w s" n b] x by auto
  then have "fs_read (stage_dir st s) n w = (Inr b, w)"
    by (rule fs_read_quiet [OF base_quiet [OF assms] base_vis(1) [OF assms]])
  then show ?case using Cons by (simp add: x catchE_def)
qed (simp add: retE_def)

lemma peek_quiet:
  assumes base: "file_base st w" and le: "lo \<le> hi"
    and len: "length (lane_stage s (file_view st w)) < isize_max"
  shows "store_peek c st s lo hi w =
    (Inr (map (parse_peeked c from_utf8_lossy) (range_of lo hi (lane_stage s (file_view st w)))), w)"
proof -
  let ?xs = "view_of (stage_vis st w s)"
  let ?ys = "take (peek_count lo hi) (drop lo ?xs)"
  have "take (peek_count lo hi) (drop lo ?xs) = take (Suc hi - lo) (drop lo ?xs)"
    using len le by (auto simp: peek_count_def sat_add_usize_def stage_bytes min_def Suc_diff_le
        usize_max_def isize_max_def)
  then have "map snd ?ys = range_of lo hi (lane_stage s (file_view st w))"
    by (simp add: range_of_def stage_bytes take_map drop_map)
  moreover have "peek_paths c (stage_dir st s) (map fst ?ys) [] w =
      (Inr ([] @ map (parse_peeked c from_utf8_lossy) (map snd ?ys)), w)"
    by (rule peek_paths_quiet [OF base]) (meson set_drop_subset set_take_subset subset_trans)
  ultimately show ?thesis
    by (simp add: store_peek_def bindE_def stage_paths_quiet [OF base] take_map drop_map)
qed

section \<open>Republishing\<close>

lemma republish_one:
  assumes inv: "file_inv st w" and v: "view_of (stage_vis st w FailedStage) = (n, b) # xs"
  obtains w' where "rename_if_present (failed_dir st) n (pending_dir st) (next_name w) (bump w) = (Inr True, w')"
    and "file_inv st w'" "view_of (stage_vis st w' FailedStage) = xs"
    and "file_view st w' = lane_republish 1 (file_view st w)"
proof -
  have base: "file_base st w" and first: "claimed_first (stage_vis st w)"
    using inv by (simp_all add: file_inv_iff)
  have base': "file_base st (bump w)" by (rule base_bump(1) [OF base])
  obtain t where "stage_vis st (bump w) FailedStage n = Some (RegFile b t)"
    using view_of_head(1) [OF finite_stage_vis v] by auto
  then obtain w' where w': "rename_if_present (stage_dir st FailedStage) n (stage_dir st Pending)
       (next_name w) (bump w) = (Inr True, w')"
    "file_base st w'" "stage_vis st w' = (stage_vis st (bump w))
       (FailedStage := (stage_vis st (bump w) FailedStage)(n := None),
        Pending := (stage_vis st (bump w) Pending)(next_name w \<mapsto> RegFile b t))"
    by (rule base_move [OF base', where s' = Pending and m = "next_name w"])
      (use next_name_props(2) [OF base] base_bump(2) [OF base] in auto)
  note vis = w'(3) [unfolded stage_vis_bump]
  have rest: "view_of ((stage_vis st w FailedStage)(n := None)) = xs"
    by (rule view_of_head(2) [OF finite_stage_vis v])
  have "claimed_first (stage_vis st w')"
    using first base_vis(4) [OF base] unfolding claimed_first_def vis
    by (auto simp: files_of_upd base_files [OF base])
  then have inv': "file_inv st w'" using w'(2) by (simp add: file_inv_iff)
  have view: "file_view st w' = lane_republish 1 (file_view st w)"
    using rest v by (simp add: file_view_def lane_of_def vis lane_republish_def
      view_of_new [OF base, of Pending])
  show thesis
    by (rule that [OF w'(1) [folded stage_dir_simps] inv' _ view]) (simp add: vis rest)
qed

lemma republish_names_quiet:
  assumes "file_inv st w" "view_of (stage_vis st w FailedStage) = xs @ ys"
  shows "\<exists>w'. republish_names st (map fst xs) moved w = (Inr (moved + length xs), w') \<and> file_inv st w'
    \<and> file_view st w' = lane_republish (length xs) (file_view st w)"
  using assms
proof (induction xs arbitrary: w moved)
  case Nil
  then show ?case by (simp add: retE_def lane_republish_def)
next
  case (Cons x xs)
  obtain n b where x: "x = (n, b)" by (cases x)
  obtain w1 where w1: "rename_if_present (failed_dir st) n (pending_dir st) (next_name w) (bump w) = (Inr True, w1)"
    "file_inv st w1" "view_of (stage_vis st w1 FailedStage) = xs @ ys"
    "file_view st w1 = lane_republish 1 (file_view st w)"
    by (rule republish_one [OF Cons.prems(1), of n b "xs @ ys"]) (use Cons.prems(2) x in simp)
  obtain w2 where w2: "republish_names st (map fst xs) (Suc moved) w1 = (Inr (Suc moved + length xs), w2)"
    "file_inv st w2" "file_view st w2 = lane_republish (length xs) (file_view st w1)"
    using Cons.IH [OF w1(2,3)] by blast
  have "dead (file_view st w) = b # map snd (xs @ ys)"
    using Cons.prems(2) x by (simp add: file_view_def lane_of_def)
  then have "file_view st w2 = lane_republish (length (x # xs)) (file_view st w)"
    unfolding w2(3) w1(4) by (simp add: lane_republish_def)
  then show ?case using w1(1) w2 x by (simp add: bindE_def map_errE_def)
qed

lemma republish_quiet:
  assumes inv: "file_inv st w"
  shows "\<exists>w'. store_republish_failed st n w = (Inr (min n (length (dead (file_view st w)))), w')
    \<and> file_inv st w' \<and> file_view st w' = lane_republish n (file_view st w)"
proof -
  have base: "file_base st w" using inv by (simp add: file_inv_iff)
  let ?v = "view_of (stage_vis st w FailedStage)"
  have dead: "dead (file_view st w) = map snd ?v" by (simp add: file_view_def lane_of_def)
  have "list_messages (failed_dir st) w = (Inr (map fst ?v), w)"
    using list_stage [OF base, of FailedStage] by (simp add: stage_dir_simps stage_view_of)
  then have "store_republish_failed st n w = republish_names st (map fst (take n ?v)) 0 w"
    by (simp add: store_republish_failed_def bindE_def map_errE_def take_map)
  moreover have "lane_republish (min n (length ?v)) (file_view st w) = lane_republish n (file_view st w)"
    using dead by (simp add: lane_republish_def min_def)
  moreover obtain w' where "republish_names st (map fst (take n ?v)) 0 w = (Inr (0 + length (take n ?v)), w')"
    "file_inv st w'" "file_view st w' = lane_republish (length (take n ?v)) (file_view st w)"
    using republish_names_quiet [OF inv, of "take n ?v" "drop n ?v" 0] by auto
  ultimately show ?thesis using dead by (simp add: min.commute)
qed

section \<open>Clearing\<close>

lemma clear_names_quiet:
  assumes "file_base st w" "view_of (stage_vis st w s) = xs"
  shows "\<exists>w'. clear_names (stage_dir st s) (map fst xs) removed w = (Inr (removed + length xs), w')
    \<and> file_base st w' \<and> (\<forall>s'. s' \<noteq> s \<longrightarrow> stage_vis st w' s' = stage_vis st w s')
    \<and> files_of (stage_vis st w' s) = {}"
  using assms
proof (induction xs arbitrary: w removed)
  case Nil
  then have "files_of (stage_vis st w s) = {}" using view_of_keys [of "stage_vis st w s"] by simp
  then show ?case using Nil by (simp add: retE_def)
next
  case (Cons x xs)
  obtain n b where x: "x = (n, b)" by (cases x)
  have v: "view_of (stage_vis st w s) = (n, b) # xs" using Cons.prems(2) x by simp
  obtain y where y: "stage_vis st w s n = Some y"
    using view_of_head(1) [OF finite_stage_vis v] by blast
  obtain w1 where w1: "remove_if_present (stage_dir st s) n w = (Inr True, w1)" "file_base st w1"
    "stage_vis st w1 = (stage_vis st w)(s := (stage_vis st w s)(n := None))"
    by (rule base_remove [OF Cons.prems(1) y])
  have "view_of (stage_vis st w1 s) = xs"
    using view_of_head(2) [OF finite_stage_vis v] by (simp add: w1(3))
  then obtain w2 where w2: "clear_names (stage_dir st s) (map fst xs) (Suc removed) w1 =
      (Inr (Suc removed + length xs), w2)" "file_base st w2"
    "\<forall>s'. s' \<noteq> s \<longrightarrow> stage_vis st w2 s' = stage_vis st w1 s'"
    "files_of (stage_vis st w2 s) = {}"
    using Cons.IH [OF w1(2)] by blast
  have "s' \<noteq> s \<longrightarrow> stage_vis st w2 s' = stage_vis st w s'" for s'
    using w2(3) w1(3) by simp
  then show ?case using w1(1) w2(1,2,4) x by (auto simp: bindE_def map_errE_def)
qed

lemma hidden_of_strip: "strip_hidden_suffix n sfx \<noteq> None \<Longrightarrow> is_hidden n"
  by (auto simp: strip_hidden_suffix_Some)

text \<open>Removing old temporary files changes no visible entry.\<close>

lemma remove_stale_quiet:
  assumes "file_base st w"
  shows "\<exists>w'. remove_stale (stage_dir st s) cutoff es w = (Inr (), w') \<and> file_base st w'
    \<and> stage_vis st w' = stage_vis st w"
  using assms
proof (induction es arbitrary: w)
  case (Cons n es)
  note q = base_quiet [OF Cons.prems]
  show ?case
  proof (cases "strip_hidden_suffix n TEMP_SUFFIX = None")
    case True
    then show ?thesis using Cons q by (simp add: bindE_def fs_next_entry_quiet)
  next
    case temp: False
    show ?thesis
    proof (cases "node_at (dirs w) (stage_dir st s) n")
      case None
      then show ?thesis using Cons q temp by (simp add: bindE_def catchE_def fs_next_entry_quiet fs_node_quiet)
    next
      case (Some x)
      then obtain b t where x: "node_at (dirs w) (stage_dir st s) n = Some (RegFile b t)"
        using base_is_file [OF Cons.prems Some] by (auto simp: is_file_iff)
      let ?w = "w\<lparr>dirs := drop_node (stage_dir st s) n (dirs w)\<rparr>"
      have "file_base st ?w"
        using Cons.prems by (intro base_change) (auto simp: base_fs_ok split: if_splits)
      moreover have "stage_vis st ?w = stage_vis st w"
        using hidden_of_strip [OF temp] by (simp add: fun_eq_iff stage_vis_def)
      ultimately show ?thesis
        using Cons.IH [of w] Cons.IH [of ?w] Cons.prems q temp x
        by (simp add: bindE_def catchE_def fs_next_entry_quiet fs_node_quiet remove_if_present_quiet)
    qed
  qed
qed (simp add: retE_def)

lemma remove_stale_temp_quiet:
  assumes "file_base st w"
  shows "\<exists>w'. remove_stale_temp_files (stage_dir st s) age w = (Inr (), w') \<and> file_base st w'
    \<and> stage_vis st w' = stage_vis st w"
proof -
  obtain es where "fs_read_dir (stage_dir st s) w = (Inr es, w)"
    using base_quiet [OF assms] base_dir [OF assms, of s]
    by (auto simp: fs_defs call_defs syscall_quiet)
  then show ?thesis
    using remove_stale_quiet [OF assms] by (simp add: remove_stale_temp_files_def Let_def bindE_def)
qed

lemma clear_quiet:
  assumes inv: "file_inv st w"
  shows "\<exists>w'. store_clear st s w = (Inr (length (lane_stage s (file_view st w))), w') \<and> file_inv st w'
    \<and> file_view st w' = lane_clear s (file_view st w)"
proof -
  have base: "file_base st w" and first: "claimed_first (stage_vis st w)"
    using inv by (simp_all add: file_inv_iff)
  let ?v = "view_of (stage_vis st w s)"
  obtain w1 where w1: "clear_names (stage_dir st s) (map fst ?v) 0 w = (Inr (length ?v), w1)"
    "file_base st w1"
    "\<forall>s'. s' \<noteq> s \<longrightarrow> stage_vis st w1 s' = stage_vis st w s'"
    "files_of (stage_vis st w1 s) = {}"
    using clear_names_quiet [OF base refl, of s 0] by auto
  obtain w2 where w2: "remove_stale_temp_files (stage_dir st s) STALE_TEMP_AGE w1 = (Inr (), w2)"
    "file_base st w2" "stage_vis st w2 = stage_vis st w1"
    using remove_stale_temp_quiet [OF w1(2)] by blast
  have "remove_settling_files (stage_dir st s) w1 = (Inr 0, w1)"
    using no_settles [OF w1(2)] by (simp add: remove_settling_files_def bindE_def retE_def)
  then have run: "store_clear st s w = (Inr (length ?v), w2)"
    using list_stage [OF base, of s] w1(1) w2(1)
    by (cases "s = InProgress") (simp_all add: store_clear_def Let_def bindE_def map_errE_def retE_def stage_view_of)
  have other: "stage_vis st w1 s' = stage_vis st w s'" if "s' \<noteq> s" for s'
    using w1(3) that by blast
  have empty: "view_of (stage_vis st w1 s) = []" using w1(4) by (simp add: view_of_def)
  have "claimed_first (stage_vis st w1)"
    using first w1(4) other unfolding claimed_first_def by (cases s) auto
  then have "file_inv st w2" using w2(2,3) by (simp add: file_inv_iff)
  moreover have "file_view st w2 = lane_clear s (file_view st w)"
    using empty other unfolding file_view_def w2(3) by (cases s) (simp_all add: lane_of_def lane_clear_def)
  ultimately show ?thesis using run by (simp add: stage_bytes)
qed

interpretation file_store: lane_store c "to_vec_pretty c" "store_lane st" FileReceipt
  "\<lambda>k. \<not> is_hidden k" "file_inv st" "file_view st" "\<lambda>w. clock w + int wait \<le> instant_max"
  "store_publish c st" "file_dequeue c st wait"
  "store_acknowledge st" "store_move_claimed c st" "store_recover st"
  "store_lengths st" "store_peek c st" "store_republish_failed st" "store_clear st"
  for c :: codec and st :: file_store and wait :: nat
proof unfold_locales
  fix s t lo hi n
  assume inv: "file_inv st s"
  then have base: "file_base st s" by (simp add: file_inv_iff)
  show "\<exists>s'. store_lengths st s = (Inr (lane_lengths (file_view st s)), s') \<and> file_inv st s'
      \<and> file_view st s' = file_view st s"
    using lengths_quiet [OF base] inv by simp
  show "lo \<le> hi \<Longrightarrow> length (lane_stage t (file_view st s)) < isize_max \<Longrightarrow>
      \<exists>s'. store_peek c st t lo hi s = (Inr (map (parse_peeked c from_utf8_lossy)
          (range_of lo hi (lane_stage t (file_view st s)))), s') \<and> file_inv st s'
        \<and> file_view st s' = file_view st s"
    using peek_quiet [OF base, of lo hi t c] inv by simp
  show "\<exists>s'. store_republish_failed st n s = (Inr (min n (length (dead (file_view st s)))), s')
      \<and> file_inv st s' \<and> file_view st s' = lane_republish n (file_view st s)"
    by (rule republish_quiet [OF inv])
  show "\<exists>s'. store_clear st t s = (Inr (length (lane_stage t (file_view st s))), s') \<and> file_inv st s'
      \<and> file_view st s' = lane_clear t (file_view st s)"
    by (rule clear_quiet [OF inv])
qed

end
