(* ===== verification/RedisLane.thy ===== *)
theory RedisLane
  imports RedisDriver LaneSpec
begin

text \<open>
  The Redis driver implements a lane, given the documented behaviour of the list commands. The
  left end of a list holds the youngest message, so an abstract stage is the reversed list. The
  receipt of a claimed message is its stored bytes.
\<close>

section \<open>The documented behaviour of the server\<close>

text \<open>\<open>LRANGE\<close> with possibly negative indexes.\<close>

definition redis_range :: "int \<Rightarrow> int \<Rightarrow> 'a list \<Rightarrow> 'a list" where
  "redis_range a b xs =
     (let n = int (length xs);
          start = (if a < 0 then max 0 (a + n) else a);
          stop = min (if b < 0 then b + n else b) (n - 1)
      in if start > stop then [] else take (nat (stop - start + 1)) (drop (nat start) xs))"

text \<open>\<open>LMOVE\<close>, as the new lists and the moved element.\<close>

definition redis_lmove ::
  "string \<Rightarrow> string \<Rightarrow> string \<Rightarrow> string \<Rightarrow> (string \<Rightarrow> bytes list) \<Rightarrow> redis_value \<times> (string \<Rightarrow> bytes list)" where
  "redis_lmove src dst from to m =
     (if m src = [] then (RNil, m)
      else let x = (if from = ''LEFT'' then hd (m src) else last (m src));
               m' = m(src := (if from = ''LEFT'' then tl (m src) else butlast (m src)))
           in (RBulk x, m'(dst := (if to = ''LEFT'' then x # m' dst else m' dst @ [x]))))"

definition ends :: "string set" where
  "ends = {''LEFT'', ''RIGHT''}"

text \<open>
  \<open>stored\<close> reads the lists of a state from left to right, and \<open>calm\<close> says that the connection
  works and no other client acts. \<open>acts_as\<close> is the reply and effect of one command.
\<close>

definition acts_as ::
  "('s \<Rightarrow> string \<Rightarrow> bytes list) \<Rightarrow> ('s \<Rightarrow> bool) \<Rightarrow> 's server_action
     \<Rightarrow> ((string \<Rightarrow> bytes list) \<Rightarrow> redis_value \<times> (string \<Rightarrow> bytes list)) \<Rightarrow> bool" where
  "acts_as stored calm a f =
     (\<forall>s. calm s \<longrightarrow> calm (snd (a s)) \<and> (fst (a s), stored (snd (a s))) = f (stored s))"

definition redis_ok :: "'s redis_server \<Rightarrow> ('s \<Rightarrow> string \<Rightarrow> bytes list) \<Rightarrow> ('s \<Rightarrow> bool) \<Rightarrow> bool" where
  "redis_ok srv stored calm =
     ((\<forall>k v. acts_as stored calm (execute srv ''LPUSH'' [Arg k, Arg v])
         (\<lambda>m. (RInt (int (Suc (length (m k)))), m(k := v # m k))))
      \<and> (\<forall>k v. acts_as stored calm (execute srv ''LREM'' [Arg k, ArgInt 1, Arg v])
         (\<lambda>m. (RInt (if v \<in> set (m k) then 1 else 0), m(k := remove1 v (m k)))))
      \<and> (\<forall>k1 k2. \<forall>from \<in> ends. \<forall>to \<in> ends.
           acts_as stored calm (execute srv ''LMOVE'' [Arg k1, Arg k2, Arg from, Arg to])
             (redis_lmove k1 k2 from to))
      \<and> (\<forall>k1 k2 t. \<forall>from \<in> ends. \<forall>to \<in> ends.
           acts_as stored calm (execute srv ''BLMOVE'' [Arg k1, Arg k2, Arg from, Arg to, ArgSeconds t])
             (redis_lmove k1 k2 from to))
      \<and> (\<forall>k. acts_as stored calm (execute srv ''LLEN'' [Arg k]) (\<lambda>m. (RInt (int (length (m k))), m)))
      \<and> (\<forall>k. acts_as stored calm (execute srv ''DEL'' [Arg k])
           (\<lambda>m. (RInt (if m k = [] then 0 else 1), m(k := []))))
      \<and> (\<forall>k a b. acts_as stored calm (execute srv ''LRANGE'' [Arg k, ArgInt a, ArgInt b])
           (\<lambda>m. (RArray (map RBulk (redis_range a b (m k))), m)))
      \<and> (\<forall>a s. calm s \<longrightarrow> request srv a s = (Inr (fst (a s)), snd (a s))))"

definition redis_inv ::
  "'s redis_server \<Rightarrow> ('s \<Rightarrow> string \<Rightarrow> bytes list) \<Rightarrow> ('s \<Rightarrow> bool) \<Rightarrow> redis_driver \<Rightarrow> 's \<Rightarrow> bool" where
  "redis_inv srv stored calm d s =
     (redis_ok srv stored calm \<and> calm s \<and> distinct (map (stage_key d) all_stages))"

definition lane_of_lists :: "redis_driver \<Rightarrow> (string \<Rightarrow> bytes list) \<Rightarrow> bytes lane" where
  "lane_of_lists d m =
     \<lparr>waiting = rev (m (pending_key d)), running = map (\<lambda>b. (b, b)) (rev (m (in_progress_key d))),
      dead = rev (m (failed_key d))\<rparr>"

definition redis_view :: "('s \<Rightarrow> string \<Rightarrow> bytes list) \<Rightarrow> redis_driver \<Rightarrow> 's \<Rightarrow> bytes lane" where
  "redis_view stored d s = lane_of_lists d (stored s)"

section \<open>Actions and requests\<close>

lemma acts_as_request:
  assumes "redis_inv srv stored calm d s" "acts_as stored calm a f"
    and "convert (fst (f (stored s))) = Inr x"
  shows "\<exists>s'. query_async srv convert a s = (Inr x, s') \<and> redis_inv srv stored calm d s'
    \<and> stored s' = snd (f (stored s))"
proof -
  have calm: "calm s" and "calm (snd (a s))" and f: "(fst (a s), stored (snd (a s))) = f (stored s)"
    using assms by (auto simp: redis_inv_def acts_as_def)
  moreover have "request srv a s = (Inr (fst (a s)), snd (a s))"
    using assms(1) calm unfolding redis_inv_def redis_ok_def by blast
  moreover have "fst (f (stored s)) = fst (a s)" "snd (f (stored s)) = stored (snd (a s))"
    using f by (metis fst_conv snd_conv)+
  ultimately show ?thesis using assms(1,3) by (simp add: query_async_def redis_inv_def)
qed

lemma acts_as_move_if_present:
  assumes "redis_ok srv stored calm"
  shows "acts_as stored calm (MOVE_IF_PRESENT srv k1 k2 v u)
    (\<lambda>m. if v \<in> set (m k1)
         then (RInt 1, (let m' = m(k1 := remove1 v (m k1)) in m'(k2 := u # m' k2)))
         else (RInt 0, m))"
  unfolding acts_as_def
proof (intro allI impI)
  fix s assume s: "calm s"
  obtain r s1 where s1: "execute srv ''LREM'' [Arg k1, ArgInt 1, Arg v] s = (r, s1)" by fastforce
  have rem: "acts_as stored calm (execute srv ''LREM'' [Arg k1, ArgInt 1, Arg v])
      (\<lambda>m. (RInt (if v \<in> set (m k1) then 1 else 0), m(k1 := remove1 v (m k1))))"
    and push: "acts_as stored calm (execute srv ''LPUSH'' [Arg k2, Arg u])
      (\<lambda>m. (RInt (int (Suc (length (m k2)))), m(k2 := u # m k2)))"
    using assms unfolding redis_ok_def by blast+
  have r: "calm s1" "r = RInt (if v \<in> set (stored s k1) then 1 else 0)"
    "stored s1 = (stored s)(k1 := remove1 v (stored s k1))"
    using rem s s1 by (auto simp: acts_as_def dest!: spec [of _ s])
  obtain r2 s2 where s2: "execute srv ''LPUSH'' [Arg k2, Arg u] s1 = (r2, s2)" by fastforce
  have "calm s2" "stored s2 = (stored s1)(k2 := u # stored s1 k2)"
    using push r(1) s2 by (auto simp: acts_as_def dest!: spec [of _ s1])
  then show "calm (snd (MOVE_IF_PRESENT srv k1 k2 v u s)) \<and>
      (fst (MOVE_IF_PRESENT srv k1 k2 v u s), stored (snd (MOVE_IF_PRESENT srv k1 k2 v u s))) =
      (if v \<in> set (stored s k1)
       then (RInt 1, (let m' = (stored s)(k1 := remove1 v (stored s k1)) in m'(k2 := u # m' k2)))
       else (RInt 0, stored s))"
    using r s1 s2 by (auto simp: MOVE_IF_PRESENT_def remove1_idem)
qed

section \<open>Bulk moves\<close>

text \<open>The effect of \<open>n\<close> moves, as long as there are elements.\<close>

fun lmoves :: "string \<Rightarrow> string \<Rightarrow> string \<Rightarrow> string \<Rightarrow> nat \<Rightarrow> (string \<Rightarrow> bytes list) \<Rightarrow> (string \<Rightarrow> bytes list)" where
  "lmoves src dst from to 0 m = m"
| "lmoves src dst from to (Suc n) m = lmoves src dst from to n (snd (redis_lmove src dst from to m))"

lemma lmoves_add: "lmoves src dst from to (i + j) m = lmoves src dst from to j (lmoves src dst from to i m)"
  by (induction i arbitrary: m) auto

lemma lmoves_empty: "m src = [] \<Longrightarrow> lmoves src dst from to n m = m"
  by (induction n) (auto simp: redis_lmove_def)

lemma redis_lmove_length:
  "src \<noteq> dst \<Longrightarrow> length (snd (redis_lmove src dst from to m) src) = length (m src) - 1"
  by (auto simp: redis_lmove_def Let_def)

lemma bulk_move_loop_acts:
  assumes ok: "redis_ok srv stored calm" and dir: "from \<in> ends" "to \<in> ends" and ne: "src \<noteq> dst"
    and "calm s" "moved \<le> batch"
  shows "\<exists>s'. bulk_move_loop srv src dst from to batch moved s =
      (RInt (int (moved + min (batch - moved) (length (stored s src)))), s') \<and> calm s'
    \<and> stored s' = lmoves src dst from to (min (batch - moved) (length (stored s src))) (stored s)"
  using assms(5,6)
proof (induction "batch - moved" arbitrary: moved s)
  case 0
  then show ?case by (simp add: bulk_move_loop.simps)
next
  case (Suc n)
  obtain v s1 where s1: "execute srv ''LMOVE'' [Arg src, Arg dst, Arg from, Arg to] s = (v, s1)" by fastforce
  have "acts_as stored calm (execute srv ''LMOVE'' [Arg src, Arg dst, Arg from, Arg to])
      (redis_lmove src dst from to)"
    using ok dir unfolding redis_ok_def by blast
  then have v: "calm s1" "(v, stored s1) = redis_lmove src dst from to (stored s)"
    using Suc.prems(1) s1 by (auto simp: acts_as_def dest!: spec [of _ s])
  have lt: "moved < batch" using Suc.hyps(2) by simp
  have left: "n = batch - Suc moved" using Suc.hyps(2) by simp
  show ?case
  proof (cases "stored s src = []")
    case True
    then show ?thesis using v lt s1 by (auto simp: bulk_move_loop.simps redis_lmove_def)
  next
    case False
    have "v \<noteq> RNil" using v(2) False by (auto simp: redis_lmove_def Let_def)
    moreover have l1: "stored s1 = snd (redis_lmove src dst from to (stored s))" using v(2) by (metis snd_conv)
    moreover obtain s' where "bulk_move_loop srv src dst from to batch (Suc moved) s1 =
        (RInt (int (Suc moved + min (batch - Suc moved) (length (stored s1 src)))), s')" "calm s'"
      "stored s' = lmoves src dst from to (min (batch - Suc moved) (length (stored s1 src))) (stored s1)"
      using Suc.hyps(1) [OF left v(1) Suc_leI [OF lt]] by blast
    moreover have "min (batch - moved) (length (stored s src)) =
        Suc (min (batch - Suc moved) (length (stored s1 src)))"
      using False lt redis_lmove_length [OF ne, of "from" to "stored s"] l1
      by (cases "stored s src") (auto simp: min_def)
    ultimately show ?thesis using s1 lt by (simp add: bulk_move_loop.simps)
  qed
qed

lemma lmoves_length:
  assumes "src \<noteq> dst"
  shows "length (lmoves src dst from to n m src) = length (m src) - n"
proof (induction n arbitrary: m)
  case (Suc n)
  then show ?case using redis_lmove_length [OF assms, of "from" to m] by simp
qed simp

text \<open>The batches together move as many elements as one move would, whatever the batch size.\<close>

lemma bulk_move_acts:
  assumes "redis_inv srv stored calm d s" "from \<in> ends" "to \<in> ends" "src \<noteq> dst" "moved \<le> limit"
  shows "\<exists>s'. bulk_move srv src dst from to limit moved s =
      (Inr (moved + min (limit - moved) (length (stored s src))), s') \<and> redis_inv srv stored calm d s'
    \<and> stored s' = lmoves src dst from to (min (limit - moved) (length (stored s src))) (stored s)"
  using assms(1,5)
proof (induction "limit - moved" arbitrary: moved s rule: less_induct)
  case less
  have ok: "redis_ok srv stored calm" and calm: "calm s" using less.prems by (simp_all add: redis_inv_def)
  let ?batch = "min (limit - moved) BULK_MOVE_BATCH_SIZE"
  let ?count = "min ?batch (length (stored s src))"
  obtain s1 where s1: "BULK_MOVE srv src dst ?batch from to s = (RInt (int ?count), s1)" "calm s1"
    "stored s1 = lmoves src dst from to ?count (stored s)"
    using bulk_move_loop_acts [OF ok assms(2-4) calm, of 0 ?batch] by (auto simp: BULK_MOVE_def)
  have "request srv (BULK_MOVE srv src dst ?batch from to) s = (Inr (RInt (int ?count)), s1)"
    using ok calm s1(1) unfolding redis_ok_def by (metis fst_conv snd_conv)
  then have q: "query_async srv reply_usize (BULK_MOVE srv src dst ?batch from to) s = (Inr ?count, s1)"
    by (simp add: query_async_def)
  have inv1: "redis_inv srv stored calm d s1" using less.prems s1(2) by (simp add: redis_inv_def)
  show ?case
  proof (cases "moved < limit")
    case False
    then show ?thesis using less.prems by (simp add: bulk_move.simps)
  next
    case lt: True
    show ?thesis
    proof (cases "?count < ?batch")
      case True
      then have "?count = min (limit - moved) (length (stored s src))" by (auto simp: min_def split: if_splits)
      then show ?thesis using True q lt s1(3) inv1 by (simp add: bulk_move.simps Let_def)
    next
      case False
      then have count: "?count = ?batch"
        by (intro order.antisym) (simp_all only: not_less min.cobounded1)
      have pos: "0 < ?batch" using lt by (simp add: BULK_MOVE_BATCH_SIZE_def)
      have len: "length (stored s1 src) = length (stored s src) - ?batch"
        unfolding s1(3) lmoves_length [OF assms(4)] count ..
      have le: "moved + ?batch \<le> limit" and decr: "limit - (moved + ?batch) < limit - moved"
        using pos lt by simp_all
      let ?rest = "min (limit - (moved + ?batch)) (length (stored s1 src))"
      obtain s2 where s2: "bulk_move srv src dst from to limit (moved + ?batch) s1 =
          (Inr (moved + ?batch + ?rest), s2)" "redis_inv srv stored calm d s2"
        "stored s2 = lmoves src dst from to ?rest (stored s1)"
        using less.hyps [OF decr inv1 le] by blast
      have sum: "min (limit - moved) (length (stored s src)) = ?batch + ?rest"
        using len count by (auto simp: min_def split: if_splits)
      have "stored s2 = lmoves src dst from to (?batch + ?rest) (stored s)"
        unfolding s2(3) s1(3) count lmoves_add ..
      then show ?thesis
        using s2(1,2) q lt False count unfolding sum by (subst bulk_move.simps) (simp add: Let_def)
    qed
  qed
qed

lemma lmoves_left_right:
  "src \<noteq> dst \<Longrightarrow> n \<le> length (m src) \<Longrightarrow>
     lmoves src dst ''LEFT'' ''RIGHT'' n m = m(src := drop n (m src), dst := m dst @ take n (m src))"
proof (induction n arbitrary: m)
  case (Suc n)
  then obtain x xs where m: "m src = x # xs" by (cases "m src") auto
  have one: "snd (redis_lmove src dst ''LEFT'' ''RIGHT'' m) = m(src := xs, dst := m dst @ [x])"
    using m Suc.prems(1) by (simp add: redis_lmove_def Let_def)
  let ?m = "m(src := xs, dst := m dst @ [x])"
  have "lmoves src dst ''LEFT'' ''RIGHT'' n ?m =
      ?m(src := drop n (?m src), dst := ?m dst @ take n (?m src))"
    by (rule Suc.IH) (use Suc.prems m in auto)
  also have "\<dots> = m(src := drop (Suc n) (m src), dst := m dst @ take (Suc n) (m src))"
    using m Suc.prems(1) by (simp add: fun_eq_iff)
  finally show ?case by (simp only: lmoves.simps one)
qed simp

lemma lmoves_right_left:
  "src \<noteq> dst \<Longrightarrow> n \<le> length (m src) \<Longrightarrow>
     lmoves src dst ''RIGHT'' ''LEFT'' n m =
       m(src := take (length (m src) - n) (m src), dst := drop (length (m src) - n) (m src) @ m dst)"
proof (induction n arbitrary: m)
  case (Suc n)
  then obtain xs x where m: "m src = xs @ [x]" by (cases "m src" rule: rev_cases) auto
  have one: "snd (redis_lmove src dst ''RIGHT'' ''LEFT'' m) = m(src := xs, dst := x # m dst)"
    using m Suc.prems(1) by (simp add: redis_lmove_def Let_def)
  let ?m = "m(src := xs, dst := x # m dst)"
  have "lmoves src dst ''RIGHT'' ''LEFT'' n ?m =
      ?m(src := take (length (?m src) - n) (?m src), dst := drop (length (?m src) - n) (?m src) @ ?m dst)"
    by (rule Suc.IH) (use Suc.prems m in auto)
  also have "\<dots> = m(src := take (length (m src) - Suc n) (m src),
      dst := drop (length (m src) - Suc n) (m src) @ m dst)"
    using m Suc.prems by (simp add: fun_eq_iff)
  finally show ?case by (simp only: lmoves.simps one)
qed simp

section \<open>The operations on the lane\<close>

lemma keys_distinct:
  "redis_inv srv stored calm d s \<Longrightarrow> pending_key d \<noteq> in_progress_key d"
  "redis_inv srv stored calm d s \<Longrightarrow> pending_key d \<noteq> failed_key d"
  "redis_inv srv stored calm d s \<Longrightarrow> in_progress_key d \<noteq> failed_key d"
  by (simp_all add: redis_inv_def stage_key_def all_stages_def)

lemma redis_receipts: "receipts (redis_view stored d s) = set (stored s (in_progress_key d))"
  by (simp add: receipts_def redis_view_def lane_of_lists_def image_image)

lemma drop_first_pairs: "drop_first b (map (\<lambda>b. (b, b)) xs) = map (\<lambda>b. (b, b)) (remove1 b xs)"
  by (induction xs) auto

lemma drop_last_pairs:
  "drop_last b (map (\<lambda>b. (b, b)) (rev xs)) = map (\<lambda>b. (b, b)) (rev (remove1 b xs))"
  by (simp add: drop_last_def rev_map drop_first_pairs)

lemma redis_publish_law:
  assumes inv: "redis_inv srv stored calm d s" and enc: "to_vec c env = Inr b"
  shows "\<exists>s'. redis_publish srv c d env s = (Inr (), s') \<and> redis_inv srv stored calm d s'
    \<and> redis_view stored d s' = lane_publish b (redis_view stored d s)"
proof -
  have "acts_as stored calm (execute srv ''LPUSH'' [Arg (pending_key d), Arg b])
      (\<lambda>m. (RInt (int (Suc (length (m (pending_key d))))), m(pending_key d := b # m (pending_key d))))"
    using inv unfolding redis_inv_def redis_ok_def by blast
  then obtain s' where "query_async srv reply_unit (execute srv ''LPUSH'' [Arg (pending_key d), Arg b]) s = (Inr (), s')"
    "redis_inv srv stored calm d s'"
    "stored s' = (stored s)(pending_key d := b # stored s (pending_key d))"
    using acts_as_request [OF inv, of _ _ reply_unit "()"] by fastforce
  then show ?thesis
    using keys_distinct [OF inv]
    by (simp add: redis_publish_def bindE_def redis_serialize_def enc redis_view_def lane_of_lists_def
        lane_publish_def)
qed

lemma redis_acknowledge_law:
  assumes inv: "redis_inv srv stored calm d s"
  shows "\<exists>s'. redis_acknowledge srv d k s = (Inr (k \<in> receipts (redis_view stored d s)), s')
    \<and> redis_inv srv stored calm d s' \<and> redis_view stored d s' = lane_drop k (redis_view stored d s)"
proof -
  let ?i = "in_progress_key d"
  have "acts_as stored calm (execute srv ''LREM'' [Arg ?i, ArgInt 1, Arg k])
      (\<lambda>m. (RInt (if k \<in> set (m ?i) then 1 else 0), m(?i := remove1 k (m ?i))))"
    using inv unfolding redis_inv_def redis_ok_def by blast
  then obtain s' where "query_async srv reply_int (execute srv ''LREM'' [Arg ?i, ArgInt 1, Arg k]) s =
      (Inr (if k \<in> set (stored s ?i) then 1 else 0), s')"
    "redis_inv srv stored calm d s'" "stored s' = (stored s)(?i := remove1 k (stored s ?i))"
    using acts_as_request [OF inv, of _ _ reply_int "if k \<in> set (stored s ?i) then 1 else 0"] by fastforce
  then show ?thesis
    using keys_distinct [OF inv]
    by (simp add: redis_acknowledge_def bindE_def retE_def redis_receipts)
      (simp add: redis_view_def lane_of_lists_def lane_drop_def drop_last_pairs remove1_idem)
qed

lemma move_if_present_law:
  assumes inv: "redis_inv srv stored calm d s" and t: "t \<noteq> InProgress"
  shows "\<exists>s'. move_if_present srv d k (stage_key d t) b s = (Inr (k \<in> receipts (redis_view stored d s)), s')
    \<and> redis_inv srv stored calm d s' \<and> redis_view stored d s' =
      (if k \<in> receipts (redis_view stored d s) then lane_put t b (lane_drop k (redis_view stored d s))
       else redis_view stored d s)"
proof -
  let ?i = "in_progress_key d" and ?t = "stage_key d t"
  have ok: "redis_ok srv stored calm" using inv by (simp add: redis_inv_def)
  show ?thesis
  proof (cases "k \<in> set (stored s ?i)")
    case True
    obtain s' where s': "query_async srv reply_int (MOVE_IF_PRESENT srv ?i ?t k b) s = (Inr 1, s')"
      "redis_inv srv stored calm d s'"
      "stored s' = (let m' = (stored s)(?i := remove1 k (stored s ?i)) in m'(?t := b # m' ?t))"
      using acts_as_request [where convert = reply_int and x = 1, OF inv acts_as_move_if_present [OF ok, of ?i ?t k b]] True by auto
    have "redis_view stored d s' = lane_put t b (lane_drop k (redis_view stored d s))"
      using t keys_distinct [OF inv]
      by (cases t) (simp_all add: redis_view_def s'(3) lane_of_lists_def lane_put_def lane_drop_def
        stage_key_def drop_last_pairs)
    then show ?thesis using s'(1,2) True
      by (simp add: move_if_present_def bindE_def retE_def redis_receipts)
  next
    case False
    obtain s' where s': "query_async srv reply_int (MOVE_IF_PRESENT srv ?i ?t k b) s = (Inr 0, s')"
      "redis_inv srv stored calm d s'" "stored s' = stored s"
      using acts_as_request [where convert = reply_int and x = 0, OF inv acts_as_move_if_present [OF ok, of ?i ?t k b]] False by auto
    then show ?thesis using False
      by (simp add: move_if_present_def bindE_def retE_def redis_receipts) (simp add: redis_view_def)
  qed
qed

lemma redis_move_law:
  assumes "redis_inv srv stored calm d s" "to_vec c env = Inr b" "t \<noteq> InProgress"
  shows "\<exists>s'. redis_move_claimed srv c d k env t s = (Inr (k \<in> receipts (redis_view stored d s)), s')
    \<and> redis_inv srv stored calm d s' \<and> redis_view stored d s' =
      (if k \<in> receipts (redis_view stored d s) then lane_put t b (lane_drop k (redis_view stored d s))
       else redis_view stored d s)"
  using move_if_present_law [OF assms(1,3), of k b] assms(2)
  by (simp add: redis_move_claimed_def bindE_def redis_serialize_def)

lemma redis_recover_law:
  assumes inv: "redis_inv srv stored calm d s" and len: "length (running (redis_view stored d s)) \<le> usize_max"
  shows "\<exists>s'. redis_recover srv d s = (Inr (length (running (redis_view stored d s))), s')
    \<and> redis_inv srv stored calm d s' \<and> redis_view stored d s' = lane_recover (redis_view stored d s)"
proof -
  let ?i = "in_progress_key d" and ?p = "pending_key d"
  have l: "length (stored s ?i) = length (running (redis_view stored d s))"
    by (simp add: redis_view_def lane_of_lists_def)
  obtain s' where s': "bulk_move srv ?i ?p ''LEFT'' ''RIGHT'' usize_max 0 s = (Inr (length (stored s ?i)), s')"
    "redis_inv srv stored calm d s'"
    "stored s' = lmoves ?i ?p ''LEFT'' ''RIGHT'' (length (stored s ?i)) (stored s)"
    using bulk_move_acts [OF inv, of "''LEFT''" "''RIGHT''" ?i ?p 0 usize_max] keys_distinct [OF inv] len l
    by (auto simp: ends_def min_absorb2)
  have "redis_view stored d s' = lane_recover (redis_view stored d s)"
    using lmoves_left_right [of ?i ?p "length (stored s ?i)" "stored s"] keys_distinct [OF inv]
    by (simp add: redis_view_def s'(3) lane_of_lists_def lane_recover_def comp_def)
  then show ?thesis using s'(1,2) l by (simp add: redis_recover_def)
qed

section \<open>Claiming\<close>

lemma claim_element_law:
  assumes inv: "redis_inv srv stored calm d s"
  obtains s' where "claim_element srv d wait s =
      (Inr (if stored s (pending_key d) = [] then None else Some (last (stored s (pending_key d)))), s')"
    and "redis_inv srv stored calm d s'"
    and "stored s' = snd (redis_lmove (pending_key d) (in_progress_key d) ''RIGHT'' ''LEFT'' (stored s))"
proof -
  let ?p = "pending_key d" and ?i = "in_progress_key d"
  let ?l = "redis_lmove ?p ?i ''RIGHT'' ''LEFT''"
  let ?x = "if stored s ?p = [] then None else Some (last (stored s ?p))"
  have acts: "acts_as stored calm (execute srv ''LMOVE'' [Arg ?p, Arg ?i, Arg ''RIGHT'', Arg ''LEFT'']) ?l"
    "acts_as stored calm (execute srv ''BLMOVE'' [Arg ?p, Arg ?i, Arg ''RIGHT'', Arg ''LEFT'', ArgSeconds wait]) ?l"
    using inv unfolding redis_inv_def redis_ok_def ends_def by blast+
  have x: "reply_optional_bytes (fst (?l (stored s))) = Inr ?x" by (simp add: redis_lmove_def Let_def)
  show thesis
  proof (cases "wait = 0")
    case True
    then show thesis
      using acts_as_request [where convert = reply_optional_bytes and x = ?x, OF inv acts(1)] x that by (auto simp: claim_element_def)
  next
    case False
    then show thesis
      using acts_as_request [where convert = reply_optional_bytes and x = ?x, OF inv acts(2)] x that by (auto simp: claim_element_def)
  qed
qed

text \<open>What a dequeue does; \<open>S\<close> is the lane after the unreadable messages moved away.\<close>

definition redis_claims_as ::
  "'s redis_server \<Rightarrow> ('s \<Rightarrow> string \<Rightarrow> bytes list) \<Rightarrow> ('s \<Rightarrow> bool) \<Rightarrow> codec \<Rightarrow> redis_driver \<Rightarrow> bytes lane
     \<Rightarrow> (queue_error + delivery option) \<times> 's \<Rightarrow> bool" where
  "redis_claims_as srv stored calm c d S res =
     (redis_inv srv stored calm d (snd res) \<and>
      (case waiting S of
         [] \<Rightarrow> fst res = Inr None \<and> redis_view stored d (snd res) = S
       | b # bs \<Rightarrow>
           (\<exists>env. from_slice c b = Inr env
              \<and> fst res = Inr (Some (new_delivery (count_attempt env) (redis_lane_id d) (RedisReceipt b)))
              \<and> redis_view stored d (snd res) = lane_take b S)))"

lemma redis_view_take:
  assumes "pending_key d \<noteq> in_progress_key d" "pending_key d \<noteq> failed_key d" "in_progress_key d \<noteq> failed_key d"
    and "m (pending_key d) = xs @ [b]"
  shows "lane_of_lists d (snd (redis_lmove (pending_key d) (in_progress_key d) ''RIGHT'' ''LEFT'' m)) =
    lane_take b (lane_of_lists d m)"
  using assms by (simp add: redis_lmove_def Let_def lane_of_lists_def lane_take_def)

lemma redis_dequeue_loop_law:
  assumes "redis_inv srv stored calm d s"
  shows "\<exists>res. redis_dequeue_loop srv c d deadline s = Some res
    \<and> redis_claims_as srv stored calm c d (lane_skip c (redis_view stored d s)) res"
  using assms
proof (induction "length (stored s (pending_key d))" arbitrary: s rule: less_induct)
  case less
  note inv = less.prems
  let ?p = "pending_key d" and ?wait = "nat (deadline - instant_now srv s)"
  obtain s1 where s1: "claim_element srv d ?wait s =
      (Inr (if stored s ?p = [] then None else Some (last (stored s ?p))), s1)"
    "redis_inv srv stored calm d s1"
    "stored s1 = snd (redis_lmove ?p (in_progress_key d) ''RIGHT'' ''LEFT'' (stored s))"
    by (rule claim_element_law [OF inv])
  show ?case
  proof (cases "stored s ?p" rule: rev_cases)
    case Nil
    then have "redis_view stored d s1 = redis_view stored d s" "waiting (redis_view stored d s) = []"
      by (simp_all add: redis_view_def s1(3) redis_lmove_def lane_of_lists_def)
    then show ?thesis
      using s1(1,2) Nil by (auto simp: redis_dequeue_loop.simps redis_claims_as_def lane_skip_Nil)
  next
    case (snoc xs b)
    have take: "redis_view stored d s1 = lane_take b (redis_view stored d s)"
      using redis_view_take [OF keys_distinct [OF inv], of "stored s", OF snoc] by (simp add: redis_view_def s1(3))
    have head: "waiting (redis_view stored d s) = b # rev xs"
      using snoc by (simp add: redis_view_def lane_of_lists_def)
    show ?thesis
    proof (cases "from_slice c b")
      case (Inr env)
      then have "\<not> unreadable c b" by (simp add: unreadable_def)
      note skip = lane_skip_readable [OF head this]
      show ?thesis
        using s1(1,2) snoc Inr head take
        by (auto simp: redis_dequeue_loop.simps redis_claims_as_def skip)
    next
      case (Inl e)
      have b: "b \<in> receipts (redis_view stored d s1)"
        using head by (simp add: take receipts_take)
      obtain s2 where s2: "move_if_present srv d b (stage_key d FailedStage) b s1 = (Inr True, s2)"
        "redis_inv srv stored calm d s2"
        "redis_view stored d s2 = lane_put FailedStage b (lane_drop b (redis_view stored d s1))"
        using move_if_present_law [OF s1(2), of FailedStage b b] b by auto
      have "waiting (redis_view stored d s2) = rev xs"
        using head by (simp add: s2(3) take lane_put_def lane_drop_take)
      then have "stored s2 ?p = xs" by (simp add: redis_view_def lane_of_lists_def)
      then obtain res where res: "redis_dequeue_loop srv c d deadline s2 = Some res"
        "redis_claims_as srv stored calm c d (lane_skip c (redis_view stored d s2)) res"
        using less.hyps [OF _ s2(2)] snoc by auto
      have "lane_skip c (redis_view stored d s2) = lane_skip c (redis_view stored d s)"
        using lane_skip_Cons [OF head] Inl unfolding s2(3) take by (simp add: unreadable_def)
      moreover have "redis_unreadable srv d b s1 = (Inr (), s2)"
        using s2(1) by (simp add: redis_unreadable_def catchE_def retE_def stage_key_def)
      ultimately show ?thesis
        using res s1(1) snoc Inl by (simp add: redis_dequeue_loop.simps [of _ _ _ _ s])
    qed
  qed
qed

interpretation redis_lane: lane_driver c "to_vec c" "redis_lane_id d" RedisReceipt
  "\<lambda>_. True" "redis_inv srv stored calm d" "redis_view stored d" "\<lambda>_. True"
  "redis_publish srv c d" "redis_dequeue srv c d wait"
  "redis_acknowledge srv d" "redis_move_claimed srv c d" "redis_recover srv d"
  for c :: codec and srv :: "'s redis_server" and stored calm and d :: redis_driver and wait :: nat
proof unfold_locales
  fix s b bs env
  assume inv: "redis_inv srv stored calm d s"
  show "waiting (lane_skip c (redis_view stored d s)) = [] \<Longrightarrow>
      \<exists>s'. redis_dequeue srv c d wait s = Some (Inr None, s') \<and> redis_inv srv stored calm d s'
        \<and> redis_view stored d s' = lane_skip c (redis_view stored d s)"
    using redis_dequeue_loop_law [OF inv, of c] by (fastforce simp: redis_dequeue_def redis_claims_as_def)
  show "waiting (lane_skip c (redis_view stored d s)) = b # bs \<Longrightarrow> from_slice c b = Inr env \<Longrightarrow>
      \<exists>k s'. redis_dequeue srv c d wait s =
        Some (Inr (Some (new_delivery (count_attempt env) (redis_lane_id d) (RedisReceipt k))), s')
        \<and> True \<and> redis_inv srv stored calm d s'
        \<and> redis_view stored d s' = lane_take k (lane_skip c (redis_view stored d s))"
    using redis_dequeue_loop_law [OF inv, of c] by (fastforce simp: redis_dequeue_def redis_claims_as_def)
qed (rule redis_publish_law redis_acknowledge_law redis_move_law redis_recover_law; assumption)+

end
