(* ===== verification/RedisAdmin.thy ===== *)
theory RedisAdmin
  imports RedisLane
begin

text \<open>
  The administrative operations of the Redis driver on the lane: counts, peeks, republishing and
  clears, and the interpretation of \<open>lane_store\<close>.
\<close>

section \<open>Pipelines\<close>

fun pipe_spec :: "('m \<Rightarrow> 'v \<times> 'm) list \<Rightarrow> 'm \<Rightarrow> 'v list \<times> 'm" where
  "pipe_spec [] m = ([], m)"
| "pipe_spec (f # fs) m =
     (case f m of (v, m') \<Rightarrow> case pipe_spec fs m' of (vs, m'') \<Rightarrow> (v # vs, m''))"

lemma pipeline_fold:
  assumes "list_all2 (acts_as stored calm) as fs" "calm s"
  shows "\<exists>s'. fold (\<lambda>a (vs, s). case a s of (v, s') \<Rightarrow> (vs @ [v], s')) as (vs, s) =
      (vs @ fst (pipe_spec fs (stored s)), s') \<and> calm s' \<and> stored s' = snd (pipe_spec fs (stored s))"
  using assms
proof (induction as fs arbitrary: vs s rule: list_all2_induct)
  case (Cons a as f fs)
  obtain v s1 where s1: "a s = (v, s1)" by fastforce
  have f: "calm s1" "f (stored s) = (v, stored s1)"
    using Cons.hyps(1) Cons.prems s1 by (auto simp: acts_as_def dest!: spec [of _ s])
  show ?case
    using Cons.IH [OF f(1), of "vs @ [v]"] s1 f(2) by (auto split: prod.split)
qed simp

lemma acts_as_pipeline:
  assumes "list_all2 (acts_as stored calm) as fs"
  shows "acts_as stored calm (pipeline as) (\<lambda>m. (RArray (fst (pipe_spec fs m)), snd (pipe_spec fs m)))"
  unfolding acts_as_def
proof (intro allI impI)
  fix s assume "calm s"
  then obtain s' where "fold (\<lambda>a (vs, s). case a s of (v, s') \<Rightarrow> (vs @ [v], s')) as ([], s) =
      (fst (pipe_spec fs (stored s)), s')" "calm s'" "stored s' = snd (pipe_spec fs (stored s))"
    using pipeline_fold [OF assms, of s "[]"] by auto
  then show "calm (snd (pipeline as s)) \<and> (fst (pipeline as s), stored (snd (pipeline as s))) =
      (RArray (fst (pipe_spec fs (stored s))), snd (pipe_spec fs (stored s)))"
    by (simp add: pipeline_def)
qed

section \<open>Counts and clears\<close>

lemma llen_acts:
  "redis_inv srv stored calm d s \<Longrightarrow>
     acts_as stored calm (execute srv ''LLEN'' [Arg k]) (\<lambda>m. (RInt (int (length (m k))), m))"
  unfolding redis_inv_def redis_ok_def by blast

lemma redis_lengths_law:
  assumes inv: "redis_inv srv stored calm d s"
  shows "\<exists>s'. redis_lengths srv d s = (Inr (lane_lengths (redis_view stored d s)), s')
    \<and> redis_inv srv stored calm d s' \<and> redis_view stored d s' = redis_view stored d s"
proof -
  let ?m = "stored s"
  let ?llen = "\<lambda>k m. (RInt (int (length (m k))), m)"
  let ?as = "[execute srv ''LLEN'' [Arg (pending_key d)], execute srv ''LLEN'' [Arg (in_progress_key d)],
      execute srv ''LLEN'' [Arg (failed_key d)]]"
  have pipe: "list_all2 (acts_as stored calm) ?as
      [?llen (pending_key d), ?llen (in_progress_key d), ?llen (failed_key d)]"
    using llen_acts [OF inv] by simp
  obtain s' where "query_async srv reply_three (pipeline ?as) s =
      (Inr (length (?m (pending_key d)), length (?m (in_progress_key d)), length (?m (failed_key d))), s')"
    "redis_inv srv stored calm d s'" "stored s' = ?m"
    using acts_as_request [where convert = reply_three and x = "(length (?m (pending_key d)),
      length (?m (in_progress_key d)), length (?m (failed_key d)))", OF inv acts_as_pipeline [OF pipe]] by auto
  then show ?thesis
    by (simp add: redis_lengths_def bindE_def retE_def lane_lengths_def redis_view_def lane_of_lists_def)
qed

lemma redis_stage_bytes: "lane_stage t (redis_view stored d s) = rev (stored s (stage_key d t))"
  by (cases t) (simp_all add: lane_stage_def redis_view_def lane_of_lists_def stage_key_def comp_def)

lemma redis_clear_law:
  assumes inv: "redis_inv srv stored calm d s"
  shows "\<exists>s'. redis_clear srv d t s = (Inr (length (lane_stage t (redis_view stored d s))), s')
    \<and> redis_inv srv stored calm d s' \<and> redis_view stored d s' = lane_clear t (redis_view stored d s)"
proof -
  let ?k = "stage_key d t" and ?m = "stored s"
  have "acts_as stored calm (execute srv ''DEL'' [Arg ?k])
      (\<lambda>m. (RInt (if m ?k = [] then 0 else 1), m(?k := [])))"
    using inv unfolding redis_inv_def redis_ok_def by blast
  then have pipe: "list_all2 (acts_as stored calm)
      [execute srv ''LLEN'' [Arg ?k], execute srv ''DEL'' [Arg ?k]]
      [\<lambda>m. (RInt (int (length (m ?k))), m), \<lambda>m. (RInt (if m ?k = [] then 0 else 1), m(?k := []))]"
    using llen_acts [OF inv] by simp
  obtain s' where s': "query_async srv reply_two
      (pipeline [execute srv ''LLEN'' [Arg ?k], execute srv ''DEL'' [Arg ?k]]) s =
      (Inr (length (?m ?k), if ?m ?k = [] then 0 else 1), s')"
    "redis_inv srv stored calm d s'" "stored s' = ?m(?k := [])"
    using acts_as_request [where convert = reply_two and x = "(length (?m ?k), if ?m ?k = [] then 0 else 1)",
      OF inv acts_as_pipeline [OF pipe]] by auto
  have "redis_view stored d s' = lane_clear t (redis_view stored d s)"
    using keys_distinct [OF inv]
    by (cases t) (simp_all add: redis_view_def s'(3) lane_of_lists_def lane_clear_def stage_key_def)
  then show ?thesis using s'(1,2)
    by (simp add: redis_clear_def Let_def bindE_def retE_def redis_stage_bytes)
qed

section \<open>Republishing\<close>

lemma redis_republish_law:
  assumes inv: "redis_inv srv stored calm d s"
  shows "\<exists>s'. redis_republish_failed srv d n s = (Inr (min n (length (dead (redis_view stored d s)))), s')
    \<and> redis_inv srv stored calm d s' \<and> redis_view stored d s' = lane_republish n (redis_view stored d s)"
proof -
  let ?f = "failed_key d" and ?p = "pending_key d"
  let ?fs = "stored s ?f"
  let ?n = "min n (length ?fs)"
  obtain s' where s': "bulk_move srv ?f ?p ''RIGHT'' ''LEFT'' n 0 s = (Inr ?n, s')"
    "redis_inv srv stored calm d s'" "stored s' = lmoves ?f ?p ''RIGHT'' ''LEFT'' ?n (stored s)"
    using bulk_move_acts [OF inv, of "''RIGHT''" "''LEFT''" ?f ?p 0 n] keys_distinct [OF inv]
    by (auto simp: ends_def)
  have "stored s' = (stored s)(?f := take (length ?fs - ?n) ?fs,
      ?p := drop (length ?fs - ?n) ?fs @ stored s ?p)"
    unfolding s'(3) using keys_distinct [OF inv] by (intro lmoves_right_left) auto
  moreover have "rev (drop (length ?fs - ?n) ?fs) = take n (rev ?fs)"
    by (cases "n \<le> length ?fs") (simp_all add: rev_drop min_def)
  moreover have "rev (take (length ?fs - ?n) ?fs) = drop n (rev ?fs)"
    by (cases "n \<le> length ?fs") (simp_all add: rev_take min_def)
  ultimately have "redis_view stored d s' = lane_republish n (redis_view stored d s)"
    using keys_distinct [OF inv]
    by (simp add: redis_view_def lane_of_lists_def lane_republish_def)
  then show ?thesis using s'(1,2)
    by (simp add: redis_republish_failed_def redis_view_def lane_of_lists_def)
qed

section \<open>Peeks\<close>

text \<open>
  Positions count from the right end, so the driver asks for the negative range; the indexes are
  clamped where they leave the range of \<open>isize\<close>, which changes nothing for a list of that size.
\<close>

lemma redis_range_peek:
  assumes "lo \<le> hi" "length xs < isize_max"
  shows "rev (redis_range (- (int (min hi redis_index_limit) + 1)) (- (int (min lo redis_index_limit) + 1)) xs) =
    range_of lo hi (rev xs)"
proof (cases "lo < length xs")
  case False
  then show ?thesis
    using assms by (auto simp: redis_range_def Let_def range_of_def redis_index_limit_def isize_max_def)
next
  case lo: True
  let ?n = "length xs"
  have l: "min lo redis_index_limit = lo"
    using lo assms(2) by (simp add: redis_index_limit_def isize_max_def)
  show ?thesis
  proof (cases "hi < ?n")
    case True
    then have h: "min hi redis_index_limit = hi"
      using assms(2) by (simp add: redis_index_limit_def isize_max_def)
    have "nat (int ?n - int lo - 1 - (int ?n - int hi - 1) + 1) = Suc hi - lo"
      using assms(1) by simp
    have r: "redis_range (- (int hi + 1)) (- (int lo + 1)) xs = take (Suc hi - lo) (drop (?n - Suc hi) xs)"
      using True lo assms(1)
      by (auto simp: redis_range_def Let_def nat_diff_distrib min_def max_def nat_add_distrib
        Suc_diff_le intro!: arg_cong2 [where f = take] arg_cong2 [where f = drop])
    have "rev (take (Suc hi - lo) (drop (?n - Suc hi) xs)) = take (Suc hi - lo) (drop lo (rev xs))"
      using True assms(1) by (simp add: rev_take rev_drop drop_take min_def)
    then show ?thesis unfolding l h r by (simp add: range_of_def)
  next
    case False
    then have h: "int ?n \<le> int (min hi redis_index_limit)"
      using assms(2) by (simp add: redis_index_limit_def isize_max_def)
    have r: "redis_range (- (int (min hi redis_index_limit) + 1)) (- (int lo + 1)) xs = take (?n - lo) xs"
      using lo h by (auto simp: redis_range_def Let_def max_def min_def intro!: arg_cong2 [where f = take])
    show ?thesis
      unfolding l r using False lo by (simp add: range_of_def rev_take)
  qed
qed

lemma reply_elements_map: "reply_elements (map RBulk bs) = Inr bs"
  by (induction bs) simp_all

lemma redis_peek_law:
  assumes inv: "redis_inv srv stored calm d s" and le: "lo \<le> hi"
    and len: "length (lane_stage t (redis_view stored d s)) < isize_max"
  shows "\<exists>s'. redis_peek srv c d t lo hi s = (Inr (map (parse_peeked c from_utf8_lossy)
      (range_of lo hi (lane_stage t (redis_view stored d s)))), s')
    \<and> redis_inv srv stored calm d s' \<and> redis_view stored d s' = redis_view stored d s"
proof -
  let ?k = "stage_key d t"
  let ?a = "- (int (min hi redis_index_limit) + 1)" and ?b = "- (int (min lo redis_index_limit) + 1)"
  have "acts_as stored calm (execute srv ''LRANGE'' [Arg ?k, ArgInt ?a, ArgInt ?b])
      (\<lambda>m. (RArray (map RBulk (redis_range ?a ?b (m ?k))), m))"
    using inv unfolding redis_inv_def redis_ok_def by blast
  then obtain s' where s': "query_async srv reply_list (execute srv ''LRANGE'' [Arg ?k, ArgInt ?a, ArgInt ?b]) s =
      (Inr (redis_range ?a ?b (stored s ?k)), s')" "redis_inv srv stored calm d s'" "stored s' = stored s"
    using acts_as_request [where convert = reply_list and x = "redis_range ?a ?b (stored s ?k)", OF inv]
    by (fastforce simp: reply_elements_map)
  have "rev (redis_range ?a ?b (stored s ?k)) = range_of lo hi (lane_stage t (redis_view stored d s))"
    using redis_range_peek [OF le] len by (simp add: redis_stage_bytes)
  then show ?thesis using s'
    by (simp add: redis_peek_def Let_def bindE_def retE_def) (simp add: redis_view_def)
qed

interpretation redis_store: lane_store c "to_vec c" "redis_lane_id d" RedisReceipt
  "\<lambda>_. True" "redis_inv srv stored calm d" "redis_view stored d" "\<lambda>_. True"
  "redis_publish srv c d" "redis_dequeue srv c d wait"
  "redis_acknowledge srv d" "redis_move_claimed srv c d" "redis_recover srv d"
  "redis_lengths srv d" "redis_peek srv c d" "redis_republish_failed srv d" "redis_clear srv d"
  for c :: codec and srv :: "'s redis_server" and stored calm and d :: redis_driver and wait :: nat
  by unfold_locales (rule redis_lengths_law redis_peek_law redis_republish_law redis_clear_law; assumption)+

end
