(* ===== verification/QueueLane.thy ===== *)
theory QueueLane
  imports Queue FileAdmin RedisAdmin
begin

text \<open>
  A queue on either driver implements a lane whose receipts are those of the deliveries. The
  locale \<open>lane_queue\<close> is the contract of \<open>Queue\<close> towards the consumers, and its interpretation
  covers both drivers at once.
\<close>

section \<open>The lane of a queue\<close>

definition map_receipts :: "('a \<Rightarrow> 'b) \<Rightarrow> 'a lane \<Rightarrow> 'b lane" where
  "map_receipts f L = \<lparr>waiting = waiting L, running = map (apfst f) (running L), dead = dead L\<rparr>"

definition queue_inv ::
  "'s queue_deps \<Rightarrow> ('s \<Rightarrow> string \<Rightarrow> bytes list) \<Rightarrow> ('s \<Rightarrow> bool) \<Rightarrow> backend \<Rightarrow> 's stores \<Rightarrow> bool" where
  "queue_inv x stored calm q s =
     (case q of
        FileBackend st \<Rightarrow> file_inv st (files s)
      | RedisBackend d \<Rightarrow> redis_inv (redis_client x) stored calm d (server s))"

definition queue_view :: "('s \<Rightarrow> string \<Rightarrow> bytes list) \<Rightarrow> backend \<Rightarrow> 's stores \<Rightarrow> receipt lane" where
  "queue_view stored q s =
     (case q of
        FileBackend st \<Rightarrow> map_receipts FileReceipt (file_view st (files s))
      | RedisBackend d \<Rightarrow> map_receipts RedisReceipt (redis_view stored d (server s)))"

definition queue_enc :: "'s queue_deps \<Rightarrow> backend \<Rightarrow> command_envelope \<Rightarrow> dyn_error + bytes" where
  "queue_enc x q = (case q of FileBackend st \<Rightarrow> to_vec_pretty (json_codec x) | RedisBackend d \<Rightarrow> to_vec (json_codec x))"

definition queue_timely :: "nat \<Rightarrow> backend \<Rightarrow> 's stores \<Rightarrow> bool" where
  "queue_timely wait q s =
     (case q of FileBackend st \<Rightarrow> clock (files s) + int wait \<le> instant_max | RedisBackend d \<Rightarrow> True)"

fun queue_receipt :: "backend \<Rightarrow> receipt \<Rightarrow> bool" where
  "queue_receipt (FileBackend st) (FileReceipt n) = (\<not> is_hidden n)"
| "queue_receipt (RedisBackend d) (RedisReceipt b) = True"
| "queue_receipt _ _ = False"

lemma map_receipts_simps [simp]:
  "waiting (map_receipts f L) = waiting L" "dead (map_receipts f L) = dead L"
  "running (map_receipts f L) = map (apfst f) (running L)"
  by (simp_all add: map_receipts_def)

lemma receipts_map: "receipts (map_receipts f L) = f ` receipts L"
  by (simp add: receipts_def image_image)

lemma map_receipts_ops [simp]:
  "map_receipts f (lane_publish b L) = lane_publish b (map_receipts f L)"
  "map_receipts f (lane_skip c L) = lane_skip c (map_receipts f L)"
  "map_receipts f (lane_take k L) = lane_take (f k) (map_receipts f L)"
  "map_receipts f (lane_put t b L) = lane_put t b (map_receipts f L)"
  "map_receipts f (lane_recover L) = lane_recover (map_receipts f L)"
  "map_receipts f (lane_republish n L) = lane_republish n (map_receipts f L)"
  "map_receipts f (lane_clear t L) = lane_clear t (map_receipts f L)"
  "lane_lengths (map_receipts f L) = lane_lengths L" "lane_stage t (map_receipts f L) = lane_stage t L"
  by (auto simp: map_receipts_def lane_defs comp_def split: list.split stage.split)

lemma drop_first_map: "inj f \<Longrightarrow> drop_first (f k) (map (apfst f) xs) = map (apfst f) (drop_first k xs)"
  by (induction xs) (auto simp: inj_eq)

lemma map_receipts_drop [simp]:
  assumes "inj f"
  shows "map_receipts f (lane_drop k L) = lane_drop (f k) (map_receipts f L)"
  using drop_first_map [OF assms, of k "rev (running L)"]
  by (simp add: map_receipts_def lane_drop_def drop_last_def rev_map)

lemma inj_receipts [simp]: "inj FileReceipt" "inj RedisReceipt"
  by (auto intro: injI)

section \<open>The contract of a queue\<close>

locale lane_queue =
  fixes c :: codec
    and enc :: "command_envelope \<Rightarrow> dyn_error + bytes"
    and lane_id :: queue_lane
    and good :: "receipt \<Rightarrow> bool"
    and inv :: "'s \<Rightarrow> bool"
    and view :: "'s \<Rightarrow> receipt lane"
    and timely :: "'s \<Rightarrow> bool"
    and publish :: "command_envelope \<Rightarrow> 's \<Rightarrow> (queue_error + unit) \<times> 's"
    and dequeue :: "'s \<Rightarrow> ((queue_error + delivery option) \<times> 's) option"
    and acknowledge :: "delivery \<Rightarrow> 's \<Rightarrow> (settle_error + unit) \<times> 's"
    and move_claimed :: "delivery \<Rightarrow> stage \<Rightarrow> 's \<Rightarrow> (settle_error + unit) \<times> 's"
    and recover :: "'s \<Rightarrow> (queue_error + nat) \<times> 's"
  assumes publish_law: "inv s \<Longrightarrow> enc env = Inr b \<Longrightarrow>
      \<exists>s'. publish env s = (Inr (), s') \<and> inv s' \<and> view s' = lane_publish b (view s)"
    and dequeue_none: "inv s \<Longrightarrow> timely s \<Longrightarrow> waiting (lane_skip c (view s)) = [] \<Longrightarrow>
      \<exists>s'. dequeue s = Some (Inr None, s') \<and> inv s' \<and> view s' = lane_skip c (view s)"
    and dequeue_some: "inv s \<Longrightarrow> timely s \<Longrightarrow> waiting (lane_skip c (view s)) = b # bs \<Longrightarrow>
      from_slice c b = Inr env \<Longrightarrow>
      \<exists>k s'. dequeue s = Some (Inr (Some (new_delivery (count_attempt env) lane_id k)), s')
        \<and> good k \<and> inv s' \<and> view s' = lane_take k (lane_skip c (view s))"
    and acknowledge_law: "inv s \<Longrightarrow> delivery_lane d = lane_id \<Longrightarrow> good (delivery_receipt d) \<Longrightarrow>
      \<exists>s'. acknowledge d s =
          (if delivery_receipt d \<in> receipts (view s) then Inr () else Inl Lost, s')
        \<and> inv s' \<and> view s' = lane_drop (delivery_receipt d) (view s)"
    and move_law: "inv s \<Longrightarrow> delivery_lane d = lane_id \<Longrightarrow> good (delivery_receipt d) \<Longrightarrow>
      enc (envelope d) = Inr b \<Longrightarrow> t \<noteq> InProgress \<Longrightarrow>
      \<exists>s'. move_claimed d t s =
          (if delivery_receipt d \<in> receipts (view s) then Inr () else Inl Lost, s') \<and> inv s'
        \<and> view s' = (if delivery_receipt d \<in> receipts (view s)
            then lane_put t b (lane_drop (delivery_receipt d) (view s)) else view s)"
    and foreign_law: "delivery_lane d \<noteq> lane_id \<Longrightarrow>
      acknowledge d s = (Inl (Rejected d), s) \<and> move_claimed d t s = (Inl (Rejected d), s)"
    and recover_law: "inv s \<Longrightarrow> length (running (view s)) \<le> usize_max \<Longrightarrow>
      \<exists>s'. recover s = (Inr (length (running (view s))), s') \<and> inv s' \<and> view s' = lane_recover (view s)"
begin

text \<open>\<open>claims s b bs d s1\<close>: a dequeue claims the first readable message.\<close>

lemma dequeue_claims:
  assumes "inv s" "timely s" "waiting (lane_skip c (view s)) = b # bs"
  obtains env k s1 where "from_slice c b = Inr env"
    and "dequeue s = Some (Inr (Some (new_delivery (count_attempt env) lane_id k)), s1)"
    and "good k" "inv s1" "view s1 = lane_take k (lane_skip c (view s))"
    and "k \<in> receipts (view s1)" "lane_drop k (view s1) = (lane_skip c (view s))\<lparr>waiting := bs\<rparr>"
proof -
  have "\<not> unreadable c b"
    using assms(3) hd_dropWhile [of "unreadable c" "waiting (view s)"] by (simp add: lane_skip_def)
  then obtain env where env: "from_slice c b = Inr env"
    by (cases "from_slice c b") (auto simp: unreadable_def)
  obtain k s1 where s1: "dequeue s = Some (Inr (Some (new_delivery (count_attempt env) lane_id k)), s1)"
    "good k" "inv s1" "view s1 = lane_take k (lane_skip c (view s))"
    using dequeue_some [OF assms env] by blast
  have "k \<in> receipts (view s1)" unfolding s1(4) using assms(3) by (simp add: receipts_take)
  moreover have "lane_drop k (view s1) = (lane_skip c (view s))\<lparr>waiting := bs\<rparr>"
    unfolding s1(4) by (rule lane_drop_take [OF assms(3)])
  ultimately show thesis by (rule that [OF env s1])
qed

text \<open>A second settle of the same delivery finds nothing when the receipts are distinct.\<close>

lemma settle_twice:
  assumes "inv s" "delivery_lane d = lane_id" "good (delivery_receipt d)"
    and "distinct (map fst (running (view s)))"
  shows "\<exists>s1 s2 r. acknowledge d s = (r, s1) \<and> acknowledge d s1 = (Inl Lost, s2) \<and> view s2 = view s1"
proof -
  let ?k = "delivery_receipt d"
  obtain r s1 where s1: "acknowledge d s = (r, s1)" "inv s1" "view s1 = lane_drop ?k (view s)"
    using acknowledge_law [OF assms(1-3)] by blast
  have "?k \<notin> receipts (view s1)"
    unfolding s1(3) using drop_last_distinct [OF assms(4), of ?k] by (auto simp: lane_drop_def receipts_def)
  then show ?thesis using acknowledge_law [OF s1(2) assms(2,3)] s1(1) by auto
qed

end

section \<open>Both drivers meet it\<close>

lemma on_files_eq: "m (files s) = (r, w) \<Longrightarrow> on_files m s = (r, s\<lparr>files := w\<rparr>)"
  by (simp add: on_files_def)

lemma on_server_eq: "m (server s) = (r, v) \<Longrightarrow> on_server m s = (r, s\<lparr>server := v\<rparr>)"
  by (simp add: on_server_def)

lemmas queue_simps = queue_inv_def queue_view_def queue_enc_def queue_timely_def on_files_def
  on_server_def owns_def new_delivery_def inj_image_mem_iff receipts_map

lemma queue_publish_law:
  assumes "queue_inv x stored calm q s" "queue_enc x q env = Inr b"
  shows "\<exists>s'. queue_publish x q env s = (Inr (), s') \<and> queue_inv x stored calm q s'
    \<and> queue_view stored q s' = lane_publish b (queue_view stored q s)"
proof (cases q)
  case (FileBackend st)
  then obtain w where "store_publish (json_codec x) st env (files s) = (Inr (), w)" "file_inv st w"
    "file_view st w = lane_publish b (file_view st (files s))"
    using file_lane.publish_law [of st "files s" "json_codec x" env b] assms by (auto simp: queue_simps)
  then show ?thesis using FileBackend by (simp add: queue_publish_def queue_simps)
next
  case (RedisBackend d)
  then obtain v where "redis_publish (redis_client x) (json_codec x) d env (server s) = (Inr (), v)"
    "redis_inv (redis_client x) stored calm d v"
    "redis_view stored d v = lane_publish b (redis_view stored d (server s))"
    using redis_lane.publish_law [of "redis_client x" stored calm d "server s" "json_codec x" env b] assms
    by (auto simp: queue_simps)
  then show ?thesis using RedisBackend by (simp add: queue_publish_def queue_simps)
qed

lemma queue_dequeue_none:
  assumes "queue_inv x stored calm q s" "queue_timely wait q s"
    and "waiting (lane_skip (json_codec x) (queue_view stored q s)) = []"
  shows "\<exists>s'. queue_dequeue x q wait s = Some (Inr None, s') \<and> queue_inv x stored calm q s'
    \<and> queue_view stored q s' = lane_skip (json_codec x) (queue_view stored q s)"
proof (cases q)
  case (FileBackend st)
  then obtain w where "file_dequeue (json_codec x) st wait (files s) = Some (Inr None, w)" "file_inv st w"
    "file_view st w = lane_skip (json_codec x) (file_view st (files s))"
    using file_lane.claim_none [of st "files s" wait "json_codec x"] assms
    by (auto simp: queue_simps simp flip: map_receipts_ops)
  then show ?thesis using FileBackend by (simp add: queue_dequeue_def queue_simps)
next
  case (RedisBackend d)
  then obtain v where "redis_dequeue (redis_client x) (json_codec x) d wait (server s) = Some (Inr None, v)"
    "redis_inv (redis_client x) stored calm d v"
    "redis_view stored d v = lane_skip (json_codec x) (redis_view stored d (server s))"
    using redis_lane.claim_none [of "redis_client x" stored calm d "server s" "json_codec x" wait] assms
    by (auto simp: queue_simps simp flip: map_receipts_ops)
  then show ?thesis using RedisBackend by (simp add: queue_dequeue_def queue_simps)
qed

lemma queue_dequeue_some:
  assumes "queue_inv x stored calm q s" "queue_timely wait q s"
    and "waiting (lane_skip (json_codec x) (queue_view stored q s)) = b # bs"
    and "from_slice (json_codec x) b = Inr env"
  shows "\<exists>k s'. queue_dequeue x q wait s =
      Some (Inr (Some (new_delivery (count_attempt env) (queue_lane_of q) k)), s')
    \<and> queue_receipt q k \<and> queue_inv x stored calm q s'
    \<and> queue_view stored q s' = lane_take k (lane_skip (json_codec x) (queue_view stored q s))"
proof (cases q)
  case (FileBackend st)
  then obtain k w where "file_dequeue (json_codec x) st wait (files s) =
      Some (Inr (Some (new_delivery (count_attempt env) (store_lane st) (FileReceipt k))), w)"
    "\<not> is_hidden k" "file_inv st w"
    "file_view st w = lane_take k (lane_skip (json_codec x) (file_view st (files s)))"
    using file_lane.claim_some [of st "files s" wait "json_codec x" b bs env] assms
    by (auto simp: queue_simps simp flip: map_receipts_ops)
  then show ?thesis using FileBackend
    by (intro exI [of _ "FileReceipt k"]) (simp add: queue_dequeue_def queue_simps)
next
  case (RedisBackend d)
  then obtain k v where "redis_dequeue (redis_client x) (json_codec x) d wait (server s) =
      Some (Inr (Some (new_delivery (count_attempt env) (redis_lane_id d) (RedisReceipt k))), v)"
    "redis_inv (redis_client x) stored calm d v"
    "redis_view stored d v = lane_take k (lane_skip (json_codec x) (redis_view stored d (server s)))"
    using redis_lane.claim_some [of "redis_client x" stored calm d "server s" "json_codec x" b bs env wait] assms
    by (auto simp: queue_simps simp flip: map_receipts_ops)
  then show ?thesis using RedisBackend
    by (intro exI [of _ "RedisReceipt k"]) (simp add: queue_dequeue_def queue_simps)
qed

lemma queue_acknowledge_law:
  assumes "queue_inv x stored calm q s" "delivery_lane dl = queue_lane_of q" "queue_receipt q (delivery_receipt dl)"
  shows "\<exists>s'. queue_acknowledge x q dl s =
      (if delivery_receipt dl \<in> receipts (queue_view stored q s) then Inr () else Inl Lost, s')
    \<and> queue_inv x stored calm q s'
    \<and> queue_view stored q s' = lane_drop (delivery_receipt dl) (queue_view stored q s)"
  using assms(3)
proof (cases rule: queue_receipt.elims(2))
  case (1 st n)
  then obtain w where "store_acknowledge st n (files s) = (Inr (n \<in> receipts (file_view st (files s))), w)"
    "file_inv st w" "file_view st w = lane_drop n (file_view st (files s))"
    using file_lane.acknowledge_law [of st "files s" n] assms by (auto simp: queue_simps)
  then show ?thesis using 1 assms(2) by (simp add: queue_acknowledge_def queue_simps)
next
  case (2 d b)
  then obtain v where "redis_acknowledge (redis_client x) d b (server s) =
      (Inr (b \<in> receipts (redis_view stored d (server s))), v)" "redis_inv (redis_client x) stored calm d v"
    "redis_view stored d v = lane_drop b (redis_view stored d (server s))"
    using redis_lane.acknowledge_law [of "redis_client x" stored calm d "server s" b] assms
    by (auto simp: queue_simps)
  then show ?thesis using 2 assms(2) by (simp add: queue_acknowledge_def queue_simps)
qed

lemma queue_move_law:
  assumes "queue_inv x stored calm q s" "delivery_lane dl = queue_lane_of q" "queue_receipt q (delivery_receipt dl)"
    and "queue_enc x q (envelope dl) = Inr b'" "t \<noteq> InProgress"
  shows "\<exists>s'. queue_move_claimed x q dl t s =
      (if delivery_receipt dl \<in> receipts (queue_view stored q s) then Inr () else Inl Lost, s')
    \<and> queue_inv x stored calm q s'
    \<and> queue_view stored q s' = (if delivery_receipt dl \<in> receipts (queue_view stored q s)
        then lane_put t b' (lane_drop (delivery_receipt dl) (queue_view stored q s))
        else queue_view stored q s)"
  using assms(3)
proof (cases rule: queue_receipt.elims(2))
  case (1 st n)
  then obtain w where "store_move_claimed (json_codec x) st n (envelope dl) t (files s) =
      (Inr (n \<in> receipts (file_view st (files s))), w)" "file_inv st w"
    "file_view st w = (if n \<in> receipts (file_view st (files s))
       then lane_put t b' (lane_drop n (file_view st (files s))) else file_view st (files s))"
    using file_lane.move_law [of st "files s" n "json_codec x" "envelope dl" b' t] assms
    by (auto simp: queue_simps)
  then show ?thesis using 1 assms(2) by (simp add: queue_move_claimed_def queue_simps)
next
  case (2 d b)
  then obtain v where "redis_move_claimed (redis_client x) (json_codec x) d b (envelope dl) t (server s) =
      (Inr (b \<in> receipts (redis_view stored d (server s))), v)" "redis_inv (redis_client x) stored calm d v"
    "redis_view stored d v = (if b \<in> receipts (redis_view stored d (server s))
       then lane_put t b' (lane_drop b (redis_view stored d (server s))) else redis_view stored d (server s))"
    using redis_lane.move_law [of "redis_client x" stored calm d "server s" "json_codec x" "envelope dl" b' t b] assms
    by (auto simp: queue_simps)
  then show ?thesis using 2 assms(2) by (simp add: queue_move_claimed_def queue_simps)
qed

lemma queue_foreign:
  assumes "delivery_lane d \<noteq> queue_lane_of q"
  shows "queue_acknowledge x q d s = (Inl (Rejected d), s)"
    and "queue_move_claimed x q d t s = (Inl (Rejected d), s)"
  using assms
  by (auto simp: queue_acknowledge_def queue_move_claimed_def owns_def split: backend.split receipt.split)

lemma queue_recover_law:
  assumes "queue_inv x stored calm q s" "length (running (queue_view stored q s)) \<le> usize_max"
  shows "\<exists>s'. queue_recover x q s = (Inr (length (running (queue_view stored q s))), s')
    \<and> queue_inv x stored calm q s' \<and> queue_view stored q s' = lane_recover (queue_view stored q s)"
proof (cases q)
  case (FileBackend st)
  then obtain w where "store_recover st (files s) = (Inr (length (running (file_view st (files s)))), w)"
    "file_inv st w" "file_view st w = lane_recover (file_view st (files s))"
    using file_lane.recover_law [of st "files s"] assms by (auto simp: queue_simps)
  then show ?thesis using FileBackend by (simp add: queue_recover_def queue_simps)
next
  case (RedisBackend d)
  then obtain v where "redis_recover (redis_client x) d (server s) =
      (Inr (length (running (redis_view stored d (server s)))), v)" "redis_inv (redis_client x) stored calm d v"
    "redis_view stored d v = lane_recover (redis_view stored d (server s))"
    using redis_lane.recover_law [of "redis_client x" stored calm d "server s"] assms
    by (auto simp: queue_simps)
  then show ?thesis using RedisBackend by (simp add: queue_recover_def queue_simps)
qed

interpretation lane_of_queue: lane_queue "json_codec x" "queue_enc x q" "queue_lane_of q" "queue_receipt q"
  "queue_inv x stored calm q" "queue_view stored q" "queue_timely wait q" "queue_publish x q"
  "queue_dequeue x q wait" "queue_acknowledge x q" "queue_move_claimed x q" "queue_recover x q"
  for x :: "'s queue_deps" and stored calm and q :: backend and wait :: nat
proof unfold_locales
  fix d :: delivery and s :: "'s stores" and t
  assume "delivery_lane d \<noteq> queue_lane_of q"
  then show "queue_acknowledge x q d s = (Inl (Rejected d), s)
      \<and> queue_move_claimed x q d t s = (Inl (Rejected d), s)"
    using queue_foreign by blast
qed (rule queue_publish_law queue_dequeue_none queue_dequeue_some queue_acknowledge_law queue_move_law
    queue_recover_law; assumption)+

end
