(* ===== verification/Config.thy ===== *)
theory Config
  imports Queue
begin

text \<open>
  The configuration (\<open>src/inengine-core/src/config/\<close>): the specs with their defaults and
  constraints, validation, and lowering to settings. Parsing TOML and rendering reports belong to
  the confval crate; the checks that its derive macros generate from the attributes of the specs
  are part of the model, with the issues they emit as constructors. Spans are field names.
\<close>

section \<open>Keywords and constraints\<close>

datatype mail_encryption = Plain | StartTls | Tls

fun driver_keyword :: "string \<Rightarrow> queue_driver option" where
  "driver_keyword s = (if s = ''redis'' then Some RedisDriver else if s = ''file'' then Some FileDriver else None)"

fun encryption_keyword :: "string \<Rightarrow> mail_encryption option" where
  "encryption_keyword s =
     (if s = ''none'' then Some Plain else if s = ''starttls'' then Some StartTls
      else if s = ''tls'' then Some Tls else None)"

type_synonym range_constraint = "int \<times> int"

definition PORT :: range_constraint where "PORT = (1, 65535)"
definition CONSUMERS :: range_constraint where "CONSUMERS = (0, 1024)"
definition MAX_RETRIES :: range_constraint where "MAX_RETRIES = (0, 100)"
definition REDIS_DATABASE :: range_constraint where "REDIS_DATABASE = (0, 255)"
definition PLUGIN_TIMEOUT_SECONDS :: range_constraint where "PLUGIN_TIMEOUT_SECONDS = (1, 86400)"
definition PLUGIN_MEMORY_MIB :: range_constraint where "PLUGIN_MEMORY_MIB = (16, 4096)"
definition HOSTNAME_LEN :: "nat \<times> nat" where "HOSTNAME_LEN = (1, 253)"
definition PATH_LEN :: "nat \<times> nat" where "PATH_LEN = (1, 4096)"

text \<open>\<open>char::is_ascii_alphanumeric\<close>. A byte of a multi-byte character is not ASCII.\<close>

definition is_ascii_alphanumeric :: "char \<Rightarrow> bool" where
  "is_ascii_alphanumeric c =
     (let n = (of_char c :: nat)
      in 48 \<le> n \<and> n \<le> 57 \<or> 65 \<le> n \<and> n \<le> 90 \<or> 97 \<le> n \<and> n \<le> 122)"

definition queue_name_check :: "string \<Rightarrow> bool" where
  "queue_name_check value =
     (value \<noteq> [] \<and> (\<forall>c \<in> set value. is_ascii_alphanumeric c \<or> c = CHR ''_'' \<or> c = CHR ''-''))"

section \<open>Specs\<close>

record mail_spec =
  ms_host :: string
  ms_port :: int
  ms_from :: string
  ms_username :: string
  ms_password :: string
  ms_encryption :: string

record redis_spec =
  rs_host :: string
  rs_port :: int
  rs_database :: int
  rs_password :: string

record file_spec =
  fs_base_path :: string

record queue_spec =
  qs_use_compression :: bool
  qs_primary_consumers :: int
  qs_secondary_consumers :: int
  qs_queue_driver :: string
  qs_queue_name :: string
  qs_max_retries :: int
  qs_recover_on_start :: bool
  qs_redis :: redis_spec
  qs_file :: file_spec

record plugin_limits_spec =
  ls_timeout_seconds :: int
  ls_memory_mib :: int

text \<open>A \<open>BTreeMap\<close> is an association list in key order.\<close>

record settings_spec =
  ss_plugins :: "(string \<times> string) list"
  ss_exec_whitelist :: "(string \<times> string) list"
  ss_mail :: mail_spec
  ss_queue :: queue_spec
  ss_plugin_limits :: plugin_limits_spec

definition default_mail_spec :: mail_spec where
  "default_mail_spec =
     \<lparr>ms_host = ''localhost'', ms_port = 25, ms_from = [], ms_username = [], ms_password = [],
      ms_encryption = ''none''\<rparr>"

definition default_redis_spec :: redis_spec where
  "default_redis_spec = \<lparr>rs_host = ''127.0.0.1'', rs_port = 6379, rs_database = 0, rs_password = []\<rparr>"

definition default_file_spec :: file_spec where
  "default_file_spec = \<lparr>fs_base_path = ''../''\<rparr>"

definition default_queue_spec :: queue_spec where
  "default_queue_spec =
     \<lparr>qs_use_compression = False, qs_primary_consumers = 8, qs_secondary_consumers = 8,
      qs_queue_driver = ''file'', qs_queue_name = ''InEngineQueue'', qs_max_retries = 0,
      qs_recover_on_start = False, qs_redis = default_redis_spec, qs_file = default_file_spec\<rparr>"

definition default_plugin_limits_spec :: plugin_limits_spec where
  "default_plugin_limits_spec = \<lparr>ls_timeout_seconds = 900, ls_memory_mib = 256\<rparr>"

definition default_settings_spec :: settings_spec where
  "default_settings_spec =
     \<lparr>ss_plugins = [], ss_exec_whitelist = [], ss_mail = default_mail_spec,
      ss_queue = default_queue_spec, ss_plugin_limits = default_plugin_limits_spec\<rparr>"

section \<open>Reports\<close>

datatype issue =
    RangeError string int
  | LengthError string nat
  | FormatError string
  | KeywordError string
  | NarrowError string
  | ReportedError string string
  | ReportedWarning string string

fun is_error :: "issue \<Rightarrow> bool" where
  "is_error (ReportedWarning t at) = False"
| "is_error _ = True"

type_synonym report = "issue list"

definition has_errors :: "report \<Rightarrow> bool" where
  "has_errors r = (\<exists>i \<in> set r. is_error i)"

text \<open>The generated checks of one field. \<open>char_count\<close> is the length that confval measures.\<close>

definition check_range :: "string \<Rightarrow> range_constraint \<Rightarrow> int \<Rightarrow> report" where
  "check_range name r v = (if fst r \<le> v \<and> v \<le> snd r then [] else [RangeError name v])"

definition check_length :: "(string \<Rightarrow> nat) \<Rightarrow> string \<Rightarrow> nat \<times> nat \<Rightarrow> string \<Rightarrow> report" where
  "check_length char_count name r v =
     (if fst r \<le> char_count v \<and> char_count v \<le> snd r then [] else [LengthError name (char_count v)])"

definition check_keyword :: "string \<Rightarrow> (string \<Rightarrow> 'k option) \<Rightarrow> string \<Rightarrow> report" where
  "check_keyword name kw v = (if kw v = None then [KeywordError name] else [])"

section \<open>Parsing an IP address\<close>

text \<open>
  \<open>str::parse::<IpAddr>\<close> of the standard library: a parser returns what it read and the rest.
  An IPv4 address is four decimal numbers up to 255 without leading zeros; an IPv6 address is
  eight groups of up to four hexadecimal digits, with one run of zero groups as \<open>::\<close>, and the last
  two groups possibly as an IPv4 address.
\<close>

definition digit_value :: "nat \<Rightarrow> char \<Rightarrow> nat option" where
  "digit_value radix c =
     (let n = of_char c :: nat;
          d = (if 48 \<le> n \<and> n \<le> 57 then n - 48 else if 97 \<le> n \<and> n \<le> 102 then n - 87
               else if 65 \<le> n \<and> n \<le> 70 then n - 55 else radix)
      in if d < radix then Some d else None)"

fun read_digits :: "nat \<Rightarrow> string \<Rightarrow> nat list \<times> string" where
  "read_digits radix [] = ([], [])"
| "read_digits radix (c # cs) =
     (case digit_value radix c of
        None \<Rightarrow> ([], c # cs)
      | Some d \<Rightarrow> (case read_digits radix cs of (ds, rest) \<Rightarrow> (d # ds, rest)))"

definition read_number :: "nat \<Rightarrow> nat \<Rightarrow> bool \<Rightarrow> nat \<Rightarrow> string \<Rightarrow> (nat \<times> string) option" where
  "read_number radix max_digits allow_zero_prefix bound s =
     (case read_digits radix s of (ds, rest) \<Rightarrow>
        if ds = [] \<or> length ds > max_digits \<or> (\<not> allow_zero_prefix \<and> length ds > 1 \<and> hd ds = 0) then None
        else let v = foldl (\<lambda>a d. a * radix + d) 0 ds in if v \<le> bound then Some (v, rest) else None)"

definition read_char :: "char \<Rightarrow> string \<Rightarrow> string option" where
  "read_char c s = (case s of x # xs \<Rightarrow> if x = c then Some xs else None | [] \<Rightarrow> None)"

fun read_octets :: "nat \<Rightarrow> string \<Rightarrow> (nat list \<times> string) option" where
  "read_octets 0 s = Some ([], s)"
| "read_octets (Suc k) s =
     Option.bind (read_number 10 3 False 255 s) (\<lambda>(v, rest).
     Option.bind (if k = 0 then Some rest else read_char CHR ''.'' rest) (\<lambda>rest.
     Option.bind (read_octets k rest) (\<lambda>(vs, rest). Some (v # vs, rest))))"

definition read_separated :: "nat \<Rightarrow> (string \<Rightarrow> 'a option) \<Rightarrow> string \<Rightarrow> 'a option" where
  "read_separated i p s = Option.bind (if i = 0 then Some s else read_char CHR '':'' s) p"

text \<open>\<open>read_groups i limit\<close>: the groups from index \<open>i\<close>, whether they end in an IPv4 part, the rest.\<close>

function read_groups :: "nat \<Rightarrow> nat \<Rightarrow> string \<Rightarrow> nat list \<times> bool \<times> string" where
  "read_groups i limit s =
     (if limit \<le> i then ([], False, s)
      else case (if Suc i < limit then read_separated i (read_octets 4) s else None) of
          Some (vs, rest) \<Rightarrow> ([vs ! 0 * 256 + vs ! 1, vs ! 2 * 256 + vs ! 3], True, rest)
        | None \<Rightarrow>
            (case read_separated i (read_number 16 4 True 65535) s of
               None \<Rightarrow> ([], False, s)
             | Some (v, rest) \<Rightarrow>
                 (case read_groups (Suc i) limit rest of (vs, v4, rest) \<Rightarrow> (v # vs, v4, rest))))"
  by pat_completeness auto
termination by (relation "measure (\<lambda>(i, limit, s). limit - i)") auto

declare read_groups.simps [simp del]

definition read_ipv6 :: "string \<Rightarrow> (nat list \<times> string) option" where
  "read_ipv6 s =
     (case read_groups 0 8 s of (head, v4, rest) \<Rightarrow>
        if length head = 8 then Some (head, rest)
        else if v4 then None
        else Option.bind (read_char CHR '':'' rest) (\<lambda>rest.
             Option.bind (read_char CHR '':'' rest) (\<lambda>rest.
               case read_groups 0 (8 - Suc (length head)) rest of (tail, _, rest) \<Rightarrow>
                 Some (head @ replicate (8 - length head - length tail) 0 @ tail, rest))))"

datatype ip_addr = IpV4 "nat list" | IpV6 "nat list"

definition parse_ip :: "string \<Rightarrow> ip_addr option" where
  "parse_ip s =
     (case read_octets 4 s of
        Some (vs, rest) \<Rightarrow> if rest = [] then Some (IpV4 vs) else None
      | None \<Rightarrow> (case read_ipv6 s of
                    Some (vs, rest) \<Rightarrow> if rest = [] then Some (IpV6 vs) else None
                  | None \<Rightarrow> None))"

fun is_loopback :: "ip_addr \<Rightarrow> bool" where
  "is_loopback (IpV4 vs) = (hd vs = 127)"
| "is_loopback (IpV6 vs) = (vs = [0, 0, 0, 0, 0, 0, 0, 1])"

definition ascii_lower :: "char \<Rightarrow> char" where
  "ascii_lower c = (let n = of_char c :: nat in if 65 \<le> n \<and> n \<le> 90 then char_of (n + 32) else c)"

definition is_loopback_host :: "string \<Rightarrow> bool" where
  "is_loopback_host host =
     (map ascii_lower host = ''localhost''
      \<or> (case parse_ip host of Some address \<Rightarrow> is_loopback address | None \<Rightarrow> False))"

section \<open>Validation\<close>

text \<open>
  What validation asks of other code: whether lettre parses an address as a mailbox, whether a path
  exists, and the length of a text as confval counts it.
\<close>

record config_env =
  mailbox_ok :: "string \<Rightarrow> bool"
  path_there :: "string \<Rightarrow> bool"
  char_count :: "string \<Rightarrow> nat"

definition quoted :: "string \<Rightarrow> string" where
  "quoted s = [CHR 0x22] @ s @ [CHR 0x22]"

definition check_path_entry :: "config_env \<Rightarrow> string \<Rightarrow> string \<Rightarrow> report" where
  "check_path_entry x label path =
     (if trim path = [] then [ReportedError (label @ '' has an empty path'') label]
      else if \<not> path_there x path
      then [ReportedWarning (label @ '' points to '' @ [CHR 0x22] @ path @ [CHR 0x22] @ '', which does not exist'') label]
      else [])"

definition REDIS_DEFAULT_DATABASES :: int where
  "REDIS_DEFAULT_DATABASES = 16"

definition validate_settings :: "config_env \<Rightarrow> settings_spec \<Rightarrow> report" where
  "validate_settings x spec =
     concat (map (\<lambda>(name, dir).
         (if name = BUILTIN_PLUGIN_NAME
          then [ReportedError (''the plugin name '' @ [CHR 0x27] @ BUILTIN_PLUGIN_NAME
                  @ [CHR 0x27] @ '' is reserved for built-in commands'') name]
          else []) @ check_path_entry x (''plugin '' @ [CHR 0x22] @ name @ [CHR 0x22]) dir) (ss_plugins spec))
     @ concat (map (\<lambda>(name, path). check_path_entry x (''exec whitelist entry '' @ [CHR 0x22] @ name @ [CHR 0x22]) path)
         (ss_exec_whitelist spec))"

definition check_encryption :: "mail_spec \<Rightarrow> bool \<Rightarrow> report" where
  "check_encryption spec has_username =
     (case encryption_keyword (ms_encryption spec) of
        None \<Rightarrow> []
      | Some encryption \<Rightarrow>
          if encryption = Plain \<and> has_username \<and> \<not> is_loopback_host (ms_host spec)
          then [ReportedError ''the mail password would cross the network in plain text'' ''username'']
          else if encryption = Tls \<and> (ms_port spec = 25 \<or> ms_port spec = 587)
          then [ReportedWarning (''mail port '' @ show_nat (nat (ms_port spec)) @ '' usually expects '' @ quoted ''starttls''
                  @ '' or '' @ quoted ''none'' @ '', not '' @ quoted ''tls'') ''port'']
          else if encryption = StartTls \<and> ms_port spec = 465
          then [ReportedWarning (''mail port 465 usually expects '' @ quoted ''tls'' @ '', not '' @ quoted ''starttls'') ''port'']
          else [])"

definition validate_mail :: "config_env \<Rightarrow> mail_spec \<Rightarrow> report" where
  "validate_mail x spec =
     (let has_username = ms_username spec \<noteq> []; has_password = ms_password spec \<noteq> [] in
      (if ms_from spec \<noteq> [] \<and> \<not> mailbox_ok x (ms_from spec)
       then [ReportedError ([CHR 0x22] @ ms_from spec @ [CHR 0x22] @ '' is not a valid sender address'') ''from''] else [])
      @ (if has_username \<and> \<not> has_password
         then [ReportedWarning ''a mail user name is set without a password'' ''username''] else [])
      @ (if has_password \<and> \<not> has_username
         then [ReportedWarning ''the mail password is ignored because no user name is set'' ''password'']
         else [])
      @ check_encryption spec has_username)"

definition validate_queue :: "queue_spec \<Rightarrow> report" where
  "validate_queue spec =
     (if qs_primary_consumers spec = 0 \<and> qs_secondary_consumers spec = 0
      then [ReportedWarning ''the server starts no queue consumers'' ''primary_queue_consumers''] else [])"

definition validate_redis :: "redis_spec \<Rightarrow> report" where
  "validate_redis spec =
     (if rs_database spec \<ge> REDIS_DEFAULT_DATABASES
      then [ReportedWarning (''database '' @ show_nat (nat (rs_database spec))
              @ '' is outside the 16 databases a default Redis server provides'')
              ''database'']
      else [])"

text \<open>The generated checks of the \<open>range\<close>, \<open>length\<close>, \<open>format\<close> and \<open>keywords\<close> attributes.\<close>

definition mail_constraints :: "config_env \<Rightarrow> mail_spec \<Rightarrow> report" where
  "mail_constraints x spec =
     check_length (char_count x) ''mail.host'' HOSTNAME_LEN (ms_host spec)
     @ check_range ''mail.port'' PORT (ms_port spec)
     @ check_keyword ''mail.encryption'' encryption_keyword (ms_encryption spec)"

definition redis_constraints :: "config_env \<Rightarrow> redis_spec \<Rightarrow> report" where
  "redis_constraints x spec =
     check_length (char_count x) ''redis.host'' HOSTNAME_LEN (rs_host spec)
     @ check_range ''redis.port'' PORT (rs_port spec)
     @ check_range ''redis.database'' REDIS_DATABASE (rs_database spec)"

definition queue_constraints :: "config_env \<Rightarrow> queue_spec \<Rightarrow> report" where
  "queue_constraints x spec =
     check_range ''primary_queue_consumers'' CONSUMERS (qs_primary_consumers spec)
     @ check_range ''secondary_queue_consumers'' CONSUMERS (qs_secondary_consumers spec)
     @ check_keyword ''queue_driver'' driver_keyword (qs_queue_driver spec)
     @ (if queue_name_check (qs_queue_name spec) then [] else [FormatError ''queue_name''])
     @ check_range ''max_retries'' MAX_RETRIES (qs_max_retries spec)
     @ redis_constraints x (qs_redis spec)
     @ check_length (char_count x) ''base_path'' PATH_LEN (fs_base_path (qs_file spec))"

definition limits_constraints :: "plugin_limits_spec \<Rightarrow> report" where
  "limits_constraints spec =
     check_range ''timeout_seconds'' PLUGIN_TIMEOUT_SECONDS (ls_timeout_seconds spec)
     @ check_range ''memory_mib'' PLUGIN_MEMORY_MIB (ls_memory_mib spec)"

definition validate_all :: "config_env \<Rightarrow> settings_spec \<Rightarrow> report" where
  "validate_all x spec =
     mail_constraints x (ss_mail spec) @ validate_mail x (ss_mail spec)
     @ queue_constraints x (ss_queue spec) @ validate_redis (qs_redis (ss_queue spec))
     @ validate_queue (ss_queue spec) @ limits_constraints (ss_plugin_limits spec)
     @ validate_settings x spec"

section \<open>Settings\<close>

record mail_settings =
  mail_host :: string
  mail_port :: u16
  mail_from :: string
  mail_username :: string
  mail_password :: string
  mail_encryption :: mail_encryption

record redis_settings =
  redis_host :: string
  redis_port :: u16
  redis_database :: u8
  redis_password :: string

record queue_settings =
  use_compression :: bool
  primary_queue_consumers :: nat
  secondary_queue_consumers :: nat
  queue_driver_of :: queue_driver
  queue_name :: string
  queue_max_retries :: u32
  recover_on_start :: bool
  redis_config :: redis_settings
  base_path :: string

text \<open>What \<open>connection_info\<close> hands to the Redis client.\<close>

record redis_connection =
  connection_host :: string
  connection_port :: u16
  connection_db :: int
  connection_password :: "string option"

definition connection_info :: "redis_settings \<Rightarrow> redis_connection" where
  "connection_info st =
     \<lparr>connection_host = redis_host st, connection_port = redis_port st, connection_db = uint (redis_database st),
      connection_password = (if redis_password st \<noteq> [] then Some (redis_password st) else None)\<rparr>"

text \<open>The time limit is in nanoseconds.\<close>

record plugin_limits_settings =
  limit_timeout :: nat
  memory_bytes :: nat

record settings =
  plugin_dirs :: "string \<rightharpoonup> string"
  exec_whitelist :: "string \<rightharpoonup> string"
  mail :: mail_settings
  queue_config :: queue_settings
  plugin_limits :: plugin_limits_settings

definition BYTES_PER_MIB :: nat where
  "BYTES_PER_MIB = 1024 * 1024"

definition default_plugin_limits :: plugin_limits_settings where
  "default_plugin_limits = \<lparr>limit_timeout = 900 * 1000000000, memory_bytes = 256 * BYTES_PER_MIB\<rparr>"

text \<open>The narrowings of \<open>i64\<close>: a value out of range is an error, \<open>a validation rule is missing\<close>.\<close>

definition narrow :: "string \<Rightarrow> int \<Rightarrow> int \<Rightarrow> report" where
  "narrow name bound v = (if 0 \<le> v \<and> v \<le> bound then [] else [NarrowError name])"

definition mib_to_bytes :: "int \<Rightarrow> report + nat" where
  "mib_to_bytes v =
     (if narrow ''memory_mib'' (int usize_max) v \<noteq> [] then Inl (narrow ''memory_mib'' (int usize_max) v)
      else let mib = nat v
           in if mib * BYTES_PER_MIB \<le> usize_max then Inr (mib * BYTES_PER_MIB)
              else Inl [NarrowError ''memory_mib''])"

definition i64_to_u8 :: "string \<Rightarrow> int \<Rightarrow> report + u8" where
  "i64_to_u8 name v =
     (if 0 \<le> v \<and> v \<le> 255 then Inr (word_of_int v) else Inl [NarrowError name])"

definition narrow_report :: "settings_spec \<Rightarrow> report" where
  "narrow_report spec =
     (let m = ss_mail spec; q = ss_queue spec; l = ss_plugin_limits spec in
      narrow ''mail.port'' 65535 (ms_port m)
      @ check_keyword ''mail.encryption'' encryption_keyword (ms_encryption m)
      @ narrow ''primary_queue_consumers'' (int usize_max) (qs_primary_consumers q)
      @ narrow ''secondary_queue_consumers'' (int usize_max) (qs_secondary_consumers q)
      @ check_keyword ''queue_driver'' driver_keyword (qs_queue_driver q)
      @ narrow ''max_retries'' 4294967295 (qs_max_retries q)
      @ narrow ''redis.port'' 65535 (rs_port (qs_redis q))
      @ (case i64_to_u8 ''redis.database'' (rs_database (qs_redis q)) of Inl r \<Rightarrow> r | Inr _ \<Rightarrow> [])
      @ narrow ''timeout_seconds'' 18446744073709551615 (ls_timeout_seconds l)
      @ (case mib_to_bytes (ls_memory_mib l) of Inl r \<Rightarrow> r | Inr _ \<Rightarrow> []))"

text \<open>\<open>Settings::lower\<close> lowers every field and reports each failure.\<close>

definition lower :: "settings_spec \<Rightarrow> settings option \<times> report" where
  "lower spec =
     (let m = ss_mail spec; q = ss_queue spec; l = ss_plugin_limits spec; report = narrow_report spec in
      if report \<noteq> [] then (None, report)
      else (Some
        \<lparr>plugin_dirs = map_of (ss_plugins spec), exec_whitelist = map_of (ss_exec_whitelist spec),
         mail = \<lparr>mail_host = ms_host m, mail_port = word_of_int (ms_port m), mail_from = ms_from m,
           mail_username = ms_username m, mail_password = ms_password m,
           mail_encryption = the (encryption_keyword (ms_encryption m))\<rparr>,
         queue_config = \<lparr>use_compression = qs_use_compression q,
           primary_queue_consumers = nat (qs_primary_consumers q),
           secondary_queue_consumers = nat (qs_secondary_consumers q),
           queue_driver_of = the (driver_keyword (qs_queue_driver q)),
           queue_name = qs_queue_name q, queue_max_retries = word_of_int (qs_max_retries q),
           recover_on_start = qs_recover_on_start q,
           redis_config = \<lparr>redis_host = rs_host (qs_redis q),
             redis_port = word_of_int (rs_port (qs_redis q)),
             redis_database = word_of_int (rs_database (qs_redis q)),
             redis_password = rs_password (qs_redis q)\<rparr>,
           base_path = fs_base_path (qs_file q)\<rparr>,
         plugin_limits = \<lparr>limit_timeout = nat (ls_timeout_seconds l) * 1000000000,
           memory_bytes = nat (ls_memory_mib l) * BYTES_PER_MIB\<rparr>\<rparr>, []))"

text \<open>
  \<open>load\<close> and \<open>Settings::load\<close>: \<open>read_to_string\<close> reads the file and \<open>parse_toml\<close> is confval's parser.
\<close>

definition check_and_lower :: "config_env \<Rightarrow> settings_spec \<Rightarrow> report \<Rightarrow> settings option \<times> report" where
  "check_and_lower x spec report =
     (let report = report @ validate_all x spec
      in if has_errors report then (None, report)
         else case lower spec of (settings, r) \<Rightarrow> (settings, report @ r))"

definition from_text ::
  "config_env \<Rightarrow> (string \<Rightarrow> settings_spec option \<times> report) \<Rightarrow> string \<Rightarrow> settings option \<times> report" where
  "from_text x parse_toml txt =
     (case parse_toml txt of
        (None, report) \<Rightarrow> (None, report)
      | (Some spec, report) \<Rightarrow> check_and_lower x spec report)"

definition from_spec :: "config_env \<Rightarrow> settings_spec \<Rightarrow> settings option \<times> report" where
  "from_spec x spec = check_and_lower x spec []"

definition load_config ::
  "config_env \<Rightarrow> (string \<Rightarrow> io_error + string) \<Rightarrow> (string \<Rightarrow> settings_spec option \<times> report) \<Rightarrow> string
     \<Rightarrow> config_error + settings option \<times> report" where
  "load_config x read_to_string parse_toml path =
     (case read_to_string path of
        Inl e \<Rightarrow> Inl (if io_kind e = NotFound then FileNotFound path else ConfigIo path e)
      | Inr txt \<Rightarrow> Inr (from_text x parse_toml txt))"

text \<open>The renderings of a report: confval writes the text, or fails.\<close>

record report_writer =
  write_plain :: "report \<Rightarrow> dyn_error + string"
  write_pretty :: "report \<Rightarrow> dyn_error + string"

definition rendered :: "dyn_error + string \<Rightarrow> string" where
  "rendered out =
     (case out of Inr txt \<Rightarrow> txt | Inl error \<Rightarrow> ''could not render the configuration report: '' @ err_text error)"

definition render_plain :: "report_writer \<Rightarrow> report \<Rightarrow> string" where
  "render_plain w report = rendered (write_plain w report)"

definition render_pretty :: "report_writer \<Rightarrow> report \<Rightarrow> string" where
  "render_pretty w report = rendered (write_pretty w report)"

definition settings_load ::
  "config_env \<Rightarrow> (string \<Rightarrow> io_error + string) \<Rightarrow> (string \<Rightarrow> settings_spec option \<times> report)
     \<Rightarrow> report_writer \<Rightarrow> string \<Rightarrow> config_error + settings" where
  "settings_load x read_to_string parse_toml w path =
     (case load_config x read_to_string parse_toml path of
        Inl e \<Rightarrow> Inl e
      | Inr (Some settings, report) \<Rightarrow> Inr settings
      | Inr (None, report) \<Rightarrow> Inl (Invalid (render_plain w report)))"

section \<open>Facts\<close>

lemma has_errors_append [simp]: "has_errors (r @ r') \<longleftrightarrow> has_errors r \<or> has_errors r'"
  by (auto simp: has_errors_def)

lemma has_errors_Nil [simp]: "\<not> has_errors []"
  by (simp add: has_errors_def)

lemma has_errors_concat: "has_errors (concat rs) \<longleftrightarrow> (\<exists>r \<in> set rs. has_errors r)"
  by (auto simp: has_errors_def)

lemma has_errors_checks [simp]:
  "has_errors (check_range n r v) \<longleftrightarrow> \<not> (fst r \<le> v \<and> v \<le> snd r)"
  "has_errors (check_length f n b t) \<longleftrightarrow> \<not> (fst b \<le> f t \<and> f t \<le> snd b)"
  "has_errors (check_keyword n kw t) \<longleftrightarrow> kw t = None"
  "has_errors (narrow n k v) \<longleftrightarrow> \<not> (0 \<le> v \<and> v \<le> k)"
  by (auto simp: has_errors_def check_range_def check_length_def check_keyword_def narrow_def)

lemmas constraint_defs = PORT_def CONSUMERS_def MAX_RETRIES_def REDIS_DATABASE_def
  PLUGIN_TIMEOUT_SECONDS_def PLUGIN_MEMORY_MIB_def HOSTNAME_LEN_def PATH_LEN_def

text \<open>What a spec without validation errors satisfies.\<close>

lemma valid_spec:
  assumes "\<not> has_errors (validate_all x spec)"
  shows "1 \<le> ms_port (ss_mail spec)" "ms_port (ss_mail spec) \<le> 65535"
    and "encryption_keyword (ms_encryption (ss_mail spec)) \<noteq> None"
    and "0 \<le> qs_primary_consumers (ss_queue spec)" "qs_primary_consumers (ss_queue spec) \<le> 1024"
    and "0 \<le> qs_secondary_consumers (ss_queue spec)" "qs_secondary_consumers (ss_queue spec) \<le> 1024"
    and "driver_keyword (qs_queue_driver (ss_queue spec)) \<noteq> None"
    and "queue_name_check (qs_queue_name (ss_queue spec))"
    and "0 \<le> qs_max_retries (ss_queue spec)" "qs_max_retries (ss_queue spec) \<le> 100"
    and "1 \<le> rs_port (qs_redis (ss_queue spec))" "rs_port (qs_redis (ss_queue spec)) \<le> 65535"
    and "0 \<le> rs_database (qs_redis (ss_queue spec))" "rs_database (qs_redis (ss_queue spec)) \<le> 255"
    and "1 \<le> ls_timeout_seconds (ss_plugin_limits spec)" "ls_timeout_seconds (ss_plugin_limits spec) \<le> 86400"
    and "16 \<le> ls_memory_mib (ss_plugin_limits spec)" "ls_memory_mib (ss_plugin_limits spec) \<le> 4096"
    and "encryption_keyword (ms_encryption (ss_mail spec)) = Some Plain \<Longrightarrow> ms_username (ss_mail spec) \<noteq> []
      \<Longrightarrow> is_loopback_host (ms_host (ss_mail spec))"
    and "BUILTIN_PLUGIN_NAME \<notin> fst ` set (ss_plugins spec)"
proof -
  note e = assms [unfolded validate_all_def has_errors_append]
  have m: "\<not> has_errors (mail_constraints x (ss_mail spec))" and v: "\<not> has_errors (validate_mail x (ss_mail spec))"
    and q: "\<not> has_errors (queue_constraints x (ss_queue spec))"
    and l: "\<not> has_errors (limits_constraints (ss_plugin_limits spec))"
    and s: "\<not> has_errors (validate_settings x spec)"
    using e by blast+
  show "1 \<le> ms_port (ss_mail spec)" "ms_port (ss_mail spec) \<le> 65535"
    "encryption_keyword (ms_encryption (ss_mail spec)) \<noteq> None"
    using m by (simp_all add: mail_constraints_def constraint_defs del: encryption_keyword.simps)
  show "0 \<le> qs_primary_consumers (ss_queue spec)" "qs_primary_consumers (ss_queue spec) \<le> 1024"
    "0 \<le> qs_secondary_consumers (ss_queue spec)" "qs_secondary_consumers (ss_queue spec) \<le> 1024"
    "driver_keyword (qs_queue_driver (ss_queue spec)) \<noteq> None"
    "0 \<le> qs_max_retries (ss_queue spec)" "qs_max_retries (ss_queue spec) \<le> 100"
    "1 \<le> rs_port (qs_redis (ss_queue spec))" "rs_port (qs_redis (ss_queue spec)) \<le> 65535"
    "0 \<le> rs_database (qs_redis (ss_queue spec))" "rs_database (qs_redis (ss_queue spec)) \<le> 255"
    using q by (simp_all add: queue_constraints_def redis_constraints_def constraint_defs del: driver_keyword.simps)
  show "queue_name_check (qs_queue_name (ss_queue spec))"
    using q by (auto simp: queue_constraints_def has_errors_def split: if_splits)
  show "1 \<le> ls_timeout_seconds (ss_plugin_limits spec)" "ls_timeout_seconds (ss_plugin_limits spec) \<le> 86400"
    "16 \<le> ls_memory_mib (ss_plugin_limits spec)" "ls_memory_mib (ss_plugin_limits spec) \<le> 4096"
    using l by (simp_all add: limits_constraints_def constraint_defs)
  show "is_loopback_host (ms_host (ss_mail spec))"
    if "encryption_keyword (ms_encryption (ss_mail spec)) = Some Plain" "ms_username (ss_mail spec) \<noteq> []"
    using v that
    by (auto simp: validate_mail_def Let_def check_encryption_def has_errors_def simp del: encryption_keyword.simps
      split: if_splits)
  show "BUILTIN_PLUGIN_NAME \<notin> fst ` set (ss_plugins spec)"
  proof
    assume "BUILTIN_PLUGIN_NAME \<in> fst ` set (ss_plugins spec)"
    then obtain dir where dir: "(BUILTIN_PLUGIN_NAME, dir) \<in> set (ss_plugins spec)" by auto
    have "has_errors (validate_settings x spec)"
      unfolding validate_settings_def has_errors_append has_errors_concat set_map
      by (rule disjI1, rule bexI [OF _ imageI [OF dir]]) (simp add: has_errors_def)
    with s show False by simp
  qed
qed

text \<open>After validation, lowering cannot fail.\<close>

lemma lower_valid:
  assumes "\<not> has_errors (validate_all x spec)"
  shows "narrow_report spec = []"
  using valid_spec [OF assms]
  by (auto simp: narrow_report_def Let_def narrow_def check_keyword_def mib_to_bytes_def i64_to_u8_def
      usize_max_def BYTES_PER_MIB_def nat_le_iff simp del: encryption_keyword.simps driver_keyword.simps)

end
