(* ===== verification/Output.thy ===== *)
theory Output
  imports Utf8
begin

text \<open>
  The output buffer of commands (\<open>src/inengine-core/src/output.rs\<close>). The escape sequences come from
  the crossterm crate and are the record \<open>terminal\<close>. The progress bar of the indicatif crate is
  its kind, its maximum and its position.
\<close>

section \<open>The buffer\<close>

datatype color = Green | Yellow | Red | OtherColor nat

record terminal =
  set_foreground :: "color \<Rightarrow> string"
  reset_color :: string

record progress_bar =
  bar_hidden :: bool
  bar_max :: u64
  bar_position :: u64

record output_state =
  buffer :: bytes
  use_color :: bool
  progress_bar :: "progress_bar option"

definition new_output :: "bool \<Rightarrow> output_state" where
  "new_output color = \<lparr>buffer = [], use_color = color, progress_bar = None\<rparr>"

definition uses_color :: "output_state \<Rightarrow> bool" where
  "uses_color out = use_color out"

definition write_colored :: "terminal \<Rightarrow> string \<Rightarrow> color option \<Rightarrow> bool \<Rightarrow> output_state \<Rightarrow> output_state" where
  "write_colored t s color with_newline out =
     (let out1 = (if use_color out
                  then (case color of
                          Some c \<Rightarrow> out\<lparr>buffer := buffer out @ set_foreground t c @ s @ reset_color t\<rparr>
                        | None \<Rightarrow> out\<lparr>buffer := buffer out @ s\<rparr>)
                  else out\<lparr>buffer := buffer out @ s\<rparr>)
      in if with_newline then out1\<lparr>buffer := buffer out1 @ [newline]\<rparr> else out1)"

definition out_line :: "terminal \<Rightarrow> string \<Rightarrow> output_state \<Rightarrow> output_state" where
  "out_line t s = write_colored t s None True"

definition info_line :: "terminal \<Rightarrow> string \<Rightarrow> output_state \<Rightarrow> output_state" where
  "info_line t s = write_colored t s (Some Green) True"

definition warning_line :: "terminal \<Rightarrow> string \<Rightarrow> output_state \<Rightarrow> output_state" where
  "warning_line t s = write_colored t s (Some Yellow) True"

definition error_line :: "terminal \<Rightarrow> string \<Rightarrow> output_state \<Rightarrow> output_state" where
  "error_line t s = write_colored t s (Some Red) True"

definition out_text :: "terminal \<Rightarrow> string \<Rightarrow> output_state \<Rightarrow> output_state" where
  "out_text t s = write_colored t s None False"

definition out_info :: "terminal \<Rightarrow> string \<Rightarrow> output_state \<Rightarrow> output_state" where
  "out_info t s = write_colored t s (Some Green) False"

definition out_warning :: "terminal \<Rightarrow> string \<Rightarrow> output_state \<Rightarrow> output_state" where
  "out_warning t s = write_colored t s (Some Yellow) False"

definition out_error :: "terminal \<Rightarrow> string \<Rightarrow> output_state \<Rightarrow> output_state" where
  "out_error t s = write_colored t s (Some Red) False"

definition newlines :: "nat \<Rightarrow> output_state \<Rightarrow> output_state" where
  "newlines count out = out\<lparr>buffer := buffer out @ replicate count newline\<rparr>"

definition colored_line :: "terminal \<Rightarrow> string \<Rightarrow> color \<Rightarrow> output_state \<Rightarrow> output_state" where
  "colored_line t s color = write_colored t s (Some color) True"

definition colored_text :: "terminal \<Rightarrow> string \<Rightarrow> color \<Rightarrow> output_state \<Rightarrow> output_state" where
  "colored_text t s color = write_colored t s (Some color) False"

definition set_progress_max :: "u64 \<Rightarrow> output_state \<Rightarrow> output_state" where
  "set_progress_max n out =
     out\<lparr>progress_bar := Some \<lparr>bar_hidden = \<not> use_color out, bar_max = n, bar_position = 0\<rparr>\<rparr>"

definition update_progress :: "u64 \<Rightarrow> output_state \<Rightarrow> output_state" where
  "update_progress current out =
     (case progress_bar out of
        Some pb \<Rightarrow> out\<lparr>progress_bar := Some (pb\<lparr>bar_position := current\<rparr>)\<rparr>
      | None \<Rightarrow> out)"

definition take_buffer :: "output_state \<Rightarrow> string \<times> output_state" where
  "take_buffer out = (from_utf8_lossy (buffer out), out\<lparr>buffer := []\<rparr>)"

text \<open>
  \<open>print\<close> writes the buffer to standard output; \<open>accepted\<close> is how many bytes of it the stream takes
  before it fails, and the rest is dropped.
\<close>

definition print_output :: "nat \<Rightarrow> output_state \<Rightarrow> bytes \<Rightarrow> output_state \<times> bytes" where
  "print_output accepted out stdout =
     (if buffer out \<noteq> [] then (out\<lparr>buffer := []\<rparr>, stdout @ take accepted (buffer out))
      else (out, stdout))"

lemmas out_defs = out_line_def info_line_def warning_line_def error_line_def out_text_def
  out_info_def out_warning_def out_error_def colored_line_def colored_text_def

section \<open>Facts\<close>

lemma use_color_write [simp]:
  "use_color (write_colored t s c nl out) = use_color out"
  by (simp add: write_colored_def Let_def split: option.split)

lemma write_plain:
  "\<not> use_color out \<Longrightarrow>
     write_colored t s c nl out = out\<lparr>buffer := buffer out @ s @ (if nl then [newline] else [])\<rparr>"
  by (simp add: write_colored_def Let_def)

text \<open>Each write only appends.\<close>

lemma write_appends: "prefix (buffer out) (buffer (write_colored t s c nl out))"
  by (auto simp: write_colored_def Let_def split: option.split)

text \<open>A write keeps the buffer valid text when the escape sequences are text.\<close>

lemma utf8_valid_write:
  assumes "utf8_valid (buffer out)" "utf8_valid s"
    and "\<And>c. utf8_valid (set_foreground t c)" "utf8_valid (reset_color t)"
  shows "utf8_valid (buffer (write_colored t s c nl out))"
proof -
  have nl: "utf8_valid [newline]" by (rule utf8_valid_ascii) (simp add: newline_def)
  show ?thesis
    using assms nl by (auto simp: write_colored_def Let_def utf8_valid_append split: option.split)
qed

end
