(* ===== verification/Commands.thy ===== *)
theory Commands
  imports Config Output
begin

text \<open>
  Commands and how they run (\<open>src/inengine-core/src/command.rs\<close>, \<open>commands/echo.rs\<close> and
  \<open>commands/chain.rs\<close>): deadlines, the context of a run, and \<open>run_blocking\<close> with its backstop. The
  \<open>run\<close> of a command is a function on its context, which carries the outside world \<open>'e\<close>.
\<close>

section \<open>Deadlines and contexts\<close>

text \<open>Times are nanoseconds; \<open>instant_max\<close> bounds what an \<open>Instant\<close> can hold.\<close>

record command_deadline =
  deadline_at :: int
  deadline_timeout :: nat

definition checked_add_instant :: "int \<Rightarrow> nat \<Rightarrow> int option" where
  "checked_add_instant t d = (if t + int d > instant_max then None else Some (t + int d))"

definition FAR_FUTURE :: nat where
  "FAR_FUTURE = 100 * 365 * 24 * 60 * 60 * 1000000000"

definition instant_after :: "int \<Rightarrow> nat \<Rightarrow> int" where
  "instant_after now duration =
     (case checked_add_instant now duration of
        Some t \<Rightarrow> t
      | None \<Rightarrow> (case checked_add_instant now FAR_FUTURE of Some t \<Rightarrow> t | None \<Rightarrow> now))"

definition deadline_after :: "int \<Rightarrow> nat \<Rightarrow> command_deadline" where
  "deadline_after now timeout = \<lparr>deadline_at = instant_after now timeout, deadline_timeout = timeout\<rparr>"

text \<open>The cancellation token of a context is a test on the world: whether it has fired there.\<close>

record 'e command_context =
  ctx_output :: output_state
  ctx_settings :: settings
  ctx_deadline :: "command_deadline option"
  ctx_cancel :: "'e \<Rightarrow> bool"

definition new_context :: "output_state \<Rightarrow> settings \<Rightarrow> 'e command_context" where
  "new_context out st =
     \<lparr>ctx_output = out, ctx_settings = st, ctx_deadline = None, ctx_cancel = (\<lambda>_. False)\<rparr>"

definition with_deadline :: "command_deadline \<Rightarrow> 'e command_context \<Rightarrow> 'e command_context" where
  "with_deadline d ctx = ctx\<lparr>ctx_deadline := Some d\<rparr>"

definition with_cancel :: "('e \<Rightarrow> bool) \<Rightarrow> 'e command_context \<Rightarrow> 'e command_context" where
  "with_cancel token ctx = ctx\<lparr>ctx_cancel := token\<rparr>"

section \<open>The built-in commands Echo and Chain\<close>

text \<open>A command: its name and its run on a context and the world.\<close>

record 'e command =
  command_title :: string
  run_on :: "'e command_context \<Rightarrow> 'e \<Rightarrow> command_result \<times> 'e command_context \<times> 'e"

definition echo :: "terminal \<Rightarrow> string \<Rightarrow> 'e command" where
  "echo t txt =
     \<lparr>command_title = ''echo'',
      run_on = (\<lambda>ctx e. (Inr (), ctx\<lparr>ctx_output := out_line t txt (ctx_output ctx)\<rparr>, e))\<rparr>"

primrec run_chain ::
  "'e command list \<Rightarrow> 'e command_context \<Rightarrow> 'e \<Rightarrow> command_result \<times> 'e command_context \<times> 'e" where
  "run_chain [] ctx e = (Inr (), ctx, e)"
| "run_chain (cmd # cmds) ctx e =
     (case run_on cmd ctx e of
        (Inl err, ctx', e') \<Rightarrow> (Inl err, ctx', e')
      | (Inr _, ctx', e') \<Rightarrow> run_chain cmds ctx' e')"

definition chain_command :: "'e command list \<Rightarrow> 'e command" where
  "chain_command cmds = \<lparr>command_title = ''chain'', run_on = run_chain cmds\<rparr>"

section \<open>Running on the blocking pool\<close>

definition ENFORCEMENT_GRACE :: nat where
  "ENFORCEMENT_GRACE = 1000000000"

text \<open>A \<open>JoinError\<close>: the task was cancelled by the shutdown of the runtime, or it panicked.\<close>

datatype join_error = JoinError (join_cancelled: bool) (join_dyn: dyn_error)

datatype run_blocking_error = Panicked join_error | DeadlineIgnored u64

fun run_blocking_error_dyn :: "run_blocking_error \<Rightarrow> dyn_error" where
  "run_blocking_error_dyn (Panicked e) = join_dyn e"
| "run_blocking_error_dyn (DeadlineIgnored seconds) = DynError ''the command did not stop at its deadline'' None"

fun command_error_of :: "run_blocking_error \<Rightarrow> command_error" where
  "command_error_of (Panicked e) =
     (if join_cancelled e then Interrupted
      else failed_with ''the command panicked'' (run_blocking_error_dyn (Panicked e)))"
| "command_error_of (DeadlineIgnored seconds) = Timeout seconds"

text \<open>
  The task of \<open>spawn_blocking\<close>: when it ends, if ever, and what joining it yields. The result of
  \<open>run_blocking\<close> is \<open>None\<close> when it waits for a task that does not end.
\<close>

record task =
  task_end :: "int option"
  task_joined :: "join_error + command_result \<times> string"

definition backstop :: "command_deadline option \<Rightarrow> (int \<times> u64) option" where
  "backstop deadline =
     Option.bind deadline (\<lambda>d.
     Option.bind (checked_add_instant (deadline_at d) ENFORCEMENT_GRACE) (\<lambda>at.
       Some (at, of_nat (deadline_timeout d div 1000000000))))"

definition run_blocking ::
  "command_deadline option \<Rightarrow> task \<Rightarrow> (run_blocking_error + command_result \<times> string) option" where
  "run_blocking deadline task =
     (case backstop deadline of
        None \<Rightarrow> (if task_end task = None then None else Some (map_sum Panicked id (task_joined task)))
      | Some (at, seconds) \<Rightarrow>
          (case task_end task of
             Some t \<Rightarrow> if t \<le> at then Some (map_sum Panicked id (task_joined task))
                        else Some (Inl (DeadlineIgnored seconds))
           | None \<Rightarrow> Some (Inl (DeadlineIgnored seconds))))"

section \<open>Facts\<close>

lemma instant_after_bounds:
  assumes "now \<le> instant_max"
  shows "now \<le> instant_after now d" "instant_after now d \<le> instant_max"
  using assms by (auto simp: instant_after_def checked_add_instant_def)

text \<open>With a deadline that leaves room for the grace, \<open>run_blocking\<close> returns.\<close>

lemma run_blocking_returns:
  assumes "deadline_at d + int ENFORCEMENT_GRACE \<le> instant_max"
  shows "\<exists>r. run_blocking (Some d) task = Some r"
  using assms
  by (auto simp: run_blocking_def backstop_def checked_add_instant_def split: option.split)

text \<open>A chain stops at its first failing command and keeps the output written before it.\<close>

lemma run_chain_append:
  "run_chain (xs @ ys) ctx e =
     (case run_chain xs ctx e of
        (Inl err, ctx', e') \<Rightarrow> (Inl err, ctx', e')
      | (Inr _, ctx', e') \<Rightarrow> run_chain ys ctx' e')"
  by (induction xs arbitrary: ctx e) (auto split: sum.split prod.split)

end
