(* ===== verification/QueueAdmin.thy ===== *)
theory QueueAdmin
  imports Commands
begin

text \<open>
  Queue administration for the command line (\<open>src/inengine-core/src/queue_admin/\<close>): publishing,
  consuming, clearing, peeking, republishing and recovering, with the text they write.
\<close>

text \<open>
  What the requests use of other crates: the queue, the packer, the connection to Redis, the
  escape codes, the JSON forms of payloads, and the texts of ids and times.
\<close>

record 's admin_deps =
  queue_deps :: "'s queue_deps"
  packer_deps :: packer
  connect_redis :: "redis_connection \<Rightarrow> 's \<Rightarrow> (dyn_error + unit) \<times> 's"
  admin_terminal :: terminal
  parse_object :: "string \<Rightarrow> dyn_error + unit"
  object_to_string :: "(string \<times> string) list \<Rightarrow> dyn_error + string"
  envelope_to_string :: "command_envelope \<Rightarrow> dyn_error + string"
  malformed_to_string :: "string \<Rightarrow> string \<Rightarrow> string"
  show_uuid :: "uuid \<Rightarrow> string"
  show_time :: "int \<Rightarrow> string"

type_synonym 's admin_step = "output_state \<times> 's stores \<Rightarrow> (command_error + unit) \<times> output_state \<times> 's stores"

definition open_lane :: "'s admin_deps \<Rightarrow> queue_settings \<Rightarrow> queue_lane \<Rightarrow> 's stores \<Rightarrow> (command_error + backend) \<times> 's stores" where
  "open_lane x st lane =
     map_errE (\<lambda>error. failed_with (''could not open the '' @ lane_str lane @ '' queue'') (queue_error_dyn error))
       (open_queue (connect_redis x (connection_info (redis_config st))) (queue_driver_of st) (queue_name st) (base_path st) lane)"

section \<open>Publishing\<close>

record publish_request =
  pub_plugin_name :: string
  pub_command_name :: string
  pub_args :: "string list"
  pub_json :: "string option"
  pub_max_retries :: "u32 option"
  pub_lane :: queue_lane

text \<open>
  \<open>serde_json::Map\<close> keeps its keys sorted and unique, and the last value of a key wins.
\<close>

definition collect_fields :: "(string \<times> string) list \<Rightarrow> (string \<times> string) list" where
  "collect_fields pairs =
     map (\<lambda>k. (k, the (map_of (rev pairs) k))) (sorted_list_of_set (fst ` set pairs))"

definition publish_payload :: "'s admin_deps \<Rightarrow> publish_request \<Rightarrow> command_error + string" where
  "publish_payload x p =
     (case pub_json p of
        Some json \<Rightarrow>
          (case parse_object x json of
             Inl error \<Rightarrow> Inl (failed_with ''the payload is not a JSON object'' error)
           | Inr _ \<Rightarrow> Inr json)
      | None \<Rightarrow>
          (let pairs = collect_fields (List.map_filter (split_once CHR ''='') (pub_args p))
           in case object_to_string x pairs of
                Inl error \<Rightarrow> Inl (failed_with ''could not serialize args'' error)
              | Inr body \<Rightarrow> Inr body))"

text \<open>\<open>Publish::run\<close>; the id and the time of the new envelope are arguments.\<close>

definition run_publish ::
  "'s admin_deps \<Rightarrow> uuid \<Rightarrow> int \<Rightarrow> publish_request \<Rightarrow> queue_settings \<Rightarrow> 's admin_step" where
  "run_publish x new_id now p st = (\<lambda>(out, s).
     (case publish_payload x p of
        Inl e \<Rightarrow> (Inl e, out, s)
      | Inr body \<Rightarrow>
          (case new_envelope (packer_deps x) new_id now (pub_command_name p) (pub_plugin_name p) body
              (use_compression st) (case pub_max_retries p of Some n \<Rightarrow> n | None \<Rightarrow> queue_max_retries st) of
             Inl e \<Rightarrow> (Inl (failed_with ''could not create the envelope'' (queue_error_dyn e)), out, s)
           | Inr env \<Rightarrow>
               (case open_lane x st (pub_lane p) s of
                  (Inl e, s') \<Rightarrow> (Inl e, out, s')
                | (Inr q, s') \<Rightarrow>
                    (case queue_publish (queue_deps x) q env s' of
                       (Inl e, s'') \<Rightarrow> (Inl (failed_with ''could not publish'' (queue_error_dyn e)), out, s'')
                     | (Inr _, s'') \<Rightarrow>
                         (Inr (), info_line (admin_terminal x)
                            (''published '' @ pub_command_name p @ '' from '' @ pub_plugin_name p
                             @ '' to the '' @ lane_str (pub_lane p) @ '' queue'') out, s''))))))"

section \<open>Consuming\<close>

record consume_tally =
  acknowledged :: nat
  retried :: nat
  moved_to_failed :: nat
  released :: nat

definition empty_tally :: consume_tally where
  "empty_tally = \<lparr>acknowledged = 0, retried = 0, moved_to_failed = 0, released = 0\<rparr>"

fun record_outcome :: "settle_outcome \<Rightarrow> consume_tally \<Rightarrow> consume_tally" where
  "record_outcome Acknowledged tally = tally\<lparr>acknowledged := Suc (acknowledged tally)\<rparr>"
| "record_outcome Retried tally = tally\<lparr>retried := Suc (retried tally)\<rparr>"
| "record_outcome MovedToFailed tally = tally\<lparr>moved_to_failed := Suc (moved_to_failed tally)\<rparr>"
| "record_outcome Released tally = tally\<lparr>released := Suc (released tally)\<rparr>"

definition incomplete :: "consume_tally \<Rightarrow> nat" where
  "incomplete tally = retried tally + moved_to_failed tally + released tally"

definition show_tally :: "consume_tally \<Rightarrow> string" where
  "show_tally tally =
     ''completed: '' @ show_nat (acknowledged tally) @ '', returned for a retry: ''
     @ show_nat (retried tally) @ '', moved to failed: '' @ show_nat (moved_to_failed tally)
     @ (if released tally > 0
        then '', returned because the server stopped: '' @ show_nat (released tally) else [])"

text \<open>
  A run of a command on the blocking pool, as the world sees it, or \<open>None\<close> when it does not end. The
  context has no deadline and a token that never fires.
\<close>

type_synonym ('c, 'e) blocking_run =
  "'c \<Rightarrow> 'e \<Rightarrow> ((run_blocking_error + command_result \<times> string) \<times> 'e) option"

text \<open>The closure of \<open>Consume::run\<close>: its environment is the world and the output.\<close>

definition consume_closure ::
  "terminal \<Rightarrow> ('c, 'e) blocking_run \<Rightarrow> 'c \<Rightarrow> 'e \<times> output_state
     \<Rightarrow> (command_result \<times> 'e \<times> output_state) option" where
  "consume_closure t blocking command = (\<lambda>(e, out).
     (case blocking command e of
        None \<Rightarrow> None
      | Some (Inl error, e') \<Rightarrow> Some (Inl (command_error_of error), e', out)
      | Some (Inr (result, txt), e') \<Rightarrow> Some (result, e', out_text t txt out)))"

definition attempt_line :: "'s admin_deps \<Rightarrow> uuid \<Rightarrow> attempt \<Rightarrow> output_state \<Rightarrow> output_state" where
  "attempt_line x i a out =
     (case a of
        AttemptSucceeded \<Rightarrow> out
      | AttemptFailed error \<Rightarrow>
          error_line (admin_terminal x) (''message '' @ show_uuid x i @ '': '' @ error_chain (command_error_dyn error)) out
      | AttemptUnrunnable error \<Rightarrow>
          error_line (admin_terminal x) (''could not build the command for message '' @ show_uuid x i @ '': ''
            @ error_chain (queue_error_dyn error)) out
      | AttemptInterrupted \<Rightarrow>
          error_line (admin_terminal x) (''message '' @ show_uuid x i @ '': ''
            @ err_text (command_error_dyn Interrupted)) out)"

text \<open>The state of the consume loop.\<close>

type_synonym ('s, 'e) consume_state = "consume_tally \<times> output_state \<times> 's stores \<times> 'e"

function consume_loop ::
  "'s admin_deps \<Rightarrow> 'c command_registry \<Rightarrow> ('c, 'e) blocking_run \<Rightarrow> backend \<Rightarrow> nat
     \<Rightarrow> ('s, 'e) consume_state \<Rightarrow> (command_result \<times> ('s, 'e) consume_state) option" where
  "consume_loop x registry blocking q limit (tally, out, s, e) =
     (if limit = 0 then Some (Inr (), tally, out, s, e)
      else case queue_dequeue (queue_deps x) q 0 s of
          None \<Rightarrow> None
        | Some (Inl error, s') \<Rightarrow>
            Some (Inl (failed_with (''could not dequeue ('' @ show_tally tally @ '')'')
              (queue_error_dyn error)), tally, out, s', e)
        | Some (Inr None, s') \<Rightarrow> Some (Inr (), tally, out, s', e)
        | Some (Inr (Some d), s') \<Rightarrow>
            (case process_delivery (queue_deps x) (packer_deps x) q d registry (\<lambda>_. False)
                (consume_closure (admin_terminal x) blocking) (s', e, out) of
               None \<Rightarrow> None
             | Some (res, s'', e', out') \<Rightarrow>
                 let i = processed_id res;
                     out'' = attempt_line x i (processed_attempt res) out'
                 in case processed_settled res of
                      Inl error \<Rightarrow>
                        Some (Inl (failed_with (''stopped at message '' @ show_uuid x i @ '' ('' @ show_tally tally @ '')'')
                          (settle_error_dyn (show_uuid x) error)), tally, out'', s'', e')
                    | Inr outcome \<Rightarrow>
                        consume_loop x registry blocking q (limit - 1)
                          (record_outcome outcome tally,
                           out_line (admin_terminal x) (show_uuid x i @ '': '' @ outcome_label outcome) out'', s'', e')))"
  by pat_completeness auto
termination
  by (relation "measure (\<lambda>(x, registry, blocking, q, limit, st). limit)") auto

declare consume_loop.simps [simp del]

definition run_consume ::
  "'s admin_deps \<Rightarrow> 'c command_registry \<Rightarrow> ('c, 'e) blocking_run \<Rightarrow> nat option \<Rightarrow> queue_lane \<Rightarrow> queue_settings
     \<Rightarrow> output_state \<times> 's stores \<times> 'e \<Rightarrow> (command_result \<times> output_state \<times> 's stores \<times> 'e) option" where
  "run_consume x registry blocking limit lane st = (\<lambda>(out, s, e).
     (let limit = (case limit of Some n \<Rightarrow> n | None \<Rightarrow> usize_max) in
      case open_lane x st lane s of
        (Inl error, s') \<Rightarrow> Some (Inl error, out, s', e)
      | (Inr q, s') \<Rightarrow>
          map_option (\<lambda>(r, tally, out, s, e).
            (case r of
               Inl error \<Rightarrow> (Inl error, out, s, e)
             | Inr _ \<Rightarrow>
                 (if incomplete tally > 0
                  then (Inl (failed (''some messages did not complete ('' @ show_tally tally @ '')'')), out, s, e)
                  else (Inr (), out, s, e))))
            (consume_loop x registry blocking q limit (empty_tally, out, s', e))))"

section \<open>Managing\<close>

definition selected_stages :: "bool \<Rightarrow> bool \<Rightarrow> bool \<Rightarrow> stage list" where
  "selected_stages pending in_progress failed_stage =
     List.map_filter (\<lambda>(selected, stage). if selected then Some stage else None)
       [(pending, Pending), (in_progress, InProgress), (failed_stage, FailedStage)]"

primrec clear_stages :: "'s admin_deps \<Rightarrow> backend \<Rightarrow> stage list \<Rightarrow> 's admin_step" where
  "clear_stages x q [] os = (Inr (), os)"
| "clear_stages x q (t # ts) os =
     (case os of (out, s) \<Rightarrow>
        case queue_clear (queue_deps x) q t s of
          (Inl error, s') \<Rightarrow>
            (Inl (failed_with (''could not clear '' @ stage_label t) (queue_error_dyn error)), out, s')
        | (Inr removed, s') \<Rightarrow>
            clear_stages x q ts
              (info_line (admin_terminal x) (stage_label t @ '': removed '' @ show_nat removed) out, s'))"

definition run_clear ::
  "'s admin_deps \<Rightarrow> bool \<Rightarrow> bool \<Rightarrow> bool \<Rightarrow> queue_lane \<Rightarrow> queue_settings \<Rightarrow> 's admin_step" where
  "run_clear x pending failed_stage in_progress lane st = (\<lambda>(out, s).
     (let stages = selected_stages pending in_progress failed_stage in
      if stages = []
      then (Inl (failed ''specify at least one stage to clear: --pending, --failed, or --in-progress''), out, s)
      else case open_lane x st lane s of
          (Inl e, s') \<Rightarrow> (Inl e, out, s')
        | (Inr q, s') \<Rightarrow> clear_stages x q stages (out, s')))"

text \<open>\<open>{:>14}\<close> and \<open>{:>10}\<close> pad on the left.\<close>

definition pad_left :: "nat \<Rightarrow> string \<Rightarrow> string" where
  "pad_left width s = replicate (width - length s) (CHR '' '') @ s"

definition lengths_lines :: "terminal \<Rightarrow> queue_lane \<Rightarrow> queue_lengths \<Rightarrow> output_state \<Rightarrow> output_state" where
  "lengths_lines t lane n out =
     newlines 1 (fold (\<lambda>(stage, len) out.
         out_line t (pad_left 10 (show_nat len)) (out_info t (pad_left 14 (stage_label stage)) out))
       [(Pending, len_pending n), (InProgress, len_in_progress n), (FailedStage, len_failed n)]
       (warning_line t (lane_str lane @ '' Queue:'') out))"

primrec lengths_of_lanes :: "'s admin_deps \<Rightarrow> queue_settings \<Rightarrow> queue_lane list \<Rightarrow> 's admin_step" where
  "lengths_of_lanes x st [] os = (Inr (), os)"
| "lengths_of_lanes x st (lane # lanes) os =
     (case os of (out, s) \<Rightarrow>
        case open_lane x st lane s of
          (Inl e, s') \<Rightarrow> (Inl e, out, s')
        | (Inr q, s') \<Rightarrow>
            (case queue_lengths_of (queue_deps x) q s' of
               (Inl error, s'') \<Rightarrow>
                 (Inl (failed_with ''could not read the queue lengths'' (queue_error_dyn error)), out, s'')
             | (Inr n, s'') \<Rightarrow> lengths_of_lanes x st lanes (lengths_lines (admin_terminal x) lane n out, s'')))"

definition write_lengths :: "'s admin_deps \<Rightarrow> queue_settings \<Rightarrow> 's admin_step" where
  "write_lengths x st = lengths_of_lanes x st all_lanes"

primrec message_lines ::
  "'s admin_deps \<Rightarrow> bool \<Rightarrow> peeked_message list \<Rightarrow> output_state \<Rightarrow> (command_error + unit) \<times> output_state" where
  "message_lines x json [] out = (Inr (), out)"
| "message_lines x json (m # ms) out =
     (case m of
        PeekEnvelope env \<Rightarrow>
          if json
          then (case envelope_to_string x env of
                  Inl error \<Rightarrow> (Inl (failed_with ''could not format a message'' error), out)
                | Inr txt \<Rightarrow> message_lines x json ms (out_line (admin_terminal x) txt out))
          else message_lines x json ms (newlines 1
            (out_line (admin_terminal x) (show_time x (queued_at env)) (out_info (admin_terminal x) ''  queued: ''
            (out_line (admin_terminal x) (command_name env) (out_info (admin_terminal x) ''  command: ''
            (out_line (admin_terminal x) (show_uuid x (env_id env)) (out_info (admin_terminal x) ''  id: '' out)))))))
      | Malformed raw reason \<Rightarrow>
          if json then message_lines x json ms (out_line (admin_terminal x) (malformed_to_string x raw reason) out)
          else message_lines x json ms (newlines 1
            (out_line (admin_terminal x) raw (out_line (admin_terminal x) reason (out_error (admin_terminal x) ''  malformed: '' out)))))"

definition write_messages ::
  "'s admin_deps \<Rightarrow> stage \<Rightarrow> peeked_message list \<Rightarrow> bool \<Rightarrow> output_state \<Rightarrow> (command_error + unit) \<times> output_state" where
  "write_messages x t messages json out =
     (let out = out_warning (admin_terminal x) (stage_label t) out in
      if messages = [] then (Inr (), out_line (admin_terminal x) '': no messages available.'' out)
      else message_lines x json messages (newlines 1 out))"

primrec peek_stages :: "'s admin_deps \<Rightarrow> backend \<Rightarrow> nat \<times> nat \<Rightarrow> bool \<Rightarrow> stage list \<Rightarrow> 's admin_step" where
  "peek_stages x q bounds json [] os = (Inr (), os)"
| "peek_stages x q bounds json (t # ts) os =
     (case os of (out, s) \<Rightarrow>
        case queue_peek (queue_deps x) q t bounds s of
          (Inl error, s') \<Rightarrow>
            (Inl (failed_with (''could not peek '' @ stage_label t) (queue_error_dyn error)), out, s')
        | (Inr messages, s') \<Rightarrow>
            (case write_messages x t messages json out of
               (Inl e, out') \<Rightarrow> (Inl e, out', s')
             | (Inr _, out') \<Rightarrow> peek_stages x q bounds json ts (out', s')))"

definition run_peek ::
  "'s admin_deps \<Rightarrow> nat \<times> nat \<Rightarrow> bool \<Rightarrow> bool \<Rightarrow> bool \<Rightarrow> bool \<Rightarrow> queue_lane \<Rightarrow> queue_settings \<Rightarrow> 's admin_step" where
  "run_peek x bounds json pending failed_stage in_progress lane st = (\<lambda>(out, s).
     (let stages = selected_stages pending in_progress failed_stage in
      if stages = []
      then (Inl (failed ''specify at least one stage to peek: --pending, --failed, or --in-progress''), out, s)
      else case open_lane x st lane s of
          (Inl e, s') \<Rightarrow> (Inl e, out, s')
        | (Inr q, s') \<Rightarrow> peek_stages x q bounds json stages (out, s')))"

definition run_republish :: "'s admin_deps \<Rightarrow> nat \<Rightarrow> queue_lane \<Rightarrow> queue_settings \<Rightarrow> 's admin_step" where
  "run_republish x limit lane st = (\<lambda>(out, s).
     (case open_lane x st lane s of
        (Inl e, s') \<Rightarrow> (Inl e, out, s')
      | (Inr q, s') \<Rightarrow>
          (case queue_republish_failed (queue_deps x) q limit s' of
             (Inl e, s'') \<Rightarrow> (Inl (failed_with ''could not republish'' (queue_error_dyn e)), out, s'')
           | (Inr count, s'') \<Rightarrow>
               (Inr (), info_line (admin_terminal x) (''failed messages returned to pending in the '' @ lane_str lane
                  @ '' queue: '' @ show_nat count) out, s''))))"

definition run_recover :: "'s admin_deps \<Rightarrow> queue_lane \<Rightarrow> queue_settings \<Rightarrow> 's admin_step" where
  "run_recover x lane st = (\<lambda>(out, s).
     (case open_lane x st lane s of
        (Inl e, s') \<Rightarrow> (Inl e, out, s')
      | (Inr q, s') \<Rightarrow>
          (case queue_recover (queue_deps x) q s' of
             (Inl e, s'') \<Rightarrow> (Inl (failed_with ''could not recover'' (queue_error_dyn e)), out, s'')
           | (Inr count, s'') \<Rightarrow>
               (Inr (), info_line (admin_terminal x) (''in-progress messages returned to pending in the '' @ lane_str lane
                  @ '' queue: '' @ show_nat count) out, s''))))"

end
