(* ===== verification/Processing.thy ===== *)
theory Processing
  imports QueueLane QueueAdmin
begin

text \<open>
  What settling and processing a delivery does to the lane of a queue, on either driver: the
  policy table as an effect on the abstract lane, and a round of a consumer.
\<close>

section \<open>The effect of a settle\<close>

text \<open>\<open>b\<close> is the stored form of the settled envelope; the claimed message is already taken out.\<close>

definition lane_settle :: "settle_action \<Rightarrow> bytes \<Rightarrow> 'k lane \<Rightarrow> 'k lane" where
  "lane_settle a b L =
     (case a of
        Acknowledge \<Rightarrow> L
      | Retry \<Rightarrow> lane_put Pending b L
      | MoveToFailed \<Rightarrow> lane_put FailedStage b L
      | Release \<Rightarrow> lane_put Pending b L)"

definition settled_envelope :: "settle_action \<Rightarrow> delivery \<Rightarrow> command_envelope" where
  "settled_envelope a d = envelope (if a = Release then uncount_attempt d else d)"

lemma uncount_simps [simp]:
  "delivery_lane (uncount_attempt d) = delivery_lane d"
  "delivery_receipt (uncount_attempt d) = delivery_receipt d"
  by (simp_all add: uncount_attempt_def)

lemma settle_law:
  assumes inv: "queue_inv x stored calm q s" and own: "delivery_lane d = queue_lane_of q"
    and good: "queue_receipt q (delivery_receipt d)"
    and there: "delivery_receipt d \<in> receipts (queue_view stored q s)"
    and enc: "queue_enc x q (settled_envelope (for_attempt kind (envelope d)) d) = Inr b"
  shows "\<exists>s'. settle x q d kind s = (Inr (outcome_of (for_attempt kind (envelope d))), s')
    \<and> queue_inv x stored calm q s'
    \<and> queue_view stored q s' = lane_settle (for_attempt kind (envelope d)) b
        (lane_drop (delivery_receipt d) (queue_view stored q s))"
proof (cases "for_attempt kind (envelope d)")
  case Acknowledge
  then show ?thesis
    using lane_of_queue.acknowledge_law [OF inv own good] there by (auto simp: settle_def lane_settle_def)
next
  case Retry
  then show ?thesis
    using lane_of_queue.move_law [OF inv own good, of b Pending] there enc
    by (auto simp: settle_def lane_settle_def queue_retry_def settled_envelope_def)
next
  case MoveToFailed
  then show ?thesis
    using lane_of_queue.move_law [OF inv own good, of b FailedStage] there enc
    by (auto simp: settle_def lane_settle_def queue_move_to_failed_def settled_envelope_def)
next
  case Release
  then show ?thesis
    using lane_of_queue.move_law [of x stored calm q s "uncount_attempt d" b Pending] inv own good there enc
    by (auto simp: settle_def lane_settle_def queue_release_def settled_envelope_def)
qed

section \<open>A round of a consumer\<close>

lemma process_delivery_law:
  assumes inv: "queue_inv x stored calm q s" and own: "delivery_lane d = queue_lane_of q"
    and good: "queue_receipt q (delivery_receipt d)"
    and there: "delivery_receipt d \<in> receipts (queue_view stored q s)"
    and att: "(if cancelled e then Some (AttemptInterrupted, e) else run_attempt k d registry cancelled run e) = Some (a, e')"
    and enc: "queue_enc x q (settled_envelope (for_attempt (kind_of a) (envelope d)) d) = Inr b"
  shows "\<exists>s'. process_delivery x k q d registry cancelled run (s, e) =
      Some (\<lparr>processed_id = env_id (envelope d), processed_attempt = a,
        processed_settled = Inr (outcome_of (for_attempt (kind_of a) (envelope d)))\<rparr>, s', e')
    \<and> queue_inv x stored calm q s'
    \<and> queue_view stored q s' = lane_settle (for_attempt (kind_of a) (envelope d)) b
        (lane_drop (delivery_receipt d) (queue_view stored q s))"
proof -
  obtain s' where s': "settle x q d (kind_of a) s = (Inr (outcome_of (for_attempt (kind_of a) (envelope d))), s')"
    "queue_inv x stored calm q s'"
    "queue_view stored q s' = lane_settle (for_attempt (kind_of a) (envelope d)) b
        (lane_drop (delivery_receipt d) (queue_view stored q s))"
    using settle_law [OF inv own good there enc] by blast
  then show ?thesis by (simp add: process_delivery_def Let_def att)
qed

section \<open>Time stands still\<close>

lemma timely_step:
  assumes "queue_inv x stored calm q s" "queue_timely 0 q s"
    and "\<And>st. q = FileBackend st \<Longrightarrow> later (files s) (files s')"
  shows "queue_timely 0 q s'"
  using assms
  by (cases q) (auto simp: queue_timely_def queue_inv_def file_inv_def file_base_def later_def)

lemma later_on_files: "forward m \<Longrightarrow> later (files s) (files (snd (on_files m s)))"
  by (auto simp: on_files_def forward_def split: prod.split) (metis snd_conv)

lemma later_acknowledge: "later (files s) (files (snd (queue_acknowledge x q d s)))"
  using later_on_files [OF forward_acknowledge, of s]
  by (auto simp: queue_acknowledge_def on_server_def split: backend.split receipt.split prod.split)
    (metis snd_conv)

lemma later_move: "later (files s) (files (snd (queue_move_claimed x q d t s)))"
  using later_on_files [OF forward_move_claimed, of s]
  by (auto simp: queue_move_claimed_def on_server_def split: backend.split receipt.split prod.split)
    (metis snd_conv)

lemma later_settle: "later (files s) (files (snd (settle x q d kind s)))"
  using later_acknowledge [of s x q] later_move [of s x q]
  by (auto simp: settle_def queue_retry_def queue_move_to_failed_def queue_release_def
      split: settle_action.split)

lemma dequeue_timely:
  assumes "queue_inv x stored calm q s" "queue_timely 0 q s" "queue_dequeue x q 0 s = Some (r, s')"
  shows "queue_timely 0 q s'"
proof (cases q)
  case (FileBackend st)
  then obtain w where "file_dequeue (json_codec x) st 0 (files s) = Some (r, w)" "s' = s\<lparr>files := w\<rparr>"
    using assms(3) by (auto simp: queue_dequeue_def)
  then show ?thesis
    using dequeue_zero_clock [of "files s" "json_codec x" st r w] assms(1,2) FileBackend
    by (simp add: queue_timely_def queue_inv_def file_inv_def file_base_def)
qed (simp add: queue_timely_def)

section \<open>A round of \<open>consume\<close>\<close>

text \<open>What the closure of \<open>consume\<close> makes of a run, as the kind of the attempt.\<close>

definition run_kind :: "run_blocking_error + command_result \<times> string \<Rightarrow> attempt_kind" where
  "run_kind r = (case r of Inr (Inr _, _) \<Rightarrow> KSucceeded | _ \<Rightarrow> KCommandFailed)"

lemma to_command_count: "to_command k (count_attempt env) registry = to_command k env registry"
  by (cases "is_compressed env") (simp_all add: to_command_def split: sum.split)

lemma run_attempt_consume:
  assumes "to_command k env registry = Inr cmd" "blocking cmd e = Some (r, e')"
  shows "\<exists>a out'. run_attempt k (new_delivery (count_attempt env) l rc) registry (\<lambda>_. False)
      (consume_closure t blocking) (e, out) = Some (a, e', out') \<and> kind_of a = run_kind r"
proof -
  obtain res out' where c: "consume_closure t blocking cmd (e, out) = Some (res, e', out')"
    and res: "run_kind r = (case res of Inr _ \<Rightarrow> KSucceeded | Inl _ \<Rightarrow> KCommandFailed)"
  proof (cases r)
    case (Inl err)
    then show thesis using that assms(2) by (simp add: consume_closure_def run_kind_def)
  next
    case (Inr y)
    then show thesis using that assms(2)
      by (cases y) (auto simp: consume_closure_def run_kind_def split: sum.splits)
  qed
  have "to_command k (envelope (new_delivery (count_attempt env) l rc)) registry = Inr cmd"
    using assms(1) by (simp add: new_delivery_def to_command_count)
  then show ?thesis
    using c res by (auto simp: run_attempt_def split: sum.splits command_error.splits)
qed

text \<open>The action that \<open>consume\<close> settles with: it never releases.\<close>

definition consume_action :: "run_blocking_error + command_result \<times> string \<Rightarrow> command_envelope \<Rightarrow> settle_action" where
  "consume_action r env = for_attempt (run_kind r) (count_attempt env)"

lemma consume_action_no_release: "consume_action r env \<noteq> Release"
  by (auto simp: consume_action_def run_kind_def split: sum.split)

text \<open>An attempt of \<open>consume\<close> does not depend on the receipt, and its token never fires.\<close>

lemma run_attempt_receipt:
  "run_attempt k (new_delivery env l rc) registry cancelled run e =
     run_attempt k (new_delivery env l rc') registry cancelled run e"
  by (simp add: run_attempt_def new_delivery_def)

lemma run_attempt_running:
  "run_attempt k d registry (\<lambda>_. False) run e = Some (a, e') \<Longrightarrow> kind_of a \<noteq> KInterrupted"
  by (auto simp: run_attempt_def split: sum.splits command_error.splits prod.splits option.splits)

text \<open>An attempt ends when the command does.\<close>

lemma run_attempt_ends:
  assumes "\<And>cmd. to_command k (envelope d) registry = Inr cmd \<Longrightarrow> \<exists>r e'. run cmd e = Some (r, e')"
  shows "\<exists>a e'. run_attempt k d registry cancelled run e = Some (a, e')"
  using assms by (cases "to_command k (envelope d) registry") (force simp: run_attempt_def)+

text \<open>One round of the loop, with what it prints.\<close>

definition round_output :: "'s admin_deps \<Rightarrow> processed_delivery \<Rightarrow> settle_outcome \<Rightarrow> output_state \<Rightarrow> output_state" where
  "round_output x p outcome out =
     out_line (admin_terminal x) (show_uuid x (processed_id p) @ '': '' @ outcome_label outcome)
       (attempt_line x (processed_id p) (processed_attempt p) out)"

lemma consume_loop_round:
  assumes "queue_dequeue (queue_deps x) q 0 s = Some (Inr (Some d), s1)"
    and "process_delivery (queue_deps x) (packer_deps x) q d registry (\<lambda>_. False)
      (consume_closure (admin_terminal x) blocking) (s1, e, out) = Some (p, s2, e2, out2)"
    and "processed_settled p = Inr outcome" "0 < limit"
  shows "consume_loop x registry blocking q limit (tally, out, s, e) =
    consume_loop x registry blocking q (limit - 1) (record_outcome outcome tally, round_output x p outcome out2, s2, e2)"
  using assms by (subst consume_loop.simps) (simp add: Let_def round_output_def)

lemma consume_attempt:
  assumes codec: "codec_ok (json_codec (queue_deps x))"
    and inv: "queue_inv (queue_deps x) stored calm q s" and timely: "queue_timely 0 q s"
    and head: "waiting (lane_skip (json_codec (queue_deps x)) (queue_view stored q s)) = b # bs"
    and env: "from_slice (json_codec (queue_deps x)) b = Inr env"
    and a: "\<And>rc. run_attempt (packer_deps x) (new_delivery (count_attempt env) (queue_lane_of q) rc) registry
        (\<lambda>_. False) (consume_closure (admin_terminal x) blocking) (e, out) = Some (a, e', out1)"
    and kind: "kind_of a \<noteq> KInterrupted"
  obtains d s1 s' b' where "queue_dequeue (queue_deps x) q 0 s = Some (Inr (Some d), s1)"
    and "process_delivery (queue_deps x) (packer_deps x) q d registry (\<lambda>_. False)
        (consume_closure (admin_terminal x) blocking) (s1, e, out) =
      Some (\<lparr>processed_id = env_id env, processed_attempt = a,
        processed_settled = Inr (outcome_of (for_attempt (kind_of a) (count_attempt env)))\<rparr>, s', e', out1)"
    and "queue_inv (queue_deps x) stored calm q s'" "queue_timely 0 q s'"
    and "from_slice (json_codec (queue_deps x)) b' = Inr (count_attempt env)"
    and "queue_view stored q s' = lane_settle (for_attempt (kind_of a) (count_attempt env)) b'
          ((lane_skip (json_codec (queue_deps x)) (queue_view stored q s))\<lparr>waiting := bs\<rparr>)"
proof -
  let ?x = "queue_deps x" and ?k = "packer_deps x" and ?act = "for_attempt (kind_of a) (count_attempt env)"
  obtain env' k s1 where s1: "from_slice (json_codec ?x) b = Inr env'"
    "queue_dequeue ?x q 0 s = Some (Inr (Some (new_delivery (count_attempt env') (queue_lane_of q) k)), s1)"
    "queue_receipt q k" "queue_inv ?x stored calm q s1" "k \<in> receipts (queue_view stored q s1)"
    "lane_drop k (queue_view stored q s1) = (lane_skip (json_codec ?x) (queue_view stored q s))\<lparr>waiting := bs\<rparr>"
    by (rule lane_of_queue.dequeue_claims [OF inv timely head])
  have env': "env' = env" using s1(1) env by simp
  define d where "d = new_delivery (count_attempt env) (queue_lane_of q) k"
  have d: "delivery_lane d = queue_lane_of q" "delivery_receipt d = k" "envelope d = count_attempt env"
    by (simp_all add: d_def new_delivery_def)
  have timely1: "queue_timely 0 q s1" by (rule dequeue_timely [OF inv timely s1(2)])
  have ran: "run_attempt ?k d registry (\<lambda>_. False) (consume_closure (admin_terminal x) blocking) (e, out) = Some (a, e', out1)"
    unfolding d_def by (rule a)
  have settled: "settled_envelope ?act d = count_attempt env"
    using kind by (cases "kind_of a") (simp_all add: settled_envelope_def d(3))
  obtain b' where b': "queue_enc ?x q (count_attempt env) = Inr b'"
    "from_slice (json_codec ?x) b' = Inr (count_attempt env)"
    using codec unfolding codec_ok_def queue_enc_def by (cases q) fastforce+
  obtain s2 where s2: "process_delivery ?x ?k q d registry (\<lambda>_. False)
        (consume_closure (admin_terminal x) blocking) (s1, e, out) =
      Some (\<lparr>processed_id = env_id env, processed_attempt = a, processed_settled = Inr (outcome_of ?act)\<rparr>, s2, e', out1)"
    "queue_inv ?x stored calm q s2"
    "queue_view stored q s2 = lane_settle ?act b' (lane_drop k (queue_view stored q s1))"
    using process_delivery_law [of ?x stored calm q s1 d "\<lambda>_. False" "(e, out)" ?k registry
      "consume_closure (admin_terminal x) blocking" a "(e', out1)" b']
      s1(3-5) d ran settled b'(1) by auto
  have "snd (settle ?x q d (kind_of a) s1) = s2"
    using s2(1) ran by (auto simp: process_delivery_def Let_def split: prod.splits)
  then have "later (files s1) (files s2)" using later_settle [of s1 ?x q d "kind_of a"] by simp
  then have "queue_timely 0 q s2" using timely_step [OF s1(4) timely1] by blast
  then show thesis
    using that s1(2) s2 b'(2) s1(6) unfolding env' d_def by metis
qed

lemma consume_round:
  assumes codec: "codec_ok (json_codec (queue_deps x))"
    and inv: "queue_inv (queue_deps x) stored calm q s" and timely: "queue_timely 0 q s"
    and head: "waiting (lane_skip (json_codec (queue_deps x)) (queue_view stored q s)) = b # bs"
    and env: "from_slice (json_codec (queue_deps x)) b = Inr env"
    and cmd: "to_command (packer_deps x) env registry = Inr cmd" and run: "blocking cmd e = Some (r, e')"
    and limit: "0 < limit"
  obtains s' out' b' where "consume_loop x registry blocking q limit (tally, out, s, e) =
      consume_loop x registry blocking q (limit - 1)
        (record_outcome (outcome_of (consume_action r env)) tally, out', s', e')"
    and "queue_inv (queue_deps x) stored calm q s'" "queue_timely 0 q s'"
    and "from_slice (json_codec (queue_deps x)) b' = Inr (count_attempt env)"
    and "queue_view stored q s' = lane_settle (consume_action r env) b'
          ((lane_skip (json_codec (queue_deps x)) (queue_view stored q s))\<lparr>waiting := bs\<rparr>)"
proof -
  let ?run = "\<lambda>rc. run_attempt (packer_deps x) (new_delivery (count_attempt env) (queue_lane_of q) rc)
      registry (\<lambda>_. False) (consume_closure (admin_terminal x) blocking) (e, out)"
  obtain a out1 where a: "?run undefined = Some (a, e', out1)" "kind_of a = run_kind r"
    using run_attempt_consume [OF cmd, where blocking = blocking and e = e and r = r and e' = e'
      and l = "queue_lane_of q" and rc = undefined and t = "admin_terminal x" and out = out] run by blast
  have any: "?run rc = Some (a, e', out1)" for rc
    by (rule trans [OF run_attempt_receipt a(1)])
  show thesis
  proof (rule consume_attempt [OF codec inv timely head env any run_attempt_running [OF a(1)],
        unfolded a(2), folded consume_action_def])
    fix d s1 s' b'
    assume ran: "queue_dequeue (queue_deps x) q 0 s = Some (Inr (Some d), s1)"
      "process_delivery (queue_deps x) (packer_deps x) q d registry (\<lambda>_. False)
        (consume_closure (admin_terminal x) blocking) (s1, e, out) =
      Some (\<lparr>processed_id = env_id env, processed_attempt = a,
        processed_settled = Inr (outcome_of (consume_action r env))\<rparr>, s', e', out1)"
    assume left: "queue_inv (queue_deps x) stored calm q s'" "queue_timely 0 q s'"
      "from_slice (json_codec (queue_deps x)) b' = Inr (count_attempt env)"
      "queue_view stored q s' = lane_settle (consume_action r env) b'
          ((lane_skip (json_codec (queue_deps x)) (queue_view stored q s))\<lparr>waiting := bs\<rparr>)"
    show thesis by (rule that [OF consume_loop_round [OF ran _ limit] left]) simp
  qed
qed

lemma consume_done:
  assumes inv: "queue_inv (queue_deps x) stored calm q s" and timely: "queue_timely 0 q s"
    and empty: "waiting (lane_skip (json_codec (queue_deps x)) (queue_view stored q s)) = []"
  obtains s' where "0 < limit \<Longrightarrow> consume_loop x registry blocking q limit (tally, out, s, e) =
      Some (Inr (), tally, out, s', e)"
    and "queue_inv (queue_deps x) stored calm q s'"
    and "queue_view stored q s' = lane_skip (json_codec (queue_deps x)) (queue_view stored q s)"
proof -
  obtain s' where "queue_dequeue (queue_deps x) q 0 s = Some (Inr None, s')"
    "queue_inv (queue_deps x) stored calm q s'"
    "queue_view stored q s' = lane_skip (json_codec (queue_deps x)) (queue_view stored q s)"
    using lane_of_queue.dequeue_none [OF inv timely empty] by blast
  then show thesis using that by (simp add: consume_loop.simps)
qed

section \<open>A message that always fails\<close>

lemma lane_skip_one:
  "waiting L = [b] \<Longrightarrow> from_slice c b = Inr env \<Longrightarrow> lane_skip c L = L"
  by (rule lane_skip_readable) (auto simp: unreadable_def)

lemma consume_failing:
  assumes codec: "codec_ok (json_codec (queue_deps x))"
    and fails: "\<And>e. \<exists>r. blocking cmd e = Some (r, after e) \<and> run_kind r = KCommandFailed"
  shows "queue_inv (queue_deps x) stored calm q s \<Longrightarrow> queue_timely 0 q s
    \<Longrightarrow> waiting (queue_view stored q s) = [b] \<Longrightarrow> from_slice (json_codec (queue_deps x)) b = Inr env
    \<Longrightarrow> to_command (packer_deps x) env registry = Inr cmd
    \<Longrightarrow> unat (attempts env) + n = unat (max_retries env) \<Longrightarrow> unat (max_retries env) < 4294967295
    \<Longrightarrow> n < limit
    \<Longrightarrow> \<exists>out' s' b'. consume_loop x registry blocking q limit (tally, out, s, e) =
          Some (Inr (), tally\<lparr>retried := retried tally + n, moved_to_failed := Suc (moved_to_failed tally)\<rparr>,
            out', s', (after ^^ Suc n) e)
        \<and> queue_inv (queue_deps x) stored calm q s'
        \<and> from_slice (json_codec (queue_deps x)) b' = Inr (env\<lparr>attempts := max_retries env + 1\<rparr>)
        \<and> queue_view stored q s' = (queue_view stored q s)\<lparr>waiting := [], dead := dead (queue_view stored q s) @ [b']\<rparr>"
proof (induction n arbitrary: s b env tally out e limit)
  case (0 s b env tally out e limit)
  let ?c = "json_codec (queue_deps x)" and ?L = "queue_view stored q s"
  define e' where "e' = after e"
  obtain r where r: "blocking cmd e = Some (r, e')" "run_kind r = KCommandFailed" using fails [of e] by (auto simp: e'_def)
  have att: "attempts env = max_retries env" using "0.prems"(6) by (simp add: word_unat_eq_iff)
  have "unat (max_retries env + 1) = Suc (unat (max_retries env))"
    using count_attempt_unat [of "env\<lparr>attempts := max_retries env\<rparr>"] "0.prems"(7) by (simp add: count_attempt_def)
  then have act: "consume_action r env = MoveToFailed"
    using r(2) by (simp add: consume_action_def has_retries_left_unat) (simp add: count_attempt_def att)
  have skip: "lane_skip ?c ?L = ?L" using lane_skip_one "0.prems"(3,4) by blast
  have pos: "0 < limit" using "0.prems"(8) .
  obtain s1 out1 b1 where s1: "consume_loop x registry blocking q limit (tally, out, s, e) =
      consume_loop x registry blocking q (limit - 1) (record_outcome (outcome_of (consume_action r env)) tally, out1, s1, e')"
    "queue_inv (queue_deps x) stored calm q s1" "queue_timely 0 q s1" "from_slice ?c b1 = Inr (count_attempt env)"
    "queue_view stored q s1 = lane_settle (consume_action r env) b1 ((lane_skip ?c ?L)\<lparr>waiting := []\<rparr>)"
    by (rule consume_round [where blocking = blocking and cmd = cmd and e = e and bs = "[]", OF codec "0.prems"(1,2) _ "0.prems"(4,5) r(1) pos])
      (use skip "0.prems"(3) in simp)
  have v1: "queue_view stored q s1 = ?L\<lparr>waiting := [], dead := dead ?L @ [b1]\<rparr>"
    using s1(5) act skip by (simp add: lane_settle_def lane_put_def)
  have skip1: "lane_skip ?c (queue_view stored q s1) = queue_view stored q s1"
    by (rule lane_skip_Nil) (simp add: v1)
  obtain s2 where s2: "0 < limit - 1 \<Longrightarrow> consume_loop x registry blocking q (limit - 1)
      (record_outcome MovedToFailed tally, out1, s1, e') = Some (Inr (), record_outcome MovedToFailed tally, out1, s2, e')"
    "queue_inv (queue_deps x) stored calm q s2" "queue_view stored q s2 = queue_view stored q s1"
    by (rule consume_done [OF s1(2,3), unfolded skip1, where limit = "limit - 1" and registry = registry
      and blocking = blocking and tally = "record_outcome MovedToFailed tally" and out = out1 and e = e'])
      (use v1 in simp_all)
  have b1: "from_slice ?c b1 = Inr (env\<lparr>attempts := max_retries env + 1\<rparr>)"
    using s1(4) att by (simp add: count_attempt_def)
  show ?case
  proof (cases "limit = 1")
    case True
    then have "consume_loop x registry blocking q limit (tally, out, s, e) =
        Some (Inr (), record_outcome MovedToFailed tally, out1, s1, e')"
      using s1(1) act by (simp add: consume_loop.simps)
    then show ?thesis using s1(2) b1 v1 by (auto simp: e'_def)
  next
    case False
    then show ?thesis using s1(1) act s2 b1 v1 pos by (auto simp: e'_def)
  qed
next
  case (Suc n s b env tally out e limit)
  let ?c = "json_codec (queue_deps x)" and ?L = "queue_view stored q s"
  define e' where "e' = after e"
  obtain r where r: "blocking cmd e = Some (r, e')" "run_kind r = KCommandFailed" using fails [of e] by (auto simp: e'_def)
  have cnt: "unat (attempts (count_attempt env)) = Suc (unat (attempts env))"
    using Suc.prems(6,7) by (intro count_attempt_unat) simp
  then have act: "consume_action r env = Retry"
    using r(2) Suc.prems(6) by (simp add: consume_action_def has_retries_left_unat)
  have skip: "lane_skip ?c ?L = ?L" using lane_skip_one Suc.prems(3,4) by blast
  have pos: "0 < limit" using Suc.prems(8) by simp
  obtain s1 out1 b1 where s1: "consume_loop x registry blocking q limit (tally, out, s, e) =
      consume_loop x registry blocking q (limit - 1) (record_outcome (outcome_of (consume_action r env)) tally, out1, s1, e')"
    "queue_inv (queue_deps x) stored calm q s1" "queue_timely 0 q s1" "from_slice ?c b1 = Inr (count_attempt env)"
    "queue_view stored q s1 = lane_settle (consume_action r env) b1 ((lane_skip ?c ?L)\<lparr>waiting := []\<rparr>)"
    by (rule consume_round [where blocking = blocking and cmd = cmd and e = e and bs = "[]", OF codec Suc.prems(1,2) _ Suc.prems(4,5) r(1) pos])
      (use skip Suc.prems(3) in simp)
  have v1: "queue_view stored q s1 = ?L\<lparr>waiting := [b1]\<rparr>"
    using s1(5) act skip by (simp add: lane_settle_def lane_put_def)
  have less: "n < limit - 1" using Suc.prems(8) by simp
  obtain out' s' b' where fin: "consume_loop x registry blocking q (limit - 1) (record_outcome Retried tally, out1, s1, e') =
      Some (Inr (), (record_outcome Retried tally)\<lparr>retried := retried (record_outcome Retried tally) + n,
        moved_to_failed := Suc (moved_to_failed (record_outcome Retried tally))\<rparr>, out', s',
        (after ^^ Suc n) e')"
    "queue_inv (queue_deps x) stored calm q s'"
    "from_slice ?c b' = Inr ((count_attempt env)\<lparr>attempts := max_retries (count_attempt env) + 1\<rparr>)"
    "queue_view stored q s' = (queue_view stored q s1)\<lparr>waiting := [], dead := dead (queue_view stored q s1) @ [b']\<rparr>"
    using Suc.IH [OF s1(2,3) _ s1(4) _ _ _ less, of "record_outcome Retried tally" out1 e'] cnt
      Suc.prems(5-7) v1 by (auto simp: to_command_count)
  have pow: "(after ^^ Suc n) e' = (after ^^ Suc (Suc n)) e"
    by (metis comp_apply e'_def funpow_Suc_right)
  have b': "from_slice ?c b' = Inr (env\<lparr>attempts := max_retries env + 1\<rparr>)"
    using fin(3) by (simp add: count_attempt_def)
  show ?case
    using s1(1) fin(1,2,4) act v1 b' unfolding pow
    by (intro exI [of _ out'] exI [of _ s'] exI [of _ b']) simp
qed

end
