(* ===== verification/Samples.thy ===== *)
theory Samples
  imports Processing
begin

text \<open>
  Concrete instances of what the model leaves open, for applying its theorems: a codec with a
  provable round trip, a packer, a supply of names, a Redis server on lists, a file world with
  given messages, and the command registry with one command.
\<close>

section \<open>A codec\<close>

definition put_nat :: "nat \<Rightarrow> bytes" where
  "put_nat n = replicate n (CHR ''1'') @ ''0''"

definition get_nat :: "bytes \<Rightarrow> nat \<times> bytes" where
  "get_nat b = (length (takeWhile (\<lambda>c. c = CHR ''1'') b), tl (dropWhile (\<lambda>c. c = CHR ''1'') b))"

definition put_string :: "string \<Rightarrow> bytes" where
  "put_string s = put_nat (length s) @ s"

definition get_string :: "bytes \<Rightarrow> string \<times> bytes" where
  "get_string b = (case get_nat b of (n, r) \<Rightarrow> (take n r, drop n r))"

lemma get_put_nat [simp]: "get_nat (put_nat n @ r) = (n, r)"
  by (simp add: get_nat_def put_nat_def takeWhile_append dropWhile_append)

lemma get_put_string [simp]: "get_string (put_string s @ r) = (s, r)"
  by (simp add: get_string_def put_string_def)

definition sample_to_vec :: "command_envelope \<Rightarrow> bytes" where
  "sample_to_vec env = ''{'' @
     put_nat (unat (env_id env)) @ put_string (plugin_name env) @ put_string (command_name env)
     @ put_string (payload env) @ put_nat (if queued_at env < 0 then 1 else 0)
     @ put_nat (nat \<bar>queued_at env\<bar>) @ put_nat (if is_compressed env then 1 else 0)
     @ put_nat (unat (attempts env)) @ put_nat (unat (max_retries env))"

definition sample_from_slice :: "bytes \<Rightarrow> dyn_error + command_envelope" where
  "sample_from_slice b =
     (if take 1 b \<noteq> ''{'' then Inl (DynError ''expected value'' None)
      else case get_nat (tl b) of (i, b) \<Rightarrow>
           case get_string b of (p, b) \<Rightarrow> case get_string b of (c, b) \<Rightarrow>
           case get_string b of (pl, b) \<Rightarrow> case get_nat b of (neg, b) \<Rightarrow>
           case get_nat b of (t, b) \<Rightarrow> case get_nat b of (z, b) \<Rightarrow>
           case get_nat b of (a, b) \<Rightarrow> case get_nat b of (m, b) \<Rightarrow>
           Inr \<lparr>env_id = of_nat i, plugin_name = p, command_name = c, payload = pl,
                queued_at = (if neg = 1 then - int t else int t), is_compressed = (z = 1),
                attempts = of_nat a, max_retries = of_nat m\<rparr>)"

definition sample_codec :: codec where
  "sample_codec = \<lparr>to_vec_pretty = (\<lambda>env. Inr (sample_to_vec env @ [newline])),
     to_vec = (\<lambda>env. Inr (sample_to_vec env)), from_slice = sample_from_slice\<rparr>"

lemma get_put_nat_end [simp]: "get_nat (put_nat n) = (n, [])"
  using get_put_nat [of n "[]"] by simp

lemma sample_round_trip: "sample_from_slice (sample_to_vec env @ r) = Inr env"
  by (simp add: sample_from_slice_def sample_to_vec_def)

lemma sample_codec_ok: "codec_ok sample_codec"
  using sample_round_trip [of _ "[]"] sample_round_trip by (simp add: codec_ok_def sample_codec_def)

section \<open>A packer, a registry and an envelope\<close>

definition sample_packer :: packer where
  "sample_packer = \<lparr>gzip = (\<lambda>t. Inr (CHR ''z'' # t)), gunzip_to_string = (\<lambda>z. Inr (tl z)),
     base64_encode = (\<lambda>z. z), base64_decode = (\<lambda>t. Inr t)\<rparr>"

lemma sample_packer_ok: "packer_ok sample_packer"
  by (simp add: packer_ok_def sample_packer_def)

text \<open>The commands of the sample are texts.\<close>

definition sample_registry :: "string command_registry" where
  "sample_registry = \<lparr>plugins = [''p'' \<mapsto> [''c'' \<mapsto> (\<lambda>json. Inr json)]]\<rparr>"

definition sample_envelope :: "u32 \<Rightarrow> command_envelope" where
  "sample_envelope retries =
     \<lparr>env_id = 7, plugin_name = ''p'', command_name = ''c'', payload = ''{}'', queued_at = 0,
      is_compressed = False, attempts = 0, max_retries = retries\<rparr>"

lemma sample_to_command: "to_command sample_packer (sample_envelope n) sample_registry = Inr ''{}''"
  by (simp add: to_command_def sample_envelope_def build_command_def sample_registry_def)

section \<open>A file world\<close>

definition sample_uuids :: "nat \<Rightarrow> string" where
  "sample_uuids i = replicate (Suc i) (CHR ''a'')"

lemma replicate_less: "i < j \<Longrightarrow> replicate i c < replicate j (c :: char)"
proof (induction i arbitrary: j)
  case 0
  then show ?case by (cases j) simp_all
next
  case (Suc i)
  then show ?case by (cases j) simp_all
qed

lemma sample_uuid_supply: "uuid_supply sample_uuids"
proof -
  have "utf8_valid (sample_uuids i)" for i
    by (rule utf8_valid_ascii) (auto simp: sample_uuids_def)
  then show ?thesis
    using replicate_less [of "Suc _" "Suc _" "CHR ''a''"]
    by (auto simp: uuid_supply_def sample_uuids_def is_hidden_def simp del: replicate_Suc)
      (simp add: is_hidden_def)
qed

definition sample_store :: file_store where
  "sample_store = \<lparr>store_lane = Primary, pending_dir = ''p'', in_progress_dir = ''i'', failed_dir = ''f''\<rparr>"

text \<open>One pending message with the bytes \<open>b\<close>.\<close>

definition sample_world :: "bytes \<Rightarrow> world" where
  "sample_world b =
     \<lparr>dirs = [''p'' \<mapsto> [(''a'', RegFile b 0)], ''i'' \<mapsto> [], ''f'' \<mapsto> []], script = [], clock = 0,
      uuids = sample_uuids, uuid_next = 1\<rparr>"

lemma sample_clock [simp]: "clock (sample_world b) = 0" "script (sample_world b) = []"
  by (simp_all add: sample_world_def)

lemma sample_node:
  "node_at (dirs (sample_world b)) p n = (if p = ''p'' \<and> n = ''a'' then Some (RegFile b 0) else None)"
  by (auto simp: node_at_def sample_world_def)

lemma sample_base: "file_base sample_store (sample_world b)"
proof -
  have "stage_ok (sample_world b) (stage_dir sample_store s)" for s
    by (cases s) (auto simp: stage_ok_def sample_node next_name_def stage_dir_def sample_store_def is_hidden_def
      hidden_name_def settling_name_def TEMP_SUFFIX_def SETTLING_SUFFIX_def,
      auto simp: sample_world_def sample_uuids_def)
  then show ?thesis
    using sample_uuid_supply
    by (auto simp: file_base_def fs_ok_def sample_world_def all_stages_def stage_dir_def sample_store_def
      split: if_splits)
qed

lemma sample_vis:
  "stage_vis sample_store (sample_world b) s =
     (if s = Pending then [''a'' \<mapsto> RegFile b 0] else Map.empty)"
  by (cases s) (auto simp: stage_vis_def vis_def sample_node stage_dir_def sample_store_def is_hidden_def fun_eq_iff)

lemma view_of_empty [simp]: "view_of Map.empty = []"
  by (simp add: view_of_def files_of_def)

lemma view_of_single: "view_of [n \<mapsto> RegFile b t] = [(n, b)]"
  using view_of_add [of Map.empty n b t] by (simp add: files_of_def)

lemma sample_file_view:
  "file_view sample_store (sample_world b) = \<lparr>waiting = [b], running = [], dead = []\<rparr>"
  by (simp add: file_view_def lane_of_def sample_vis view_of_single)

lemma sample_file_inv: "file_inv sample_store (sample_world b)"
  using sample_base by (simp add: file_inv_iff claimed_first_def sample_vis files_of_def)

section \<open>A Redis server\<close>

type_synonym sample_server = "string \<Rightarrow> bytes list"

definition sample_execute :: "string \<Rightarrow> redis_arg list \<Rightarrow> sample_server \<Rightarrow> redis_value \<times> sample_server" where
  "sample_execute name args m =
     (case args of
        Arg k # rest \<Rightarrow>
          if name = ''LPUSH'' then
            (case rest of [Arg v] \<Rightarrow> (RInt (int (Suc (length (m k)))), m(k := v # m k)) | _ \<Rightarrow> (RNil, m))
          else if name = ''LREM'' then
            (case rest of [ArgInt i, Arg v] \<Rightarrow>
               (RInt (if v \<in> set (m k) then 1 else 0), m(k := remove1 v (m k))) | _ \<Rightarrow> (RNil, m))
          else if name = ''LMOVE'' \<or> name = ''BLMOVE'' then
            (case rest of Arg k2 # Arg from # Arg to # _ \<Rightarrow> redis_lmove k k2 from to m | _ \<Rightarrow> (RNil, m))
          else if name = ''LLEN'' then (RInt (int (length (m k))), m)
          else if name = ''DEL'' then (RInt (if m k = [] then 0 else 1), m(k := []))
          else if name = ''LRANGE'' then
            (case rest of [ArgInt a, ArgInt b] \<Rightarrow> (RArray (map RBulk (redis_range a b (m k))), m) | _ \<Rightarrow> (RNil, m))
          else (RNil, m)
      | _ \<Rightarrow> (RNil, m))"

definition sample_redis :: "sample_server redis_server" where
  "sample_redis = \<lparr>execute = sample_execute, request = (\<lambda>a s. (Inr (fst (a s)), snd (a s))),
     instant_now = (\<lambda>_. 0)\<rparr>"

lemma sample_redis_ok: "redis_ok sample_redis (\<lambda>s. s) (\<lambda>_. True)"
  by (simp add: redis_ok_def acts_as_def sample_redis_def sample_execute_def redis_lmove_def Let_def)

definition sample_lists :: "bytes list \<Rightarrow> sample_server" where
  "sample_lists bs = (\<lambda>k. if k = ''Q:Primary:Pending'' then rev bs else [])"

definition sample_driver :: redis_driver where
  "sample_driver = open_redis ''Q'' Primary"

lemma sample_driver_keys:
  "pending_key sample_driver = ''Q:Primary:Pending''"
  "in_progress_key sample_driver = ''Q:Primary:InProgress''"
  "failed_key sample_driver = ''Q:Primary:Failed''" "redis_lane_id sample_driver = Primary"
  by (simp_all add: sample_driver_def open_redis_def redis_stage_key_def)

lemma sample_redis_inv: "redis_inv sample_redis (\<lambda>s. s) (\<lambda>_. True) sample_driver m"
  using sample_redis_ok
  by (simp add: redis_inv_def all_stages_def stage_key_def sample_driver_keys)

lemma sample_redis_view:
  "redis_view (\<lambda>s. s) sample_driver (sample_lists bs) = \<lparr>waiting = bs, running = [], dead = []\<rparr>"
  by (simp add: redis_view_def lane_of_lists_def sample_driver_keys sample_lists_def)

section \<open>Queues on the samples\<close>

definition sample_deps :: "sample_server queue_deps" where
  "sample_deps = \<lparr>json_codec = sample_codec, redis_client = sample_redis\<rparr>"

definition sample_stores :: "bytes \<Rightarrow> sample_server stores" where
  "sample_stores b = \<lparr>files = sample_world b, server = sample_lists [b]\<rparr>"

definition sample_file_queue :: backend where
  "sample_file_queue = FileBackend sample_store"

definition sample_redis_queue :: backend where
  "sample_redis_queue = RedisBackend sample_driver"

lemma sample_deps_simps [simp]:
  "json_codec sample_deps = sample_codec" "redis_client sample_deps = sample_redis"
  "files (sample_stores b) = sample_world b" "server (sample_stores b) = sample_lists [b]"
  by (simp_all add: sample_deps_def sample_stores_def)

lemma sample_queue_inv:
  assumes "q \<in> {sample_file_queue, sample_redis_queue}"
  shows "queue_inv sample_deps (\<lambda>s. s) (\<lambda>_. True) q (sample_stores b)"
    and "queue_view (\<lambda>s. s) q (sample_stores b) = \<lparr>waiting = [b], running = [], dead = []\<rparr>"
    and "queue_timely 0 q (sample_stores b)"
  using assms sample_file_inv sample_redis_inv
  by (auto simp: queue_inv_def queue_view_def queue_timely_def sample_file_queue_def sample_redis_queue_def
    sample_file_view sample_redis_view map_receipts_def sample_clock instant_max_def)

lemma sample_redis_stores:
  fixes w :: world and bs :: "bytes list"
  defines "s \<equiv> \<lparr>files = w, server = sample_lists bs\<rparr>"
  shows "queue_inv sample_deps (\<lambda>s. s) (\<lambda>_. True) sample_redis_queue s"
    and "queue_view (\<lambda>s. s) sample_redis_queue s = \<lparr>waiting = bs, running = [], dead = []\<rparr>"
    and "queue_timely n sample_redis_queue s"
  using sample_redis_inv
  by (simp_all add: s_def queue_inv_def queue_view_def queue_timely_def sample_redis_queue_def sample_redis_view
    map_receipts_def)

definition sample_admin :: "sample_server admin_deps" where
  "sample_admin =
     \<lparr>queue_deps = sample_deps, packer_deps = sample_packer, connect_redis = (\<lambda>_ s. (Inr (), s)),
      admin_terminal = \<lparr>set_foreground = (\<lambda>_. []), reset_color = []\<rparr>,
      parse_object = (\<lambda>_. Inr ()), object_to_string = (\<lambda>_. Inr ''{}''),
      envelope_to_string = (\<lambda>env. Inr (payload env)), malformed_to_string = (\<lambda>raw reason. raw),
      show_uuid = (\<lambda>i. show_nat (unat i)), show_time = (\<lambda>t. show_nat (nat t))\<rparr>"

lemma sample_admin_simps [simp]:
  "queue_deps sample_admin = sample_deps" "packer_deps sample_admin = sample_packer"
  by (simp_all add: sample_admin_def)

end
