(* ===== verification/FileSafety.thy ===== *)
theory FileSafety
  imports FileRuns FileView
begin

text \<open>
  What survives when file calls fail, when the process crashes between two calls and when other
  processes work in the same directories. The rivals in the script may do anything but touch a
  set of protected names; every call may fail or be the last one before a crash.
\<close>

section \<open>Rivals that keep off some names\<close>

fun touches :: "(string \<times> string) set \<Rightarrow> rival \<Rightarrow> bool" where
  "touches S (Elapse n) = False"
| "touches S (RivalRemove p n) = ((p, n) \<in> S)"
| "touches S (RivalRename p n q m) = ((p, n) \<in> S \<or> (q, m) \<in> S)"
| "touches S (RivalWrite p n b) = ((p, n) \<in> S)"

definition keeps_off :: "(string \<times> string) set \<Rightarrow> world \<Rightarrow> bool" where
  "keeps_off S w = (\<forall>(rs, oc) \<in> set (script w). \<forall>r \<in> set rs. \<not> touches S r)"

definition agree :: "(string \<times> string) set \<Rightarrow> fsys \<Rightarrow> fsys \<Rightarrow> bool" where
  "agree S d d' = ((\<forall>p n. (p, n) \<in> S \<longrightarrow> node_at d' p n = node_at d p n) \<and> (\<forall>p. d' p = None \<longleftrightarrow> d p = None))"

lemma agree_refl [simp]: "agree S d d"
  by (simp add: agree_def)

lemma agree_trans: "agree S a b \<Longrightarrow> agree S b c \<Longrightarrow> agree S a c"
  by (auto simp: agree_def)

lemma agreeD: "agree S d d' \<Longrightarrow> (p, n) \<in> S \<Longrightarrow> node_at d' p n = node_at d p n"
  by (auto simp: agree_def)

lemma agree_dir: "agree S d d' \<Longrightarrow> d' p = None \<longleftrightarrow> d p = None"
  by (auto simp: agree_def)

lemma agree_remove: "(p, n) \<notin> S \<Longrightarrow> agree S d (snd (call_remove_file p n t d))"
  by (auto simp: call_remove_file_def agree_def split: option.splits node.splits)

lemma agree_rename: "(p, n) \<notin> S \<Longrightarrow> (q, m) \<notin> S \<Longrightarrow> agree S d (snd (call_rename p n q m t d))"
  by (auto simp: call_rename_def agree_def split: option.splits node.splits)

lemma agree_rival:
  assumes "\<not> touches S r"
  shows "agree S (dirs w) (dirs (rival_step r w))"
  using assms by (cases r) (auto simp: agree_remove agree_rename, auto simp: agree_def)

lemma agree_rivals:
  assumes "\<forall>r \<in> set rs. \<not> touches S r"
  shows "agree S (dirs w) (dirs (rivals rs w))"
  using assms
proof (induction rs arbitrary: w)
  case (Cons r rs)
  then show ?case
    using agree_trans [OF agree_rival [of S r w]] by (auto simp: rivals_def)
qed (simp add: rivals_def)

text \<open>
  One call: the rivals leave the protected names alone, and then the call has its effect, or it
  fails with its partial effect, or nothing happens because the process is gone.
\<close>

lemma syscall_cases:
  assumes "syscall_with part f w = (r, w')" "keeps_off S w"
  obtains d t where "agree S (dirs w) d" "keeps_off S w'" "uuids w' = uuids w" "uuid_next w' = uuid_next w"
    and "(r, dirs w') = f t d \<or> (\<exists>e k. r = Inl e \<and> (dirs w' = d \<or> dirs w' = part k t d))"
proof (cases "script w")
  case Nil
  then show thesis
    using assms that [of "dirs w" "clock w"]
    by (auto simp: syscall_with_def run_call_def keeps_off_def split: prod.splits)
next
  case (Cons x rest)
  obtain rs oc where x: "x = (rs, oc)" by (cases x)
  let ?w = "rivals rs (w\<lparr>script := rest\<rparr>)"
  have off: "keeps_off S ?w" "agree S (dirs w) (dirs ?w)" and same: "uuids ?w = uuids w" "uuid_next ?w = uuid_next w"
    using assms(2) Cons x agree_rivals [of rs S "w\<lparr>script := rest\<rparr>"] rivals_keep [of "w\<lparr>script := rest\<rparr>" rs]
    by (auto simp: keeps_off_def)
  show thesis
  proof (cases oc)
    case Proceed
    then have "(r, dirs w') = f (clock ?w) (dirs ?w)" "script w' = script ?w"
      "uuids w' = uuids ?w" "uuid_next w' = uuid_next ?w"
      using assms(1) Cons x by (auto simp: syscall_with_def run_call_def split: prod.splits)
    then show thesis
      using off same by (intro that [of "dirs ?w" "clock ?w"]) (simp_all add: keeps_off_def)
  next
    case (Fault e k)
    then have "r = Inl e" "dirs w' = part k (clock ?w) (dirs ?w)" "script w' = script ?w"
      "uuids w' = uuids ?w" "uuid_next w' = uuid_next ?w"
      using assms(1) Cons x by (auto simp: syscall_with_def Let_def)
    then show thesis
      using off same by (intro that [of "dirs ?w" "clock ?w"]) (auto simp: keeps_off_def)
  next
    case Crash
    then show thesis
      using assms Cons x that [of "dirs w"] by (auto simp: syscall_with_def)
  qed
qed

section \<open>Triples\<close>

text \<open>\<open>holds P m Q\<close>: from a state with \<open>P\<close>, whatever interferes, \<open>m\<close> ends in a result and state with \<open>Q\<close>.\<close>

definition holds :: "(world \<Rightarrow> bool) \<Rightarrow> (world \<Rightarrow> 'a \<times> world) \<Rightarrow> ('a \<Rightarrow> world \<Rightarrow> bool) \<Rightarrow> bool" where
  "holds P m Q = (\<forall>w. P w \<longrightarrow> Q (fst (m w)) (snd (m w)))"

lemma holdsD: "holds P m Q \<Longrightarrow> P w \<Longrightarrow> m w = (r, w') \<Longrightarrow> Q r w'"
  by (metis fst_conv holds_def snd_conv)

lemma holds_ret: "(\<And>w. P w \<Longrightarrow> Q (Inr x) w) \<Longrightarrow> holds P (retE x) Q"
  by (simp add: holds_def retE_def)

lemma holds_fail: "(\<And>w. P w \<Longrightarrow> Q (Inl e) w) \<Longrightarrow> holds P (failE e) Q"
  by (simp add: holds_def failE_def)

lemma holds_bind:
  assumes "holds P m R" "\<And>x. holds (R (Inr x)) (k x) Q" "\<And>e w. R (Inl e) w \<Longrightarrow> Q (Inl e) w"
  shows "holds P (bindE m k) Q"
  using assms unfolding holds_def bindE_def
  by (auto split: prod.split sum.split)

lemma holds_catch:
  assumes "holds P m R" "\<And>r. holds (R r) (k r) Q"
  shows "holds P (catchE m k) Q"
  using assms unfolding holds_def catchE_def
  by (auto split: prod.split)

lemma holds_map_err:
  assumes "holds P m (\<lambda>r. Q (map_sum f id r))"
  shows "holds P (map_errE f m) Q"
  using assms unfolding holds_def map_errE_def
  by (auto split: prod.split sum.split)

lemma holds_weaken:
  "holds P' m Q' \<Longrightarrow> (\<And>w. P w \<Longrightarrow> P' w) \<Longrightarrow> (\<And>r w. Q' r w \<Longrightarrow> Q r w) \<Longrightarrow> holds P m Q"
  by (auto simp: holds_def)

text \<open>A predicate on the protected names only.\<close>

definition depends_on :: "(string \<times> string) set \<Rightarrow> (fsys \<Rightarrow> bool) \<Rightarrow> bool" where
  "depends_on S I = (\<forall>d d'. agree S d d' \<longrightarrow> I d \<longrightarrow> I d')"

text \<open>\<open>N\<close> is the next name of the supply, where it matters.\<close>

definition safe :: "(string \<times> string) set \<Rightarrow> string option \<Rightarrow> (fsys \<Rightarrow> bool) \<Rightarrow> world \<Rightarrow> bool" where
  "safe S N I w = (keeps_off S w \<and> (\<forall>n. N = Some n \<longrightarrow> next_name w = n) \<and> I (dirs w))"

lemma holds_syscall_with:
  assumes dep: "depends_on S I"
    and ok: "\<And>t d r d'. I d \<Longrightarrow> f t d = (r, d') \<Longrightarrow> J r d'"
    and fault: "\<And>e d. I d \<Longrightarrow> J (Inl e) d"
    and partial: "\<And>k t d e. I d \<Longrightarrow> J (Inl e) (part k t d)"
  shows "holds (safe S N I) (syscall_with part f) (\<lambda>r. safe S N (J r))"
  unfolding holds_def
proof (intro allI impI)
  fix w assume w: "safe S N I w"
  obtain r w' where run: "syscall_with part f w = (r, w')" by fastforce
  obtain d t where d: "agree S (dirs w) d" "keeps_off S w'" "uuids w' = uuids w" "uuid_next w' = uuid_next w"
    "(r, dirs w') = f t d \<or> (\<exists>e k. r = Inl e \<and> (dirs w' = d \<or> dirs w' = part k t d))"
    using syscall_cases [OF run, of S] w unfolding safe_def by metis
  have "I d" using d(1) dep w unfolding depends_on_def safe_def by blast
  then have "J r (dirs w')" using d(5) ok fault partial by metis
  then show "safe S N (J (fst (syscall_with part f w))) (snd (syscall_with part f w))"
    using run d(2-4) w by (simp add: safe_def next_name_def)
qed

lemma holds_syscall:
  assumes "depends_on S I" "\<And>t d r d'. I d \<Longrightarrow> f t d = (r, d') \<Longrightarrow> J r d'" "\<And>e d. I d \<Longrightarrow> J (Inl e) d"
  shows "holds (safe S N I) (syscall f) (\<lambda>r. safe S N (J r))"
  unfolding syscall_def by (rule holds_syscall_with [where I = I]) (use assms in auto)

lemma holds_new_name:
  assumes "\<And>w. P w \<Longrightarrow> safe S (Some n) I w" "holds (safe S None I) (k n) Q"
  shows "holds P (with_new_name k) Q"
  using assms unfolding holds_def safe_def by (auto simp: bump_def keeps_off_def)

lemma holds_path_exists:
  assumes dep: "depends_on S I" and k: "\<And>b. holds (safe S N I) (k b) Q"
  shows "holds (safe S N I) (\<lambda>w. case path_exists p n w of (b, w') \<Rightarrow> k b w') Q"
  unfolding holds_def
proof (intro allI impI)
  fix w assume w: "safe S N I w"
  have call: "holds (safe S N I) (syscall (call_exists p n)) (\<lambda>r. safe S N I)"
    by (rule holds_syscall [OF dep]) (auto simp: call_exists_def)
  obtain r w' where r: "syscall (call_exists p n) w = (r, w')" by fastforce
  have "safe S N I w'" by (rule holdsD [OF call w r])
  then show "Q (fst (case path_exists p n w of (b, w') \<Rightarrow> k b w')) (snd (case path_exists p n w of (b, w') \<Rightarrow> k b w'))"
    using r k unfolding holds_def by (cases r) (auto simp: path_exists_def)
qed

section \<open>A settle loses nothing\<close>

text \<open>
  The claimed message with bytes \<open>b\<close> lies in the in-progress directory under its name or under
  its settling name; the new message with bytes \<open>j\<close> lies in the target directory.
\<close>

definition kept :: "string \<Rightarrow> string \<Rightarrow> bytes \<Rightarrow> fsys \<Rightarrow> bool" where
  "kept ip k b d =
     ((\<exists>t. node_at d ip k = Some (RegFile b t)) \<and> node_at d ip (settling_name k) = None
      \<or> node_at d ip k = None \<and> (\<exists>t. node_at d ip (settling_name k) = Some (RegFile b t)))"

definition written :: "string \<Rightarrow> string \<Rightarrow> bytes \<Rightarrow> fsys \<Rightarrow> bool" where
  "written tp tn j d = (\<exists>t. node_at d tp tn = Some (RegFile j t))"

definition settle_names :: "string \<Rightarrow> string \<Rightarrow> string \<Rightarrow> string \<Rightarrow> (string \<times> string) set" where
  "settle_names ip k tp tn =
     {(ip, k), (ip, settling_name k), (tp, tn), (tp, hidden_name tn TEMP_SUFFIX)}"

definition unwritten :: "string \<Rightarrow> string \<Rightarrow> fsys \<Rightarrow> bool" where
  "unwritten tp tn d =
     (node_at d tp tn = None \<and> node_at d tp (hidden_name tn TEMP_SUFFIX) = None \<and> d tp \<noteq> None)"

definition half_written :: "string \<Rightarrow> string \<Rightarrow> bytes \<Rightarrow> fsys \<Rightarrow> bool" where
  "half_written tp tn j d = (node_at d tp tn = None \<and> d tp \<noteq> None
     \<and> (\<exists>t. node_at d tp (hidden_name tn TEMP_SUFFIX) = Some (RegFile j t)))"

lemmas state_defs = kept_def written_def unwritten_def half_written_def

lemma depends_settle:
  "depends_on (settle_names ip k tp tn) (kept ip k b)"
  "depends_on (settle_names ip k tp tn) (written tp tn j)"
  "depends_on (settle_names ip k tp tn) (unwritten tp tn)"
  "depends_on (settle_names ip k tp tn) (half_written tp tn j)"
  by (auto simp: depends_on_def state_defs settle_names_def agree_def)

lemma depends_conj:
  "depends_on S I \<Longrightarrow> depends_on S J \<Longrightarrow> depends_on S (\<lambda>d. I d \<and> J d)"
  by (auto simp: depends_on_def)

lemma some_put_node [simp]: "(\<exists>y. put_node p n x d q = Some y) \<longleftrightarrow> (\<exists>y. d q = Some y)"
  using put_node_None [of p n x d q] by (metis not_None_eq)

lemma some_drop_node [simp]: "(\<exists>y. drop_node p n d q = Some y) \<longleftrightarrow> (\<exists>y. d q = Some y)"
  using drop_node_None [of p n d q] by (metis not_None_eq)

lemma some_write_prefix [simp]: "(\<exists>y. write_prefix p n b t d q = Some y) \<longleftrightarrow> (\<exists>y. d q = Some y)"
  using write_prefix_None [of p n b t d q] by (metis not_None_eq)

lemma settling_name_neq [simp]: "settling_name k \<noteq> k" "k \<noteq> settling_name k"
proof -
  have "length (settling_name k) \<noteq> length k" by (simp add: settling_name_def hidden_name_def)
  then show "settling_name k \<noteq> k" "k \<noteq> settling_name k" by fastforce+
qed

text \<open>
  An atomic write beside names \<open>S\<close> that must keep \<open>K\<close>: the new file never shows with other
  contents than the whole message, and after a success it is there.
\<close>

definition complete :: "string \<Rightarrow> string \<Rightarrow> bytes \<Rightarrow> fsys \<Rightarrow> bool" where
  "complete tp tn j d = (node_at d tp tn = None \<or> written tp tn j d)"

definition write_names :: "string \<Rightarrow> string \<Rightarrow> (string \<times> string) set" where
  "write_names tp tn = {(tp, tn), (tp, hidden_name tn TEMP_SUFFIX)}"

lemma depends_mono: "depends_on S I \<Longrightarrow> S \<subseteq> S' \<Longrightarrow> depends_on S' I"
  unfolding depends_on_def agree_def by blast

lemma depends_write:
  "depends_on (write_names tp tn) (written tp tn j)"
  "depends_on (write_names tp tn) (unwritten tp tn)"
  "depends_on (write_names tp tn) (half_written tp tn j)"
  "depends_on (write_names tp tn) (complete tp tn j)"
  by (auto simp: depends_on_def state_defs complete_def write_names_def agree_def)

lemma agree_create: "(p, n) \<notin> S \<Longrightarrow> agree S d (snd (call_create_new p n t d))"
  by (auto simp: call_create_new_def agree_def split: option.splits)

lemma agree_write: "(p, n) \<notin> S \<Longrightarrow> agree S d (write_prefix p n b t d)"
  by (auto simp: agree_def node_at_write_prefix)

lemma depends_agree: "depends_on S K \<Longrightarrow> K d \<Longrightarrow> agree S d d' \<Longrightarrow> K d'"
  by (auto simp: depends_on_def)

lemma write_atomic_triple:
  assumes K: "depends_on S K" and off: "write_names tp tn \<inter> S = {}" and tn: "\<not> is_hidden tn"
  defines "U \<equiv> S \<union> write_names tp tn"
  shows "holds (safe U N (\<lambda>d. K d \<and> unwritten tp tn d)) (write_atomic tp tn j)
    (\<lambda>r. safe U N (\<lambda>d. K d \<and> (if r = Inr () then written tp tn j d else complete tp tn j d)))"
    (is "holds _ _ (\<lambda>r. safe U N (?Q r))")
proof -
  let ?t = "hidden_name tn TEMP_SUFFIX"
  have tt: "?t \<noteq> tn" using not_hidden_neq_hidden [OF tn] by (rule not_sym)
  have out: "(tp, tn) \<notin> S" "(tp, ?t) \<notin> S" using off by (auto simp: write_names_def)
  have KU: "depends_on U K" by (rule depends_mono [OF K]) (simp add: U_def)
  have WU: "depends_on U (written tp tn b)" "depends_on U (unwritten tp tn)" "depends_on U (half_written tp tn b)"
    "depends_on U (complete tp tn b)" for b
    by (rule depends_write [THEN depends_mono], simp add: U_def)+
  note dep = depends_conj [OF KU WU(1)] depends_conj [OF KU WU(2)] depends_conj [OF KU WU(3)] depends_conj [OF KU WU(4)]
  have frame: "K d \<Longrightarrow> agree S d d' \<Longrightarrow> K d'" for d d' by (rule depends_agree [OF K])
  have keeps: "K d \<Longrightarrow> call_create_new tp ?t t d = (r, d') \<Longrightarrow> K d'"
    "K d \<Longrightarrow> K (write_prefix tp ?t b t d)"
    "K d \<Longrightarrow> call_rename tp ?t tp tn t d = (r, d') \<Longrightarrow> K d'"
    "K d \<Longrightarrow> call_remove_file tp ?t t d = (r, d') \<Longrightarrow> K d'" for t d r d' b
    using frame [OF _ agree_create [OF out(2), of d t]] frame [OF _ agree_write [OF out(2), of d b t]]
      frame [OF _ agree_rename [OF out(2,1), of d t]] frame [OF _ agree_remove [OF out(2), of d t]] by auto
  let ?W = "\<lambda>b d. K d \<and> half_written tp tn b d" and ?C = "\<lambda>d. K d \<and> complete tp tn j d"
  let ?D = "\<lambda>d. K d \<and> written tp tn j d"
  have create: "holds (safe U N (\<lambda>d. K d \<and> unwritten tp tn d)) (fs_create_new tp ?t)
      (\<lambda>r. safe U N (if r = Inr () then ?W [] else ?C))"
    unfolding fs_create_new_def
    by (rule holds_syscall [OF dep(2)])
      (use tt keeps(1) in \<open>auto simp: state_defs complete_def\<close>,
       use tt in \<open>auto simp: call_create_new_def state_defs split: option.splits if_splits\<close>)
  have fill: "holds (safe U N (?W [])) (fs_write_all tp ?t j) (\<lambda>r. safe U N (if r = Inr () then ?W j else ?C))"
    unfolding fs_write_all_def
    by (rule holds_syscall_with [OF dep(3)])
      (use tt keeps(2) in \<open>auto simp: call_write_all_def state_defs complete_def node_at_write_prefix\<close>)
  have sync: "holds (safe U N (?W j)) fs_sync_all (\<lambda>r. safe U N (if r = Inr () then ?W j else ?C))"
    unfolding fs_sync_all_def
    by (rule holds_syscall [OF dep(3)]) (auto simp: call_sync_def state_defs complete_def)
  have rename: "holds (safe U N (?W j)) (fs_rename tp ?t tp tn) (\<lambda>r. safe U N (if r = Inr () then ?D else ?C))"
    unfolding fs_rename_def
    by (rule holds_syscall [OF dep(3)])
      (use tt keeps(3) in \<open>auto simp: state_defs complete_def\<close>,
       use tt in \<open>auto simp: call_rename_def state_defs split: option.splits\<close>)
  have remove: "holds (safe U N ?C) (fs_remove_file tp ?t) (\<lambda>r. safe U N ?C)"
    unfolding fs_remove_file_def
    by (rule holds_syscall [OF dep(4)])
      (use tt keeps(4) in \<open>auto simp: state_defs complete_def\<close>,
       use tt in \<open>auto simp: call_remove_file_def state_defs split: option.splits node.splits\<close>)
  have whole: "holds (safe U N (?W [])) (bindE (fs_write_all tp ?t j) (\<lambda>_. bindE fs_sync_all (\<lambda>_. fs_rename tp ?t tp tn)))
      (\<lambda>r. safe U N (if r = Inr () then ?D else ?C))"
    by (rule holds_bind [OF fill], simp, rule holds_bind [OF sync], simp_all add: rename)
  have finish: "holds (safe U N ?D) (bindE (fs_open_dir tp) (\<lambda>_. fs_sync_all))
      (\<lambda>r. safe U N (if r = Inr () then ?D else ?C))"
    unfolding fs_open_dir_def fs_sync_all_def
    by (rule holds_bind [where R = "\<lambda>_. safe U N ?D"]; (rule holds_syscall [OF dep(1)])?)
      (auto simp: call_open_dir_def call_sync_def safe_def complete_def)
  have undo: "holds (safe U N ?C) (catchE (fs_remove_file tp ?t) (\<lambda>_. failE e))
      (\<lambda>r. safe U N (if r = Inr () then ?D else ?C))" for e
    by (rule holds_catch [OF remove]) (rule holds_fail, simp)
  have "holds (safe U N (\<lambda>d. K d \<and> unwritten tp tn d)) (write_atomic tp tn j)
      (\<lambda>r. safe U N (if r = Inr () then ?D else ?C))"
    unfolding write_atomic_def Let_def
  proof (rule holds_bind [OF create])
    fix x :: unit
    show "holds (safe U N (if (Inr x :: io_error + unit) = Inr () then ?W [] else ?C))
      (catchE (bindE (fs_write_all tp ?t j) (\<lambda>_. bindE fs_sync_all (\<lambda>_. fs_rename tp ?t tp tn)))
        (\<lambda>written. case written of
            Inl error \<Rightarrow> catchE (fs_remove_file tp ?t) (\<lambda>_. failE error)
          | Inr _ \<Rightarrow> bindE (fs_open_dir tp) (\<lambda>_. fs_sync_all)))
      (\<lambda>r. safe U N (if r = Inr () then ?D else ?C))"
      by (simp, rule holds_catch [OF whole]) (rename_tac r, case_tac r, simp_all add: undo finish)
  qed simp
  moreover have "(if r = Inr () then ?D else ?C) = (\<lambda>d. K d \<and> (if r = Inr () then written tp tn j d else complete tp tn j d))"
    for r :: "io_error + unit" by auto
  ultimately show ?thesis by simp
qed

lemma write_atomic_safe:
  assumes ne: "tp \<noteq> ip" and tn: "\<not> is_hidden tn"
  shows "holds (safe (settle_names ip k tp tn) N (\<lambda>d. kept ip k b d \<and> unwritten tp tn d))
    (write_atomic tp tn j)
    (\<lambda>r. safe (settle_names ip k tp tn) N (\<lambda>d. kept ip k b d \<and> (r = Inr () \<longrightarrow> written tp tn j d)))"
proof -
  let ?S = "{(ip, k), (ip, settling_name k)}"
  have S: "?S \<union> write_names tp tn = settle_names ip k tp tn" "write_names tp tn \<inter> ?S = {}"
    using ne by (auto simp: write_names_def settle_names_def)
  have "depends_on ?S (kept ip k b)" by (auto simp: depends_on_def kept_def agree_def)
  from write_atomic_triple [OF this S(2) tn, unfolded S(1)] show ?thesis
    by (rule holds_weaken) (auto simp: safe_def split: if_splits)
qed

lemma finish_move_safe:
  fixes k tn :: "string" and b j :: "bytes"
  assumes ne: "tp \<noteq> in_progress_dir st"
  defines "S \<equiv> settle_names (in_progress_dir st) k tp tn"
  defines "K \<equiv> kept (in_progress_dir st) k b"
  shows "holds (safe S N (\<lambda>d. K d \<and> written tp tn j d))
    (store_finish_move st (settling_name k) tp tn)
    (\<lambda>r. safe S N (\<lambda>d. if r = Inr True then written tp tn j d else K d))"
    (is "holds _ _ (\<lambda>r. safe S N (?R r))")
proof -
  have dep: "depends_on S (\<lambda>d. K d \<and> written tp tn j d)" "depends_on S K"
    unfolding S_def K_def by (auto intro: depends_conj depends_settle)
  have remove: "holds (safe S N (\<lambda>d. K d \<and> written tp tn j d))
      (fs_remove_file (in_progress_dir st) (settling_name k))
      (\<lambda>r. safe S N (\<lambda>d. written tp tn j d \<and> (\<forall>e. r = Inl e \<longrightarrow> K d)))"
    unfolding fs_remove_file_def
    by (rule holds_syscall [OF dep(1)])
      (use ne in \<open>auto simp: call_remove_file_def K_def state_defs split: option.splits node.splits\<close>)
  have target: "holds (safe S N K) (fs_remove_file tp tn) (\<lambda>r. safe S N K)"
    unfolding fs_remove_file_def
    by (rule holds_syscall [OF dep(2)])
      (use ne in \<open>auto simp: call_remove_file_def K_def kept_def split: option.splits node.splits\<close>)
  have again: "holds (safe S N K) (remove_if_present tp tn) (\<lambda>r. safe S N K)"
    unfolding remove_if_present_def
    by (rule holds_catch [OF target], rename_tac r, case_tac r)
      (auto intro!: holds_ret holds_fail)
  show ?thesis
    unfolding store_finish_move_def
  proof (rule holds_catch [OF remove])
    fix r :: "io_error + unit"
    let ?P = "safe S N (\<lambda>d. written tp tn j d \<and> (\<forall>e. r = Inl e \<longrightarrow> K d))"
    show "holds ?P (case r of Inr _ \<Rightarrow> retE True | Inl error \<Rightarrow>
        if io_kind error = NotFound
        then bindE (io_to_queue (remove_if_present tp tn)) (\<lambda>_. retE False) else retE True)
        (\<lambda>r. safe S N (?R r))"
    proof (cases r)
      case (Inl e)
      have "holds ?P (bindE (io_to_queue (remove_if_present tp tn)) (\<lambda>_. retE False)) (\<lambda>r. safe S N (?R r))"
        using Inl
        by (intro holds_bind [where R = "\<lambda>_. safe S N K"] holds_map_err holds_weaken [OF again] holds_ret)
          (auto simp: safe_def)
      moreover have "holds ?P (retE True) (\<lambda>r. safe S N (?R r))"
        by (rule holds_ret) (auto simp: safe_def)
      ultimately show ?thesis using Inl by simp
    next
      case (Inr u)
      then show ?thesis by (auto intro!: holds_ret simp: safe_def)
    qed
  qed
qed

lemma holds_serialize:
  assumes "\<And>j. to_vec_pretty c env = Inr j \<Longrightarrow> holds P (k j) Q" "\<And>e w. P w \<Longrightarrow> Q (Inl (Serialization e)) w"
  shows "holds P (bindE (serialize c env) k) Q"
  using assms unfolding holds_def bindE_def serialize_def by (auto split: sum.split)

text \<open>
  The whole settle. \<open>tn\<close> is the name the new message would get. If the settle reports success the
  new message is in the target directory; otherwise the claimed one is still in progress, under
  its own name or under its settling name, where \<open>store_recover\<close> finds it.
\<close>

lemma write_moved_safe:
  fixes k tn :: "string" and b j :: "bytes"
  assumes ne: "stage_dir st t \<noteq> in_progress_dir st" and tn: "\<not> is_hidden tn"
  defines "S \<equiv> settle_names (in_progress_dir st) k (stage_dir st t) tn"
  defines "K \<equiv> kept (in_progress_dir st) k b"
  shows "holds (safe S (Some tn) (\<lambda>d. K d \<and> unwritten (stage_dir st t) tn d))
    (store_write_moved c st k env t)
    (\<lambda>r. safe S None (\<lambda>d. if r = Inr True
       then \<exists>j. to_vec_pretty c env = Inr j \<and> written (stage_dir st t) tn j d else K d))"
    (is "holds ?P _ (\<lambda>r. safe S None (?R r))")
proof -
  let ?tp = "stage_dir st t" and ?ip = "in_progress_dir st"
  note dep = depends_settle(1) [of ?ip k ?tp tn b, folded S_def K_def]
  have undo: "holds (safe S None K) (fs_rename ?ip (settling_name k) ?ip k) (\<lambda>r. safe S None K)"
    unfolding fs_rename_def
    by (rule holds_syscall [OF dep])
      (auto simp: call_rename_def K_def kept_def node_at_dir split: option.splits)
  have atomic: "holds (safe S None (\<lambda>d. K d \<and> unwritten ?tp tn d)) (write_atomic ?tp tn j)
      (\<lambda>r. safe S None (\<lambda>d. K d \<and> (r = Inr () \<longrightarrow> written ?tp tn j d)))" for j
    unfolding S_def K_def by (rule write_atomic_safe [OF ne tn])
  have finish: "holds (safe S None (\<lambda>d. K d \<and> written ?tp tn j d))
      (store_finish_move st (settling_name k) ?tp tn)
      (\<lambda>r. safe S None (\<lambda>d. if r = Inr True then written ?tp tn j d else K d))" for j
    unfolding S_def K_def by (rule finish_move_safe [OF ne])
  have settle: "holds (safe S None (\<lambda>d. K d \<and> unwritten ?tp tn d))
      (catchE (write_atomic ?tp tn j) (\<lambda>r. case r of
          Inl error \<Rightarrow> catchE (fs_rename ?ip (settling_name k) ?ip k) (\<lambda>_. failE (QueueIo error))
        | Inr _ \<Rightarrow> store_finish_move st (settling_name k) ?tp tn)) (\<lambda>r. safe S None (?R r))"
    if j: "to_vec_pretty c env = Inr j" for j
  proof (rule holds_catch [OF atomic])
    fix r :: "io_error + unit"
    let ?Q = "safe S None (\<lambda>d. K d \<and> (r = Inr () \<longrightarrow> written ?tp tn j d))"
    show "holds ?Q (case r of
          Inl error \<Rightarrow> catchE (fs_rename ?ip (settling_name k) ?ip k) (\<lambda>_. failE (QueueIo error))
        | Inr _ \<Rightarrow> store_finish_move st (settling_name k) ?tp tn) (\<lambda>r. safe S None (?R r))"
    proof (cases r)
      case (Inl e)
      then show ?thesis
        by (simp, intro holds_catch [OF holds_weaken [OF undo]] holds_fail) (auto simp: safe_def)
    next
      case (Inr u)
      show ?thesis
        using Inr j
        by (simp, intro holds_weaken [OF finish]) (auto simp: safe_def split: if_splits)
    qed
  qed
  show ?thesis
    unfolding store_write_moved_def Let_def
  proof (rule holds_serialize)
    fix j assume "to_vec_pretty c env = Inr j"
    then show "holds ?P (with_new_name (\<lambda>target_name. catchE (write_atomic ?tp target_name j) (\<lambda>r. case r of
          Inl error \<Rightarrow> catchE (fs_rename ?ip (settling_name k) ?ip k) (\<lambda>_. failE (QueueIo error))
        | Inr _ \<Rightarrow> store_finish_move st (settling_name k) ?tp target_name))) (\<lambda>r. safe S None (?R r))"
      using settle by (intro holds_new_name [where n = tn and S = S and I = "\<lambda>d. K d \<and> unwritten ?tp tn d"]) auto
  qed (auto simp: safe_def)
qed

lemma move_claimed_safe:
  fixes k tn :: "string" and b j :: "bytes"
  assumes ne: "stage_dir st t \<noteq> in_progress_dir st" and tn: "\<not> is_hidden tn"
  defines "S \<equiv> settle_names (in_progress_dir st) k (stage_dir st t) tn"
  defines "K \<equiv> kept (in_progress_dir st) k b"
  shows "holds (safe S (Some tn) (\<lambda>d. K d \<and> unwritten (stage_dir st t) tn d))
    (store_move_claimed c st k env t)
    (\<lambda>r. safe S None (\<lambda>d. if r = Inr True
       then \<exists>j. to_vec_pretty c env = Inr j \<and> written (stage_dir st t) tn j d else K d))"
    (is "holds ?P _ (\<lambda>r. safe S None (?R r))")
proof -
  let ?tp = "stage_dir st t" and ?ip = "in_progress_dir st"
  note dep = depends_conj [OF depends_settle(1) depends_settle(3), of ?ip k ?tp tn b, folded S_def K_def]
  note moved = write_moved_safe [OF ne tn, of k b c env, folded S_def K_def]
  have rename: "holds ?P (fs_rename ?ip k ?ip (settling_name k)) (\<lambda>r. ?P)"
    unfolding fs_rename_def
    by (rule holds_syscall [OF dep])
      (use ne in \<open>auto simp: call_rename_def K_def kept_def unwritten_def node_at_dir split: option.splits\<close>)
  have first: "holds ?P (io_to_queue (rename_if_present ?ip k ?ip (settling_name k))) (\<lambda>r. ?P)"
    unfolding rename_if_present_def
    by (rule holds_map_err, rule holds_catch [OF rename], rename_tac r, case_tac r)
      (auto intro!: holds_ret holds_fail)
  show ?thesis
    unfolding store_move_claimed_def Let_def
  proof (rule holds_bind [OF first])
    fix renamed
    show "holds ?P (if renamed then store_write_moved c st k env t
        else (\<lambda>w. case path_exists ?ip (settling_name k) w of (there, w') \<Rightarrow>
            if \<not> there then retE False w' else store_write_moved c st k env t w')) (\<lambda>r. safe S None (?R r))"
    proof (cases renamed)
      case False
      have "holds ?P (\<lambda>w. case path_exists ?ip (settling_name k) w of (there, w') \<Rightarrow>
            (if \<not> there then retE False else store_write_moved c st k env t) w') (\<lambda>r. safe S None (?R r))"
        by (rule holds_path_exists [OF dep], rename_tac there, case_tac there)
          (simp_all add: moved, rule holds_ret, auto simp: safe_def)
      then show ?thesis using False by (simp add: if_distrib [of "\<lambda>f. f _"] cong: if_cong)
    qed (simp add: moved)
  qed (auto simp: safe_def)
qed

section \<open>Recovery finds what a crash left\<close>

text \<open>The directories exist and hold files only; unfinished settles and stray files are allowed.\<close>

definition readable :: "file_store \<Rightarrow> world \<Rightarrow> bool" where
  "readable st w =
     (script w = [] \<and> fs_ok (dirs w) \<and> in_progress_dir st \<noteq> pending_dir st
      \<and> (\<forall>p \<in> {in_progress_dir st, pending_dir st}.
           dirs w p \<noteq> None \<and> (\<forall>n x. node_at (dirs w) p n = Some x \<longrightarrow> is_file x)))"

definition moves :: "file_store \<Rightarrow> (string \<Rightarrow> string) \<Rightarrow> string set \<Rightarrow> world \<Rightarrow> world \<Rightarrow> bool" where
  "moves st f N w w' =
     (readable st w'
      \<and> (\<forall>x. node_at (dirs w') (in_progress_dir st) x =
            (if x \<in> f ` N then None else node_at (dirs w) (in_progress_dir st) x))
      \<and> (\<forall>x. node_at (dirs w') (pending_dir st) x =
            (if x \<in> N \<and> node_at (dirs w) (in_progress_dir st) (f x) \<noteq> None
             then node_at (dirs w) (in_progress_dir st) (f x) else node_at (dirs w) (pending_dir st) x)))"

lemma moves_none: "readable st w \<Longrightarrow> moves st f {} w w"
  by (simp add: moves_def)

lemma moves_one:
  assumes "readable st w"
  shows "\<exists>b w'. rename_if_present (in_progress_dir st) (f n) (pending_dir st) n w = (Inr b, w')
    \<and> moves st f {n} w w'"
proof (cases "node_at (dirs w) (in_progress_dir st) (f n)")
  case None
  then have "moves st f {n} w w" using assms by (auto simp: moves_def)
  then show ?thesis using None assms rename_if_present_missing [of w] by (auto simp: readable_def)
next
  case (Some x)
  then have "is_file x" using assms unfolding readable_def by blast
  then obtain b t where x: "x = RegFile b t" by (auto simp: is_file_iff)
  let ?d = "put_node (pending_dir st) n (RegFile b t) (drop_node (in_progress_dir st) (f n) (dirs w))"
  have "rename_if_present (in_progress_dir st) (f n) (pending_dir st) n w = (Inr True, w\<lparr>dirs := ?d\<rparr>)"
    using Some x assms by (intro rename_if_present_quiet) (auto simp: readable_def)
  moreover have "moves st f {n} w (w\<lparr>dirs := ?d\<rparr>)"
    using assms Some x by (auto simp: moves_def readable_def split: if_splits)
  ultimately show ?thesis by blast
qed

lemma moves_more:
  assumes "moves st f {n} w w1" "moves st f N w1 w2" "inj f"
  shows "moves st f (insert n N) w w2"
proof -
  let ?ip = "in_progress_dir st" and ?pd = "pending_dir st"
  have one: "node_at (dirs w1) ?ip x = (if x = f n then None else node_at (dirs w) ?ip x)"
    "node_at (dirs w1) ?pd x = (if x = n \<and> node_at (dirs w) ?ip (f n) \<noteq> None
       then node_at (dirs w) ?ip (f n) else node_at (dirs w) ?pd x)" for x
    using assms(1) by (auto simp: moves_def)
  have two: "readable st w2" "node_at (dirs w2) ?ip x = (if x \<in> f ` N then None else node_at (dirs w1) ?ip x)"
    "node_at (dirs w2) ?pd x = (if x \<in> N \<and> node_at (dirs w1) ?ip (f x) \<noteq> None
       then node_at (dirs w1) ?ip (f x) else node_at (dirs w1) ?pd x)" for x
    using assms(2) by (auto simp: moves_def)
  have inj: "f x = f n \<longleftrightarrow> x = n" for x using assms(3) by (simp add: inj_eq)
  show ?thesis
    unfolding moves_def
  proof (intro conjI allI)
    fix x
    show "node_at (dirs w2) ?ip x = (if x \<in> f ` insert n N then None else node_at (dirs w) ?ip x)"
      unfolding two(2) one(1) by simp
    show "node_at (dirs w2) ?pd x = (if x \<in> insert n N \<and> node_at (dirs w) ?ip (f x) \<noteq> None
        then node_at (dirs w) ?ip (f x) else node_at (dirs w) ?pd x)"
      unfolding two(3) one inj by (cases "x = n"; cases "node_at (dirs w) ?ip (f x)") simp_all
  qed (rule two(1))
qed

lemma recover_messages_moves:
  assumes "readable st w"
  shows "\<exists>k w'. recover_messages st names moved w = (Inr k, w') \<and> moves st (\<lambda>n. n) (set names) w w'"
  using assms
proof (induction names arbitrary: w moved)
  case (Cons n names)
  then obtain b w1 where w1: "rename_if_present (in_progress_dir st) n (pending_dir st) n w = (Inr b, w1)"
    "moves st (\<lambda>n. n) {n} w w1" using moves_one [of st w "\<lambda>n. n" n] by blast
  then obtain k w2 where "recover_messages st names (if b then Suc moved else moved) w1 = (Inr k, w2)"
    "moves st (\<lambda>n. n) (set names) w1 w2" using Cons.IH by (metis moves_def)
  then show ?case
    using w1 moves_more [OF w1(2)] by (simp add: bindE_def map_errE_def inj_on_def)
qed (simp add: retE_def moves_none)

lemma recover_settles_moves:
  assumes "readable st w"
  shows "\<exists>k w'. recover_settles st names moved w = (Inr k, w') \<and> moves st settling_name (set names) w w'"
  using assms
proof (induction names arbitrary: w moved)
  case (Cons n names)
  then obtain b w1 where w1: "rename_if_present (in_progress_dir st) (settling_name n) (pending_dir st) n w = (Inr b, w1)"
    "moves st settling_name {n} w w1" using moves_one [of st w settling_name n] by blast
  then obtain k w2 where "recover_settles st names (if b then Suc moved else moved) w1 = (Inr k, w2)"
    "moves st settling_name (set names) w1 w2" using Cons.IH by (metis moves_def)
  then show ?case
    using w1 moves_more [OF w1(2)] by (simp add: bindE_def map_errE_def inj_on_def)
qed (simp add: retE_def moves_none)

lemma recover_finds_kept:
  assumes ready: "readable st w" and kept: "kept (in_progress_dir st) k b (dirs w)"
    and k: "\<not> is_hidden k" "k \<noteq> []" "utf8_valid k"
  shows "\<exists>n w' t. store_recover st w = (Inr n, w') \<and> node_at (dirs w') (pending_dir st) k = Some (RegFile b t)
    \<and> node_at (dirs w') (in_progress_dir st) k = None
    \<and> node_at (dirs w') (in_progress_dir st) (settling_name k) = None"
proof -
  let ?ms = "sorted_list_of_set (msgs (dirs w) (in_progress_dir st))"
  obtain m w1 where w1: "recover_messages st ?ms 0 w = (Inr m, w1)"
    "moves st (\<lambda>n. n) (msgs (dirs w) (in_progress_dir st)) w w1"
    using recover_messages_moves [OF ready, of ?ms 0] by auto
  have ready1: "readable st w1" using w1(2) by (simp add: moves_def)
  let ?ss = "sorted_list_of_set (settles (dirs w1) (in_progress_dir st))"
  obtain n w2 where w2: "recover_settles st ?ss m w1 = (Inr n, w2)"
    "moves st settling_name (settles (dirs w1) (in_progress_dir st)) w1 w2"
    using recover_settles_moves [OF ready1, of ?ss m] by auto
  have "store_recover st w = (Inr n, w2)"
    using w1(1) w2(1) list_messages_quiet [of w "in_progress_dir st"]
      unfinished_settles_quiet [of w1 "in_progress_dir st"] ready ready1
    by (simp add: store_recover_def bindE_def map_errE_def readable_def)
  moreover have "utf8_valid (settling_name k)" using k(3) by (simp add: settling_name_def)
  then have "(\<exists>t. node_at (dirs w2) (pending_dir st) k = Some (RegFile b t))
    \<and> node_at (dirs w2) (in_progress_dir st) k = None
    \<and> node_at (dirs w2) (in_progress_dir st) (settling_name k) = None"
    using kept k(1,2) w1(2) w2(2)
    unfolding moves_def kept_def by (auto simp: in_msgs settles_def image_iff)
  ultimately show ?thesis by blast
qed

end
