(* ===== verification/QueueProperties.thy ===== *)
theory QueueProperties
  imports Samples FileSafety
begin

text \<open>
  The properties of the queues, on either driver: order, settling, recovery, the administrative
  operations, and what survives faults of the file system.
\<close>

section \<open>The administrative operations on a queue\<close>

text \<open>\<open>file_store\<close> and \<open>redis_store\<close> give the laws of each driver; a queue dispatches to one of them.\<close>

lemma queue_lengths_law:
  assumes "queue_inv x stored calm q s"
  shows "\<exists>s'. queue_lengths_of x q s = (Inr (lane_lengths (queue_view stored q s)), s')
    \<and> queue_inv x stored calm q s' \<and> queue_view stored q s' = queue_view stored q s"
proof (cases q)
  case (FileBackend st)
  then show ?thesis
    using file_store.lengths_law [of st "files s"] assms by (auto simp: queue_lengths_of_def queue_simps)
next
  case (RedisBackend d)
  then show ?thesis
    using redis_store.lengths_law [of "redis_client x" stored calm d "server s"] assms
    by (auto simp: queue_lengths_of_def queue_simps)
qed

lemma queue_peek_law:
  assumes "queue_inv x stored calm q s" "lo \<le> hi" "length (lane_stage t (queue_view stored q s)) < isize_max"
  shows "\<exists>s'. queue_peek x q t (lo, hi) s = (Inr (map (parse_peeked (json_codec x) from_utf8_lossy)
      (range_of lo hi (lane_stage t (queue_view stored q s)))), s')
    \<and> queue_inv x stored calm q s' \<and> queue_view stored q s' = queue_view stored q s"
proof (cases q)
  case (FileBackend st)
  then show ?thesis
    using file_store.peek_law [of st "files s" lo hi t "json_codec x"] assms
    by (auto simp: queue_peek_def queue_simps)
next
  case (RedisBackend d)
  then show ?thesis
    using redis_store.peek_law [of "redis_client x" stored calm d "server s" lo hi t "json_codec x"] assms
    by (auto simp: queue_peek_def queue_simps)
qed

lemma queue_republish_law:
  assumes "queue_inv x stored calm q s"
  shows "\<exists>s'. queue_republish_failed x q n s = (Inr (min n (length (dead (queue_view stored q s)))), s')
    \<and> queue_inv x stored calm q s' \<and> queue_view stored q s' = lane_republish n (queue_view stored q s)"
proof (cases q)
  case (FileBackend st)
  then show ?thesis
    using file_store.republish_law [of st "files s" n] assms
    by (auto simp: queue_republish_failed_def queue_simps)
next
  case (RedisBackend d)
  then show ?thesis
    using redis_store.republish_law [of "redis_client x" stored calm d "server s" n] assms
    by (auto simp: queue_republish_failed_def queue_simps)
qed

lemma queue_clear_law:
  assumes "queue_inv x stored calm q s"
  shows "\<exists>s'. queue_clear x q t s = (Inr (length (lane_stage t (queue_view stored q s))), s')
    \<and> queue_inv x stored calm q s' \<and> queue_view stored q s' = lane_clear t (queue_view stored q s)"
proof (cases q)
  case (FileBackend st)
  then show ?thesis
    using file_store.clear_law [of st "files s" t] assms by (auto simp: queue_clear_def queue_simps)
next
  case (RedisBackend d)
  then show ?thesis
    using redis_store.clear_law [of "redis_client x" stored calm d "server s" t] assms
    by (auto simp: queue_clear_def queue_simps)
qed

section \<open>Sequences of operations\<close>

primrec publish_all :: "'s queue_deps \<Rightarrow> backend \<Rightarrow> command_envelope list \<Rightarrow> 's stores \<Rightarrow> 's stores option" where
  "publish_all x q [] s = Some s"
| "publish_all x q (env # envs) s =
     (case queue_publish x q env s of
        (Inr _, s') \<Rightarrow> publish_all x q envs s'
      | (Inl _, s') \<Rightarrow> None)"

text \<open>\<open>n\<close> dequeues that do not wait; each delivery goes through \<open>finish\<close>.\<close>

primrec dequeue_times ::
  "'s queue_deps \<Rightarrow> backend \<Rightarrow> (delivery \<Rightarrow> 's stores \<Rightarrow> (settle_error + unit) \<times> 's stores) \<Rightarrow> nat \<Rightarrow> 's stores
     \<Rightarrow> (delivery list \<times> 's stores) option" where
  "dequeue_times x q finish 0 s = Some ([], s)"
| "dequeue_times x q finish (Suc n) s =
     (case queue_dequeue x q 0 s of
        Some (Inr (Some d), s1) \<Rightarrow>
          (case finish d s1 of
             (Inr _, s2) \<Rightarrow> map_option (apfst (Cons d)) (dequeue_times x q finish n s2)
           | (Inl _, s2) \<Rightarrow> None)
      | _ \<Rightarrow> None)"

lemma codec_enc:
  assumes "codec_ok (json_codec x)"
  obtains b where "queue_enc x q env = Inr b" "from_slice (json_codec x) b = Inr env"
proof (cases q)
  case (FileBackend st)
  then show thesis using assms that by (auto simp: codec_ok_def queue_enc_def)
next
  case (RedisBackend d)
  then show thesis using assms that by (auto simp: codec_ok_def queue_enc_def)
qed

lemma later_publish: "later (files s) (files (snd (queue_publish x q env s)))"
  using later_on_files [OF forward_publish, of s] by (auto simp: queue_publish_def on_server_def split: backend.split prod.split)

lemma publish_all_law:
  assumes "codec_ok (json_codec x)" "queue_inv x stored calm q s" "queue_timely 0 q s"
  shows "\<exists>s' bs. publish_all x q envs s = Some s' \<and> queue_inv x stored calm q s' \<and> queue_timely 0 q s'
    \<and> map (from_slice (json_codec x)) bs = map Inr envs
    \<and> queue_view stored q s' = (queue_view stored q s)\<lparr>waiting := waiting (queue_view stored q s) @ bs\<rparr>"
  using assms(2,3)
proof (induction envs arbitrary: s)
  case Nil
  then show ?case by (intro exI [of _ s] exI [of _ "[]"]) simp
next
  case (Cons env envs)
  obtain b where b: "queue_enc x q env = Inr b" "from_slice (json_codec x) b = Inr env"
    using codec_enc [OF assms(1)] .
  obtain s1 where s1: "queue_publish x q env s = (Inr (), s1)" "queue_inv x stored calm q s1"
    "queue_view stored q s1 = lane_publish b (queue_view stored q s)"
    using queue_publish_law [OF Cons.prems(1) b(1)] by blast
  have "queue_timely 0 q s1"
    by (rule timely_step [OF Cons.prems]) (use later_publish [of s x q env] s1(1) in simp)
  from Cons.IH [OF s1(2) this] obtain s' bs where "publish_all x q envs s1 = Some s'"
    "queue_inv x stored calm q s'" "queue_timely 0 q s'" "map (from_slice (json_codec x)) bs = map Inr envs"
    "queue_view stored q s' = (queue_view stored q s1)\<lparr>waiting := waiting (queue_view stored q s1) @ bs\<rparr>"
    by blast
  then show ?case
    using s1 b(2) by (intro exI [of _ s'] exI [of _ "b # bs"]) (simp add: lane_publish_def)
qed


text \<open>Dequeues that acknowledge what they claim take readable messages from the head, in order.\<close>

lemma acknowledge_times_law:
  assumes "queue_inv x stored calm q s" "queue_timely 0 q s"
    and "waiting (queue_view stored q s) = bs @ cs" "map (from_slice (json_codec x)) bs = map Inr envs"
  shows "\<exists>ds s'. dequeue_times x q (queue_acknowledge x q) (length envs) s = Some (ds, s')
    \<and> map envelope ds = map count_attempt envs \<and> queue_inv x stored calm q s'
    \<and> queue_view stored q s' = (queue_view stored q s)\<lparr>waiting := cs\<rparr>"
  using assms
proof (induction envs arbitrary: s bs)
  case Nil
  then show ?case by (intro exI [of _ "[]"] exI [of _ s]) simp
next
  case (Cons env envs)
  obtain b bs' where bs: "bs = b # bs'" "from_slice (json_codec x) b = Inr env"
    "map (from_slice (json_codec x)) bs' = map Inr envs"
    using Cons.prems(4) by auto
  have skip: "lane_skip (json_codec x) (queue_view stored q s) = queue_view stored q s"
    using Cons.prems(3) bs by (intro lane_skip_readable) (auto simp: unreadable_def)
  have head: "waiting (lane_skip (json_codec x) (queue_view stored q s)) = b # bs' @ cs"
    using skip Cons.prems(3) bs(1) by simp
  obtain env' k s1 where s1: "from_slice (json_codec x) b = Inr env'"
    "queue_dequeue x q 0 s = Some (Inr (Some (new_delivery (count_attempt env') (queue_lane_of q) k)), s1)"
    "queue_receipt q k" "queue_inv x stored calm q s1" "k \<in> receipts (queue_view stored q s1)"
    "lane_drop k (queue_view stored q s1) = (queue_view stored q s)\<lparr>waiting := bs' @ cs\<rparr>"
    using lane_of_queue.dequeue_claims [OF Cons.prems(1,2) head] skip by metis
  let ?d = "new_delivery (count_attempt env) (queue_lane_of q) k"
  have env: "env' = env" using s1(1) bs(2) by simp
  obtain s2 where s2: "queue_acknowledge x q ?d s1 = (Inr (), s2)" "queue_inv x stored calm q s2"
    "queue_view stored q s2 = (queue_view stored q s)\<lparr>waiting := bs' @ cs\<rparr>"
    using lane_of_queue.acknowledge_law [OF s1(4), of ?d] s1(3,5,6) by (auto simp: new_delivery_def)
  have "queue_timely 0 q s2"
    by (rule timely_step [OF s1(4) dequeue_timely [OF Cons.prems(1,2) s1(2)]])
      (use later_acknowledge [of s1 x q ?d] s2(1) in simp)
  from Cons.IH [OF s2(2) this _ bs(3)] obtain ds s' where
    "dequeue_times x q (queue_acknowledge x q) (length envs) s2 = Some (ds, s')"
    "map envelope ds = map count_attempt envs" "queue_inv x stored calm q s'"
    "queue_view stored q s' = (queue_view stored q s2)\<lparr>waiting := cs\<rparr>"
    using s2(3) by auto
  then show ?case
    using s1(2) s2 env by (intro exI [of _ "?d # ds"] exI [of _ s']) (simp add: new_delivery_def)
qed

text \<open>Claims that are not settled leave what a recovery would restore unchanged.\<close>

lemma lane_recover_take: "lane_recover (lane_take k L) = lane_recover L"
  by (simp add: lane_recover_def lane_take_def split: list.split)

lemma claim_times_law:
  assumes "queue_inv x stored calm q s" "queue_timely 0 q s"
    and "\<forall>b \<in> set (waiting (queue_view stored q s)). \<not> unreadable (json_codec x) b"
    and "n \<le> length (waiting (queue_view stored q s))"
  shows "\<exists>ds s'. dequeue_times x q (\<lambda>d s. (Inr (), s)) n s = Some (ds, s') \<and> length ds = n
    \<and> queue_inv x stored calm q s'
    \<and> length (running (queue_view stored q s')) = length (running (queue_view stored q s)) + n
    \<and> lane_recover (queue_view stored q s') = lane_recover (queue_view stored q s)"
  using assms
proof (induction n arbitrary: s)
  case (Suc n)
  then obtain b bs where bs: "waiting (queue_view stored q s) = b # bs"
    by (cases "waiting (queue_view stored q s)") auto
  have skip: "lane_skip (json_codec x) (queue_view stored q s) = queue_view stored q s"
    using bs Suc.prems(3) by (intro lane_skip_readable) auto
  have head: "waiting (lane_skip (json_codec x) (queue_view stored q s)) = b # bs" using skip bs by simp
  obtain env k s1 where s1:
    "queue_dequeue x q 0 s = Some (Inr (Some (new_delivery (count_attempt env) (queue_lane_of q) k)), s1)"
    "queue_inv x stored calm q s1" "queue_view stored q s1 = lane_take k (queue_view stored q s)"
    using lane_of_queue.dequeue_claims [OF Suc.prems(1,2) head] skip by metis
  have v: "waiting (queue_view stored q s1) = bs"
    "length (running (queue_view stored q s1)) = Suc (length (running (queue_view stored q s)))"
    "lane_recover (queue_view stored q s1) = lane_recover (queue_view stored q s)"
    unfolding s1(3) lane_recover_take using bs by (simp_all add: lane_take_def)
  from Suc.IH [OF s1(2) dequeue_timely [OF Suc.prems(1,2) s1(1)]] obtain ds s' where
    "dequeue_times x q (\<lambda>d s. (Inr (), s)) n s1 = Some (ds, s')" "length ds = n" "queue_inv x stored calm q s'"
    "length (running (queue_view stored q s')) = length (running (queue_view stored q s1)) + n"
    "lane_recover (queue_view stored q s') = lane_recover (queue_view stored q s1)"
    using Suc.prems(3,4) v(1) bs by auto
  then show ?case
    using s1(1) v by (intro exI [of _ "new_delivery (count_attempt env) (queue_lane_of q) k # ds"] exI [of _ s']) simp
qed (auto intro!: exI)


section \<open>A connection that fails\<close>

text \<open>A request works, or it fails before or after the server ran the action.\<close>

definition flaky_request :: "'s redis_server \<Rightarrow> bool" where
  "flaky_request srv = (\<forall>a s. request srv a s = (Inr (fst (a s)), snd (a s))
     \<or> (\<exists>e. request srv a s = (Inl e, s)) \<or> (\<exists>e. request srv a s = (Inl e, snd (a s))))"

definition steady_request :: "'s redis_server \<Rightarrow> 's redis_server" where
  "steady_request srv = srv\<lparr>request := (\<lambda>a s. (Inr (fst (a s)), snd (a s)))\<rparr>"

lemma steady_execute [simp]: "execute (steady_request srv) = execute srv"
  by (simp add: steady_request_def)

lemma steady_MOVE_IF_PRESENT [simp]: "MOVE_IF_PRESENT (steady_request srv) = MOVE_IF_PRESENT srv"
  by (intro ext) (unfold MOVE_IF_PRESENT_def steady_execute, rule refl)

text \<open>One element replaced: \<open>v\<close> is taken from \<open>k1\<close> and \<open>u\<close> pushed on \<open>k2\<close>.\<close>

definition list_move :: "string \<Rightarrow> string \<Rightarrow> bytes \<Rightarrow> bytes \<Rightarrow> (string \<Rightarrow> bytes list) \<Rightarrow> (string \<Rightarrow> bytes list)" where
  "list_move k1 k2 v u m = (let m' = m(k1 := remove1 v (m k1)) in m'(k2 := u # m' k2))"

lemma move_if_present_flaky:
  assumes ok: "redis_ok (steady_request srv) stored (\<lambda>_. True)" and flaky: "flaky_request srv"
    and run: "move_if_present srv d v k u s = (r, s')" and v: "v \<in> set (stored s (in_progress_key d))"
  shows "stored s' = list_move (in_progress_key d) k v u (stored s) \<and> r \<noteq> Inr False
    \<or> stored s' = stored s \<and> (\<exists>e. r = Inl e)"
proof -
  let ?a = "MOVE_IF_PRESENT srv (in_progress_key d) k v u"
  have a: "fst (?a s) = RInt 1" "stored (snd (?a s)) = list_move (in_progress_key d) k v u (stored s)"
    using acts_as_move_if_present [OF ok, of "in_progress_key d" k v u] v
    by (auto simp: acts_as_def list_move_def dest!: spec [of _ s])
  consider "request srv ?a s = (Inr (fst (?a s)), snd (?a s))"
    | e where "request srv ?a s = (Inl e, s)" | e where "request srv ?a s = (Inl e, snd (?a s))"
    using flaky unfolding flaky_request_def by blast
  then show ?thesis
    using run a
    by cases (auto simp: move_if_present_def bindE_def query_async_def retE_def split: prod.splits)
qed


section \<open>Order, settling and recovery\<close>

text \<open>C19: Messages published to an empty lane are dequeued in the order of their publication, each with one more attempt counted, and acknowledging them leaves the lane empty, on either driver.\<close>

theorem published_messages_come_out_in_order:
  assumes "codec_ok (json_codec x)" "queue_inv x stored calm q s" "queue_timely 0 q s"
    and "waiting (queue_view stored q s) = []"
  shows "\<exists>s1 ds s2. publish_all x q envs s = Some s1
    \<and> dequeue_times x q (queue_acknowledge x q) (length envs) s1 = Some (ds, s2)
    \<and> map envelope ds = map count_attempt envs \<and> queue_view stored q s2 = queue_view stored q s"
proof -
  obtain s1 bs where s1: "publish_all x q envs s = Some s1" "queue_inv x stored calm q s1" "queue_timely 0 q s1"
    "map (from_slice (json_codec x)) bs = map Inr envs"
    "queue_view stored q s1 = (queue_view stored q s)\<lparr>waiting := bs\<rparr>"
    using publish_all_law [OF assms(1-3)] assms(4) by force
  then show ?thesis
    using acknowledge_times_law [OF s1(2,3) _ s1(4), of "[]"] assms(4) by auto
qed

theorem published_messages_come_out_in_order_witness:
  "\<exists>s1 ds s2. publish_all sample_deps sample_redis_queue [sample_envelope 3, sample_envelope 5]
      \<lparr>files = sample_world [], server = sample_lists []\<rparr> = Some s1
    \<and> dequeue_times sample_deps sample_redis_queue (queue_acknowledge sample_deps sample_redis_queue) 2 s1 = Some (ds, s2)
    \<and> map envelope ds = map count_attempt [sample_envelope 3, sample_envelope 5]
    \<and> queue_view (\<lambda>s. s) sample_redis_queue s2 = \<lparr>waiting = [], running = [], dead = []\<rparr>"
proof -
  let ?s = "\<lparr>files = sample_world [], server = sample_lists []\<rparr>"
  note q = sample_redis_stores [where w = "sample_world []" and bs = "[]"]
  have "waiting (queue_view (\<lambda>s. s) sample_redis_queue ?s) = []" using q(2) by simp
  from published_messages_come_out_in_order [OF _ q(1,3) this, of "[sample_envelope 3, sample_envelope 5]"]
  obtain s1 ds s2 where "publish_all sample_deps sample_redis_queue [sample_envelope 3, sample_envelope 5] ?s = Some s1"
    "dequeue_times sample_deps sample_redis_queue (queue_acknowledge sample_deps sample_redis_queue) 2 s1 = Some (ds, s2)"
    "map envelope ds = map count_attempt [sample_envelope 3, sample_envelope 5]"
    "queue_view (\<lambda>s. s) sample_redis_queue s2 = queue_view (\<lambda>s. s) sample_redis_queue ?s"
    using sample_codec_ok by (auto simp: numeral_2_eq_2)
  then show ?thesis unfolding q(2) by blast
qed

text \<open>C13: A claimed message is settled by the policy table: acknowledged, put back at the end of the pending stage with its counted attempt, moved to the failed stage, or released with the attempt taken back, on either driver.\<close>

theorem settle_follows_policy:
  assumes "codec_ok (json_codec x)" "queue_inv x stored calm q s" "queue_timely 0 q s"
    and "waiting (queue_view stored q s) = b # bs" "from_slice (json_codec x) b = Inr env"
  shows "\<exists>d s1 s2 b'. queue_dequeue x q 0 s = Some (Inr (Some d), s1) \<and> envelope d = count_attempt env
    \<and> settle x q d kind s1 = (Inr (outcome_of (for_attempt kind (count_attempt env))), s2)
    \<and> from_slice (json_codec x) b' = Inr (settled_envelope (for_attempt kind (count_attempt env)) d)
    \<and> queue_view stored q s2 = lane_settle (for_attempt kind (count_attempt env)) b'
        ((queue_view stored q s)\<lparr>waiting := bs\<rparr>)"
proof -
  have skip: "lane_skip (json_codec x) (queue_view stored q s) = queue_view stored q s"
    using assms(4,5) by (intro lane_skip_readable) (auto simp: unreadable_def)
  have head: "waiting (lane_skip (json_codec x) (queue_view stored q s)) = b # bs" using skip assms(4) by simp
  obtain env' k s1 where s1: "from_slice (json_codec x) b = Inr env'"
    "queue_dequeue x q 0 s = Some (Inr (Some (new_delivery (count_attempt env') (queue_lane_of q) k)), s1)"
    "queue_receipt q k" "queue_inv x stored calm q s1" "k \<in> receipts (queue_view stored q s1)"
    "lane_drop k (queue_view stored q s1) = (queue_view stored q s)\<lparr>waiting := bs\<rparr>"
    using lane_of_queue.dequeue_claims [OF assms(2,3) head] skip by metis
  let ?d = "new_delivery (count_attempt env) (queue_lane_of q) k"
  obtain b' where b': "queue_enc x q (settled_envelope (for_attempt kind (envelope ?d)) ?d) = Inr b'"
    "from_slice (json_codec x) b' = Inr (settled_envelope (for_attempt kind (envelope ?d)) ?d)"
    using codec_enc [OF assms(1)] by blast
  obtain s2 where "settle x q ?d kind s1 = (Inr (outcome_of (for_attempt kind (envelope ?d))), s2)"
    "queue_view stored q s2 = lane_settle (for_attempt kind (envelope ?d)) b' ((queue_view stored q s)\<lparr>waiting := bs\<rparr>)"
    using settle_law [OF s1(4) _ _ _ b'(1)] s1(3,5,6) by (auto simp: new_delivery_def)
  then show ?thesis
    using s1(1,2) assms(5) b'(2) by (intro exI [of _ ?d] exI [of _ s1] exI [of _ s2] exI [of _ b'])
      (simp add: new_delivery_def)
qed

theorem settle_follows_policy_witness:
  "\<exists>d s1 s2 b'. queue_dequeue sample_deps sample_file_queue 0 (sample_stores (sample_to_vec (sample_envelope 0)))
      = Some (Inr (Some d), s1)
    \<and> settle sample_deps sample_file_queue d KInterrupted s1 = (Inr Released, s2)
    \<and> sample_from_slice b' = Inr (sample_envelope 0)
    \<and> queue_view (\<lambda>s. s) sample_file_queue s2 = \<lparr>waiting = [b'], running = [], dead = []\<rparr>"
proof -
  let ?b = "sample_to_vec (sample_envelope 0)"
  note q = sample_queue_inv [of sample_file_queue ?b, simplified]
  have slice: "sample_from_slice ?b = Inr (sample_envelope 0)"
    using sample_round_trip [of "sample_envelope 0" "[]"] by simp
  obtain d s1 s2 b' where *: "queue_dequeue sample_deps sample_file_queue 0 (sample_stores ?b) = Some (Inr (Some d), s1)"
    "envelope d = count_attempt (sample_envelope 0)"
    "settle sample_deps sample_file_queue d KInterrupted s1 = (Inr (outcome_of Release), s2)"
    "sample_from_slice b' = Inr (settled_envelope Release d)"
    "queue_view (\<lambda>s. s) sample_file_queue s2 = lane_settle Release b' \<lparr>waiting = [], running = [], dead = []\<rparr>"
    using settle_follows_policy [where x = sample_deps and stored = "\<lambda>s. s" and calm = "\<lambda>_. True"
        and q = sample_file_queue and s = "sample_stores ?b" and b = ?b and bs = "[]" and env = "sample_envelope 0"
        and kind = KInterrupted] sample_codec_ok q slice
    by (auto simp: sample_codec_def)
  have "settled_envelope Release d = sample_envelope 0"
    using *(2) by (simp add: settled_envelope_def uncount_attempt_def count_attempt_def sample_envelope_def sat_sub_u32_def)
  then show ?thesis using * by (auto simp: lane_settle_def lane_put_def)
qed


text \<open>C21: A message whose command cannot be built goes to the failed stage with its counted attempt, without a retry and without anything being run, on either driver.\<close>

theorem unrunnable_message_moves_to_failed:
  assumes "codec_ok (json_codec x)" "queue_inv x stored calm q s" "queue_timely 0 q s"
    and "waiting (queue_view stored q s) = b # bs" "from_slice (json_codec x) b = Inr env"
    and "to_command k env registry = Inl error" "\<not> cancelled e"
  shows "\<exists>d s1 s2 b'. queue_dequeue x q 0 s = Some (Inr (Some d), s1)
    \<and> process_delivery x k q d registry cancelled run (s1, e) =
        Some (\<lparr>processed_id = env_id env, processed_attempt = AttemptUnrunnable error, processed_settled = Inr MovedToFailed\<rparr>, s2, e)
    \<and> from_slice (json_codec x) b' = Inr (count_attempt env)
    \<and> queue_view stored q s2 = (queue_view stored q s)\<lparr>waiting := bs, dead := dead (queue_view stored q s) @ [b']\<rparr>"
proof -
  have skip: "lane_skip (json_codec x) (queue_view stored q s) = queue_view stored q s"
    using assms(4,5) by (intro lane_skip_readable) (auto simp: unreadable_def)
  have head: "waiting (lane_skip (json_codec x) (queue_view stored q s)) = b # bs" using skip assms(4) by simp
  obtain env' r s1 where s1: "from_slice (json_codec x) b = Inr env'"
    "queue_dequeue x q 0 s = Some (Inr (Some (new_delivery (count_attempt env') (queue_lane_of q) r)), s1)"
    "queue_receipt q r" "queue_inv x stored calm q s1" "r \<in> receipts (queue_view stored q s1)"
    "lane_drop r (queue_view stored q s1) = (queue_view stored q s)\<lparr>waiting := bs\<rparr>"
    using lane_of_queue.dequeue_claims [OF assms(2,3) head] skip by metis
  let ?d = "new_delivery (count_attempt env) (queue_lane_of q) r"
  obtain b' where b': "queue_enc x q (count_attempt env) = Inr b'" "from_slice (json_codec x) b' = Inr (count_attempt env)"
    using codec_enc [OF assms(1)] .
  have d: "envelope ?d = count_attempt env" "delivery_lane ?d = queue_lane_of q" "delivery_receipt ?d = r"
    by (simp_all add: new_delivery_def)
  have att: "(if cancelled e then Some (AttemptInterrupted, e) else run_attempt k ?d registry cancelled run e) = Some (AttemptUnrunnable error, e)"
    using assms(6,7) by (simp add: run_attempt_def d to_command_count)
  obtain s2 where "process_delivery x k q ?d registry cancelled run (s1, e) =
      Some (\<lparr>processed_id = env_id env, processed_attempt = AttemptUnrunnable error, processed_settled = Inr MovedToFailed\<rparr>, s2, e)"
    "queue_view stored q s2 = lane_put FailedStage b' ((queue_view stored q s)\<lparr>waiting := bs\<rparr>)"
    using process_delivery_law [OF s1(4) d(2) _ _ att, of b'] s1(3,5,6) b'(1) d
    by (auto simp: settled_envelope_def lane_settle_def)
  then show ?thesis
    using s1(1,2) assms(5) b'(2) by (intro exI [of _ ?d] exI [of _ s1] exI [of _ s2] exI [of _ b'])
      (simp add: lane_put_def)
qed

theorem unrunnable_message_moves_to_failed_witness:
  "\<exists>d s1 s2 b'. queue_dequeue sample_deps sample_file_queue 0 (sample_stores (sample_to_vec (sample_envelope 3)))
      = Some (Inr (Some d), s1)
    \<and> process_delivery sample_deps sample_packer sample_file_queue d \<lparr>plugins = Map.empty\<rparr> (\<lambda>_. False)
        (\<lambda>cmd n. Some (Inr (), Suc n)) (s1, 0) =
        Some (\<lparr>processed_id = 7, processed_attempt = AttemptUnrunnable (UnknownCommand ''p'' ''c''),
          processed_settled = Inr MovedToFailed\<rparr>, s2, 0)
    \<and> queue_view (\<lambda>s. s) sample_file_queue s2 = \<lparr>waiting = [], running = [], dead = [b']\<rparr>"
proof -
  let ?b = "sample_to_vec (sample_envelope 3)"
  note q = sample_queue_inv [of sample_file_queue ?b, simplified]
  have slice: "from_slice (json_codec sample_deps) ?b = Inr (sample_envelope 3)"
    using sample_round_trip [of "sample_envelope 3" "[]"] by (simp add: sample_codec_def)
  have codec: "codec_ok (json_codec sample_deps)" using sample_codec_ok by simp
  have unknown: "to_command sample_packer (sample_envelope 3) \<lparr>plugins = Map.empty\<rparr> = Inl (UnknownCommand ''p'' ''c'')"
    by (simp add: to_command_def build_command_def sample_envelope_def)
  have i: "env_id (sample_envelope 3) = 7" by (simp add: sample_envelope_def)
  show ?thesis
    using unrunnable_message_moves_to_failed [OF codec q(1,3) _ slice unknown, of "[]" "\<lambda>_. False" 0 "\<lambda>cmd n. Some (Inr (), Suc n)"]
    unfolding q(2) i by auto
qed

text \<open>C20: A recovery returns every claimed and unsettled message to the pending stage, ahead of the waiting ones and in their order, so that claiming any number of messages and recovering restores the lane, on either driver.\<close>

theorem recover_restores_unsettled:
  assumes "queue_inv x stored calm q s" "queue_timely 0 q s"
    and "\<forall>b \<in> set (waiting (queue_view stored q s)). \<not> unreadable (json_codec x) b"
    and "n \<le> length (waiting (queue_view stored q s))"
    and "length (running (queue_view stored q s)) + n \<le> usize_max"
  shows "\<exists>ds s1 s2. dequeue_times x q (\<lambda>d s. (Inr (), s)) n s = Some (ds, s1) \<and> length ds = n
    \<and> queue_recover x q s1 = (Inr (length (running (queue_view stored q s)) + n), s2)
    \<and> queue_view stored q s2 = (queue_view stored q s)
        \<lparr>waiting := map snd (running (queue_view stored q s)) @ waiting (queue_view stored q s), running := []\<rparr>"
proof -
  obtain ds s1 where s1: "dequeue_times x q (\<lambda>d s. (Inr (), s)) n s = Some (ds, s1)" "length ds = n"
    "queue_inv x stored calm q s1"
    "length (running (queue_view stored q s1)) = length (running (queue_view stored q s)) + n"
    "lane_recover (queue_view stored q s1) = lane_recover (queue_view stored q s)"
    using claim_times_law [OF assms(1-4)] by blast
  then show ?thesis
    using lane_of_queue.recover_law [OF s1(3)] assms(5) by (auto simp: lane_recover_def)
qed

theorem recover_restores_unsettled_witness:
  "\<exists>ds s1 s2. dequeue_times sample_deps sample_redis_queue (\<lambda>d s. (Inr (), s)) 1
      \<lparr>files = sample_world [], server = sample_lists [sample_to_vec (sample_envelope 3), sample_to_vec (sample_envelope 5)]\<rparr>
      = Some (ds, s1) \<and> length ds = 1 \<and> queue_recover sample_deps sample_redis_queue s1 = (Inr 1, s2)
    \<and> queue_view (\<lambda>s. s) sample_redis_queue s2 =
        \<lparr>waiting = [sample_to_vec (sample_envelope 3), sample_to_vec (sample_envelope 5)], running = [], dead = []\<rparr>"
proof -
  let ?bs = "[sample_to_vec (sample_envelope 3), sample_to_vec (sample_envelope 5)]"
  note q = sample_redis_stores [where w = "sample_world []" and bs = ?bs]
  have readable: "\<not> unreadable (json_codec sample_deps) (sample_to_vec env)" for env
    using sample_round_trip [of env "[]"] by (simp add: unreadable_def sample_codec_def)
  show ?thesis
    using recover_restores_unsettled [OF q(1,3), of 1] readable unfolding q(2) by (simp add: usize_max_def)
qed

text \<open>C37: A peek returns the messages of a stage from position \<open>lo\<close> to \<open>hi\<close>, oldest first, each parsed or reported as malformed, and changes nothing, on either driver.\<close>

theorem peek_is_a_slice:
  assumes "queue_inv x stored calm q s" "length (lane_stage t (queue_view stored q s)) < isize_max"
  shows "\<exists>s'. queue_peek x q t (lo, hi) s = (Inr (map (parse_peeked (json_codec x) from_utf8_lossy)
      (take (Suc hi - lo) (drop lo (lane_stage t (queue_view stored q s))))), s')
    \<and> queue_inv x stored calm q s' \<and> queue_view stored q s' = queue_view stored q s"
proof (cases "lo \<le> hi")
  case True
  then show ?thesis using queue_peek_law [OF assms(1) True assms(2)] by (simp add: range_of_def)
next
  case False
  then show ?thesis using assms(1) by (simp add: queue_peek_def retE_def)
qed

theorem peek_is_a_slice_witness:
  "\<exists>s'. queue_peek sample_deps sample_file_queue Pending (0, 4) (sample_stores ''oops!'')
     = (Inr [Malformed ''oops!'' ''expected value''], s')"
proof -
  note q = sample_queue_inv [of sample_file_queue "''oops!''", simplified]
  have "utf8_valid ''oops!''" by (rule utf8_valid_ascii) auto
  then show ?thesis
    using peek_is_a_slice [OF q(1), of Pending 0 4] from_utf8_lossy_valid unfolding q(2)
    by (auto simp: lane_stage_def isize_max_def parse_peeked_def sample_codec_def sample_from_slice_def)
qed

text \<open>C38: Republishing moves the oldest failed messages, up to the limit, to the end of the pending stage in their order with their bytes unchanged; clearing a stage then removes and counts exactly what is left in it, on either driver.\<close>

theorem republish_then_clear:
  assumes "queue_inv x stored calm q s"
  shows "\<exists>s1 s2. queue_republish_failed x q n s = (Inr (min n (length (dead (queue_view stored q s)))), s1)
    \<and> queue_clear x q FailedStage s1 = (Inr (length (dead (queue_view stored q s)) - n), s2)
    \<and> queue_view stored q s2 = (queue_view stored q s)
        \<lparr>waiting := waiting (queue_view stored q s) @ take n (dead (queue_view stored q s)), dead := []\<rparr>"
proof -
  obtain s1 where s1: "queue_republish_failed x q n s = (Inr (min n (length (dead (queue_view stored q s)))), s1)"
    "queue_inv x stored calm q s1" "queue_view stored q s1 = lane_republish n (queue_view stored q s)"
    using queue_republish_law [OF assms] by blast
  obtain s2 where "queue_clear x q FailedStage s1 = (Inr (length (lane_stage FailedStage (queue_view stored q s1))), s2)"
    "queue_view stored q s2 = lane_clear FailedStage (queue_view stored q s1)"
    using queue_clear_law [OF s1(2)] by blast
  then show ?thesis
    using s1(1) unfolding s1(3) by (simp add: lane_republish_def lane_clear_def lane_stage_def)
qed

theorem republish_then_clear_witness:
  "\<exists>s1 s2. queue_republish_failed sample_deps sample_redis_queue 1 \<lparr>files = sample_world [],
      server = (sample_lists [])(''Q:Primary:Failed'' := [''young'', ''old''])\<rparr> = (Inr 1, s1)
    \<and> queue_clear sample_deps sample_redis_queue FailedStage s1 = (Inr 1, s2)
    \<and> waiting (queue_view (\<lambda>s. s) sample_redis_queue s2) = [''old'']"
proof -
  let ?s = "\<lparr>files = sample_world [], server = (sample_lists [])(''Q:Primary:Failed'' := [''young'', ''old''])\<rparr>"
  have inv: "queue_inv sample_deps (\<lambda>s. s) (\<lambda>_. True) sample_redis_queue ?s"
    using sample_redis_inv by (simp add: queue_inv_def sample_redis_queue_def)
  have view: "queue_view (\<lambda>s. s) sample_redis_queue ?s = \<lparr>waiting = [], running = [], dead = [''old'', ''young'']\<rparr>"
    by (simp add: queue_view_def sample_redis_queue_def redis_view_def lane_of_lists_def sample_driver_keys
        sample_lists_def map_receipts_def)
  show ?thesis using republish_then_clear [OF inv, of 1] unfolding view by auto
qed


text \<open>C22: A command published with an envelope, compressed or not, is rebuilt from the dequeued delivery as the registry builds it from the original arguments; the delivery counts one attempt and keeps the retry limit.\<close>

theorem published_command_is_rebuilt:
  assumes "packer_ok k" "codec_ok (json_codec x)" "queue_inv x stored calm q s" "queue_timely 0 q s"
    and "waiting (queue_view stored q s) = []"
    and "new_envelope k i now command plugin json compressed retries = Inr env"
  shows "\<exists>s1 d s2. queue_publish x q env s = (Inr (), s1) \<and> queue_dequeue x q 0 s1 = Some (Inr (Some d), s2)
    \<and> to_command k (envelope d) registry = build_command registry plugin command json
    \<and> attempts (envelope d) = 1 \<and> max_retries (envelope d) = retries"
proof -
  have env: "attempts env = 0" "max_retries env = retries"
    using assms(6) by (auto simp: new_envelope_def split: sum.splits if_splits)
  then have count: "attempts (count_attempt env) = 1" "max_retries (count_attempt env) = retries"
    by (simp_all add: count_attempt_def)
  obtain s1 bs where s1: "publish_all x q [env] s = Some s1" "queue_inv x stored calm q s1" "queue_timely 0 q s1"
    "map (from_slice (json_codec x)) bs = map Inr [env]"
    "queue_view stored q s1 = (queue_view stored q s)\<lparr>waiting := bs\<rparr>"
    using publish_all_law [OF assms(2-4), of "[env]", unfolded assms(5) append_Nil] by blast
  then obtain b where b: "waiting (queue_view stored q s1) = [b]" "from_slice (json_codec x) b = Inr env" by auto
  then have "waiting (lane_skip (json_codec x) (queue_view stored q s1)) = [b]"
    using lane_skip_one [OF b] by simp
  from lane_of_queue.dequeue_claims [OF s1(2,3) this] obtain r s2 where
    "queue_dequeue x q 0 s1 = Some (Inr (Some (new_delivery (count_attempt env) (queue_lane_of q) r)), s2)"
    using b(2) by (metis sum.inject(2))
  moreover have "queue_publish x q env s = (Inr (), s1)" using s1(1) by (simp split: prod.splits sum.splits)
  ultimately show ?thesis
    using new_envelope_payload [OF assms(1,6), of registry] count
    by (auto simp: new_delivery_def to_command_count)
qed

theorem published_command_is_rebuilt_witness:
  "\<exists>env s1 d s2. new_envelope sample_packer 7 0 ''c'' ''p'' ''{}'' True 3 = Inr env
    \<and> queue_publish sample_deps sample_redis_queue env \<lparr>files = sample_world [], server = sample_lists []\<rparr> = (Inr (), s1)
    \<and> queue_dequeue sample_deps sample_redis_queue 0 s1 = Some (Inr (Some d), s2)
    \<and> to_command sample_packer (envelope d) sample_registry = Inr ''{}'' \<and> attempts (envelope d) = 1"
proof -
  note q = sample_redis_stores [where w = "sample_world []" and bs = "[]"]
  obtain env where env: "new_envelope sample_packer 7 0 ''c'' ''p'' ''{}'' True 3 = Inr env"
    by (simp add: new_envelope_def compress_def sample_packer_def)
  have "build_command sample_registry ''p'' ''c'' ''{}'' = Inr ''{}''"
    by (simp add: build_command_def sample_registry_def)
  then show ?thesis
    using published_command_is_rebuilt [OF sample_packer_ok _ q(1,3) _ env, of sample_registry] sample_codec_ok env
    unfolding q(2) by auto
qed

section \<open>Termination and faults\<close>

text \<open>C23: A dequeue of the file queue returns, whatever other processes do and whichever of its file calls fail, when the clock can represent its deadline.\<close>

theorem file_dequeue_returns:
  assumes "clock w + int wait \<le> instant_max"
  shows "\<exists>r w'. file_dequeue c st wait w = Some (r, w')"
  using dequeue_loop_returns [of c st "clock w + int wait" w] assms
  by (auto simp: file_dequeue_def checked_deadline_def)

theorem file_dequeue_returns_witness:
  "\<exists>r w'. file_dequeue sample_codec sample_store 5000000000
     ((sample_world ''x'')\<lparr>script := [([RivalRemove ''p'' ''a''], Proceed), ([], Fault not_found 0), ([Elapse 7], Crash)]\<rparr>)
     = Some (r, w')"
  by (rule file_dequeue_returns) (simp add: sample_world_def instant_max_def)

text \<open>C6: A settle that moves a claimed message of the file queue never loses it: whatever file calls fail, wherever the process crashes, and whatever other processes do to other names, either the settle reports success and the new message is in its stage with its exact bytes, or the claimed message is still in the in-progress directory, under its own name or its settling name.\<close>

theorem file_settle_never_loses:
  assumes "stage_dir st t \<noteq> in_progress_dir st" "\<not> is_hidden (next_name w)"
    and "keeps_off (settle_names (in_progress_dir st) k (stage_dir st t) (next_name w)) w"
    and "kept (in_progress_dir st) k b (dirs w)" "unwritten (stage_dir st t) (next_name w) (dirs w)"
    and "store_move_claimed c st k env t w = (r, w')"
  shows "if r = Inr True
    then \<exists>j. to_vec_pretty c env = Inr j \<and> written (stage_dir st t) (next_name w) j (dirs w')
    else kept (in_progress_dir st) k b (dirs w')"
  using holdsD [OF move_claimed_safe [OF assms(1,2), of k b c env] _ assms(6)] assms(3-5)
  by (auto simp: safe_def)


text \<open>A world with one claimed message, for the properties about faults.\<close>

definition claimed_world :: "(rival list \<times> outcome) list \<Rightarrow> world" where
  "claimed_world calls = (sample_world [])
     \<lparr>dirs := [''p'' \<mapsto> [], ''i'' \<mapsto> [(''a'', RegFile ''old'' 0)], ''f'' \<mapsto> []], script := calls\<rparr>"

lemma claimed_world_simps:
  "next_name (claimed_world calls) = ''aa''" "\<not> is_hidden ''aa''" "script (claimed_world calls) = calls"
  "kept ''i'' ''a'' ''old'' (dirs (claimed_world calls))" "unwritten ''f'' ''aa'' (dirs (claimed_world calls))"
  "stage_dir sample_store FailedStage = ''f''" "in_progress_dir sample_store = ''i''" "pending_dir sample_store = ''p''"
  by (simp_all add: claimed_world_def next_name_def sample_world_def sample_uuids_def is_hidden_def kept_def unwritten_def
      node_at_def settling_name_def hidden_name_def SETTLING_SUFFIX_def TEMP_SUFFIX_def sample_store_def stage_dir_def
      numeral_2_eq_2)

theorem file_settle_never_loses_witness:
  "let w = claimed_world [([], Proceed), ([RivalWrite ''p'' ''b'' ''x''], Proceed), ([], Fault not_found 2), ([], Crash)];
       (r, w') = store_move_claimed sample_codec sample_store ''a'' (sample_envelope 3) FailedStage w
   in if r = Inr True
      then \<exists>j. to_vec_pretty sample_codec (sample_envelope 3) = Inr j \<and> written ''f'' ''aa'' j (dirs w')
      else kept ''i'' ''a'' ''old'' (dirs w')"
proof -
  let ?w = "claimed_world [([], Proceed), ([RivalWrite ''p'' ''b'' ''x''], Proceed), ([], Fault not_found 2), ([], Crash)]"
  have "keeps_off (settle_names ''i'' ''a'' ''f'' ''aa'') ?w"
    by (simp add: keeps_off_def claimed_world_simps settle_names_def)
  moreover obtain r w' where run:
    "store_move_claimed sample_codec sample_store ''a'' (sample_envelope 3) FailedStage ?w = (r, w')" by (rule prod.exhaust)
  ultimately show ?thesis
    using file_settle_never_loses [OF _ _ _ _ _ run, of "''old''", unfolded claimed_world_simps(1,6,7)]
    by (simp add: claimed_world_simps run)
qed

text \<open>C7: When such a settle did not report success, a recovery after the restart, in a quiet world, puts the claimed message back in the pending stage under its name with its old bytes.\<close>

theorem interrupted_settle_is_recovered:
  assumes "stage_dir st t \<noteq> in_progress_dir st" "\<not> is_hidden (next_name w)"
    and "keeps_off (settle_names (in_progress_dir st) k (stage_dir st t) (next_name w)) w"
    and "kept (in_progress_dir st) k b (dirs w)" "unwritten (stage_dir st t) (next_name w) (dirs w)"
    and "store_move_claimed c st k env t w = (r, w')" "r \<noteq> Inr True"
    and "\<not> is_hidden k" "k \<noteq> []" "utf8_valid k" and "readable st v" "dirs v = dirs w'"
  shows "\<exists>n v' time. store_recover st v = (Inr n, v')
    \<and> node_at (dirs v') (pending_dir st) k = Some (RegFile b time)
    \<and> node_at (dirs v') (in_progress_dir st) k = None
    \<and> node_at (dirs v') (in_progress_dir st) (settling_name k) = None"
proof -
  have "kept (in_progress_dir st) k b (dirs w')"
    using holdsD [OF move_claimed_safe [OF assms(1,2), of k b c env] _ assms(6)] assms(3-5,7) by (simp add: safe_def)
  then show ?thesis using recover_finds_kept [OF assms(11) _ assms(8-10)] assms(12) by simp
qed


lemmas file_call_defs = fs_rename_def fs_create_new_def fs_write_all_def fs_sync_all_def fs_open_dir_def fs_remove_file_def
  syscall_def syscall_with_def run_call_def call_rename_def call_create_new_def call_write_all_def call_sync_def
  call_open_dir_def call_remove_file_def write_prefix_def rivals_def map_errE_def bindE_def catchE_def
  retE_def failE_def write_atomic_def serialize_def with_new_name_def new_message_name_def now_v7_def

lemma crashed_settle:
  "\<exists>e w'. store_move_claimed sample_codec sample_store ''a'' (sample_envelope 3) FailedStage
      (claimed_world [([], Proceed), ([], Crash)]) = (Inl e, w')
    \<and> dirs w' = [''p'' \<mapsto> [], ''f'' \<mapsto> [], ''i'' \<mapsto> [(''.a.settling'', RegFile ''old'' 0)]]"
  by (simp add: store_move_claimed_def store_write_moved_def rename_if_present_def file_call_defs claimed_world_def
      Let_def sample_store_def node_at_def settling_name_def hidden_name_def SETTLING_SUFFIX_def TEMP_SUFFIX_def
      sample_codec_def stage_dir_def put_node_def drop_node_def sample_world_def)


theorem interrupted_settle_is_recovered_witness:
  "\<exists>e w' n v' time. store_move_claimed sample_codec sample_store ''a'' (sample_envelope 3) FailedStage
      (claimed_world [([], Proceed), ([], Crash)]) = (Inl e, w')
    \<and> store_recover sample_store (w'\<lparr>script := []\<rparr>) = (Inr n, v')
    \<and> node_at (dirs v') ''p'' ''a'' = Some (RegFile ''old'' time)"
proof -
  let ?w = "claimed_world [([], Proceed), ([], Crash)]"
  obtain e w' where run: "store_move_claimed sample_codec sample_store ''a'' (sample_envelope 3) FailedStage ?w = (Inl e, w')"
    and d: "dirs w' = [''p'' \<mapsto> [], ''f'' \<mapsto> [], ''i'' \<mapsto> [(''.a.settling'', RegFile ''old'' 0)]]"
    using crashed_settle by blast
  have "readable sample_store (w'\<lparr>script := []\<rparr>)"
    by (auto simp: readable_def d fs_ok_def node_at_def sample_store_def split: if_splits)
  moreover have "keeps_off (settle_names ''i'' ''a'' ''f'' ''aa'') ?w"
    by (simp add: keeps_off_def claimed_world_simps settle_names_def)
  moreover have "utf8_valid ''a''" by (rule utf8_valid_ascii) auto
  ultimately show ?thesis
    using interrupted_settle_is_recovered [OF _ _ _ _ _ run, of "''old''" "w'\<lparr>script := []\<rparr>"] run
    by (auto simp: claimed_world_simps is_hidden_def)
qed

text \<open>C11: A settle of the Redis queue is atomic under a connection that fails before or after the server ran the script: either the claimed element was replaced by the new message in its stage, or nothing changed and the settle is interrupted; success is only reported for the first.\<close>

theorem redis_settle_is_atomic:
  assumes "redis_ok (steady_request srv) stored (\<lambda>_. True)" "flaky_request srv"
    and "element \<in> set (stored s (in_progress_key d))" "to_vec c env = Inr b"
    and "redis_move_claimed srv c d element env t s = (r, s')"
  shows "stored s' = list_move (in_progress_key d) (stage_key d t) element b (stored s) \<and> r \<noteq> Inr False
    \<or> stored s' = stored s \<and> (\<exists>e. r = Inl e)"
  using assms(5) move_if_present_flaky [OF assms(1,2) _ assms(3), of "stage_key d t" b r s']
  by (simp add: redis_move_claimed_def bindE_def redis_serialize_def assms(4))

theorem redis_settle_is_atomic_witness:
  "let srv = sample_redis\<lparr>request := (\<lambda>a s. (Inl wrong_type, snd (a s)))\<rparr>;
       m = (sample_lists [])(''Q:Primary:InProgress'' := [''old'']);
       (r, m') = redis_move_claimed srv sample_codec sample_driver ''old'' (sample_envelope 3) Pending m
   in m' = list_move ''Q:Primary:InProgress'' ''Q:Primary:Pending'' ''old'' (sample_to_vec (sample_envelope 3)) m
        \<and> r \<noteq> Inr False
    \<or> m' = m \<and> (\<exists>e. r = Inl e)"
proof -
  let ?srv = "sample_redis\<lparr>request := (\<lambda>a s. (Inl wrong_type, snd (a s)))\<rparr>"
  let ?m = "(sample_lists [])(''Q:Primary:InProgress'' := [''old''])"
  have "steady_request ?srv = sample_redis" by (simp add: steady_request_def sample_redis_def)
  then have "redis_ok (steady_request ?srv) (\<lambda>s. s) (\<lambda>_. True)" using sample_redis_ok by simp
  moreover have "flaky_request ?srv" by (auto simp: flaky_request_def)
  moreover obtain r m' where run:
    "redis_move_claimed ?srv sample_codec sample_driver ''old'' (sample_envelope 3) Pending ?m = (r, m')" by (rule prod.exhaust)
  ultimately show ?thesis
    using redis_settle_is_atomic [OF _ _ _ _ run, of "\<lambda>s. s" "sample_to_vec (sample_envelope 3)"] run
    by (simp add: sample_driver_keys sample_codec_def stage_key_def)
qed

end
