(* ===== verification/LaneIsolation.thy ===== *)
theory LaneIsolation
  imports Processing
begin

text \<open>
  Queues that share neither a directory nor a key do not disturb each other: every operation of
  one leaves the messages and the invariant of the other as they were. The two lanes of one
  queue are such a pair.
\<close>

section \<open>File calls that touch certain directories only\<close>

text \<open>Without interference \<open>m\<close> changes no directory outside \<open>P\<close>, and leaves the script empty.\<close>

definition touches :: "string set \<Rightarrow> (world \<Rightarrow> 'a \<times> world) \<Rightarrow> bool" where
  "touches P m = (\<forall>w. script w = [] \<longrightarrow>
     script (snd (m w)) = [] \<and> (\<forall>p. p \<notin> P \<longrightarrow> dirs (snd (m w)) p = dirs w p))"

named_theorems touches_rules \<open>the directories that the operations touch\<close>

lemma touchesD:
  assumes "touches P m" "script w = []" "m w = (r, w')"
  shows "script w' = []" "p \<notin> P \<Longrightarrow> dirs w' p = dirs w p"
  using assms unfolding touches_def by (metis snd_conv)+

lemma put_node_other: "p \<in> P \<Longrightarrow> q \<notin> P \<Longrightarrow> put_node p n x d q = d q"
  and drop_node_other: "p \<in> P \<Longrightarrow> q \<notin> P \<Longrightarrow> drop_node p n d q = d q"
  and write_prefix_other: "p \<in> P \<Longrightarrow> q \<notin> P \<Longrightarrow> write_prefix p n b t d q = d q"
  by (auto simp: put_node_def drop_node_def write_prefix_def split: option.splits node.splits)

lemma touches_syscall_with:
  assumes "\<And>t d p. p \<notin> P \<Longrightarrow> snd (f t d) p = d p"
  shows "touches P (syscall_with part f)"
  using assms by (simp add: touches_def syscall_with_quiet)

lemma touches_fs [touches_rules]:
  "p \<in> P \<Longrightarrow> touches P (fs_remove_file p n)" "p \<in> P \<Longrightarrow> q \<in> P \<Longrightarrow> touches P (fs_rename p n q m)"
  "p \<in> P \<Longrightarrow> touches P (fs_create_new p n)" "p \<in> P \<Longrightarrow> touches P (fs_write_all p n b)"
  "touches P fs_sync_all" "touches P (fs_open_dir p)" "touches P (fs_read p n)" "touches P (fs_node p n)"
  "touches P (fs_read_dir p)" "touches P fs_next_entry" "p \<in> P \<Longrightarrow> touches P (fs_create_dir_all p)"
  unfolding fs_defs syscall_def
  by (rule touches_syscall_with;
      auto simp: call_defs put_node_other [where P = P] drop_node_other [where P = P] write_prefix_other [where P = P]
        split: option.split node.split)+

lemma touches_retE [touches_rules]: "touches P (retE x)" and touches_failE [touches_rules]: "touches P (failE e)"
  by (simp_all add: touches_def retE_def failE_def)

lemma touches_bindE [touches_rules]:
  assumes "touches P m" "\<And>x. touches P (k x)"
  shows "touches P (bindE m k)"
  unfolding touches_def
proof (intro allI impI)
  fix w :: world assume w: "script w = []"
  obtain r u where u: "m w = (r, u)" by fastforce
  note m = touchesD [OF assms(1) w u]
  show "script (snd (bindE m k w)) = [] \<and> (\<forall>p. p \<notin> P \<longrightarrow> dirs (snd (bindE m k w)) p = dirs w p)"
    using assms(2) m u by (cases r) (auto simp: bindE_def touches_def)
qed

lemma touches_catchE [touches_rules]:
  assumes "touches P m" "\<And>x. touches P (k x)"
  shows "touches P (catchE m k)"
  unfolding touches_def
proof (intro allI impI)
  fix w :: world assume w: "script w = []"
  obtain r u where u: "m w = (r, u)" by fastforce
  note m = touchesD [OF assms(1) w u]
  show "script (snd (catchE m k w)) = [] \<and> (\<forall>p. p \<notin> P \<longrightarrow> dirs (snd (catchE m k w)) p = dirs w p)"
    using assms(2) m u by (auto simp: catchE_def touches_def)
qed

lemma touches_map_errE [touches_rules]: "touches P m \<Longrightarrow> touches P (map_errE f m)"
  by (simp add: touches_def map_errE_def split: prod.split sum.split) (metis snd_conv)

lemma touches_with_new_name [touches_rules]:
  assumes "\<And>n. touches P (k n)"
  shows "touches P (with_new_name k)"
  using assms by (auto simp: touches_def with_new_name_def new_message_name_def now_v7_def)

section \<open>The operations of the file driver\<close>

definition store_dirs :: "file_store \<Rightarrow> string set" where
  "store_dirs st = {pending_dir st, in_progress_dir st, failed_dir st}"

lemma store_dirs_simps [simp]:
  "pending_dir st \<in> store_dirs st" "in_progress_dir st \<in> store_dirs st" "failed_dir st \<in> store_dirs st"
  "stage_dir st t \<in> store_dirs st"
  by (cases t; simp add: store_dirs_def stage_dir_def)+

lemma touches_serialize [touches_rules]: "touches P (serialize c env)"
  by (simp add: touches_def serialize_def split: sum.split)

lemma touches_rename_if_present [touches_rules]:
  "p \<in> P \<Longrightarrow> q \<in> P \<Longrightarrow> touches P (rename_if_present p n q m)"
  and touches_remove_if_present [touches_rules]: "p \<in> P \<Longrightarrow> touches P (remove_if_present p n)"
  unfolding rename_if_present_def remove_if_present_def
  by (auto intro!: touches_rules split: sum.split)

lemma touches_write_atomic [touches_rules]: "p \<in> P \<Longrightarrow> touches P (write_atomic p n b)"
  unfolding write_atomic_def Let_def by (auto intro!: touches_rules split: sum.split)

lemma touches_collect_messages [touches_rules]: "touches P (collect_messages p es ns)"
  by (induction es arbitrary: ns) (auto intro!: touches_rules split: sum.split)

lemma touches_collect_settles [touches_rules]: "touches P (collect_settles es ns)"
  by (induction es arbitrary: ns) (auto intro!: touches_rules split: option.split)

lemma touches_listings [touches_rules]: "touches P (list_messages p)" "touches P (unfinished_settles p)"
  unfolding list_messages_def unfinished_settles_def by (intro touches_rules)+

lemma touches_remove_stale [touches_rules]: "p \<in> P \<Longrightarrow> touches P (remove_stale p cutoff es)"
  by (induction es) (auto intro!: touches_rules split: sum.split)

lemma touches_remove_stale_temp_files [touches_rules]:
  assumes "p \<in> P"
  shows "touches P (remove_stale_temp_files p age)"
proof -
  have "touches P (bindE (fs_read_dir p) (remove_stale p (cutoff_time (clock w) age)))" for w
    using assms by (intro touches_rules)
  then show ?thesis by (auto simp: touches_def remove_stale_temp_files_def Let_def)
qed

lemma touches_remove_settling [touches_rules]: "p \<in> P \<Longrightarrow> touches P (remove_settling p ns n)"
  by (induction ns arbitrary: n) (auto intro!: touches_rules)

lemma touches_remove_settling_files [touches_rules]: "p \<in> P \<Longrightarrow> touches P (remove_settling_files p)"
  unfolding remove_settling_files_def by (intro touches_rules)

lemma touches_publish [touches_rules]: "touches (store_dirs st) (store_publish c st env)"
  and touches_acknowledge [touches_rules]: "touches (store_dirs st) (store_acknowledge st n)"
  unfolding store_publish_def store_acknowledge_def by (intro touches_rules; simp)+

lemma touches_finish_move [touches_rules]:
  "p \<in> store_dirs st \<Longrightarrow> touches (store_dirs st) (store_finish_move st k p n)"
  unfolding store_finish_move_def by (auto intro!: touches_rules split: sum.split)

lemma touches_write_moved [touches_rules]: "touches (store_dirs st) (store_write_moved c st n env t)"
  unfolding store_write_moved_def Let_def by (auto intro!: touches_rules split: sum.split)

lemma touches_path_exists:
  assumes "\<And>b. touches P (k b)"
  shows "touches P (\<lambda>w. case path_exists p n w of (b, w') \<Rightarrow> k b w')"
  unfolding touches_def
proof (intro allI impI)
  fix w :: world assume w: "script w = []"
  obtain b where "path_exists p n w = (b, w)"
    using w by (cases "syscall (call_exists p n) w") (auto simp: path_exists_def syscall_quiet call_exists_def)
  then show "script (snd (case path_exists p n w of (b, w') \<Rightarrow> k b w')) = []
      \<and> (\<forall>q. q \<notin> P \<longrightarrow> dirs (snd (case path_exists p n w of (b, w') \<Rightarrow> k b w')) q = dirs w q)"
    using assms w by (simp add: touches_def)
qed

lemma touches_move_claimed [touches_rules]: "touches (store_dirs st) (store_move_claimed c st n env t)"
proof -
  have "touches (store_dirs st) (\<lambda>w. case path_exists p claimed w of (there, w') \<Rightarrow>
      if \<not> there then retE False w' else store_write_moved c st n env t w')" for p claimed
    by (rule touches_path_exists [of _ "\<lambda>there. if \<not> there then retE False else store_write_moved c st n env t",
      simplified if_distribR]) (auto intro!: touches_rules)
  then show ?thesis
    unfolding store_move_claimed_def Let_def by (auto intro!: touches_rules)
qed

lemma touches_recover_loops [touches_rules]:
  "touches (store_dirs st) (recover_messages st ns n)" "touches (store_dirs st) (recover_settles st ns n)"
  by (induction ns arbitrary: n) (auto intro!: touches_rules)

lemma touches_recover [touches_rules]: "touches (store_dirs st) (store_recover st)"
  unfolding store_recover_def by (intro touches_rules)

lemma touches_stage_paths [touches_rules]: "touches P (stage_paths st t)"
  unfolding stage_paths_def stage_entries_def Let_def by (auto intro!: touches_rules)

lemma touches_lengths [touches_rules]: "touches P (store_lengths st)"
  unfolding store_lengths_def by (intro touches_rules)

lemma touches_clear_names [touches_rules]: "p \<in> P \<Longrightarrow> touches P (clear_names p ns n)"
  by (induction ns arbitrary: n) (auto intro!: touches_rules)

lemma touches_clear [touches_rules]: "touches (store_dirs st) (store_clear st t)"
  unfolding store_clear_def Let_def by (auto intro!: touches_rules)

lemma touches_peek_paths [touches_rules]: "touches P (peek_paths c p ns ms)"
  by (induction ns arbitrary: ms) (auto intro!: touches_rules split: sum.split)

lemma touches_peek [touches_rules]: "touches P (store_peek c st t lo hi)"
  unfolding store_peek_def by (intro touches_rules)

lemma touches_republish_names [touches_rules]: "touches (store_dirs st) (republish_names st ns n)"
  by (induction ns arbitrary: n) (auto intro!: touches_rules)

lemma touches_republish [touches_rules]: "touches (store_dirs st) (store_republish_failed st n)"
  unfolding store_republish_failed_def by (intro touches_rules)

lemma touches_move_unreadable [touches_rules]: "touches (store_dirs st) (move_unreadable_to_failed st n)"
  unfolding move_unreadable_to_failed_def by (auto intro!: touches_rules)

lemma touches_claim_first [touches_rules]: "touches (store_dirs st) (claim_first c st ns)"
  by (induction ns) (auto intro!: touches_rules split: sum.split)

lemma touches_claim_oldest [touches_rules]: "touches (store_dirs st) (store_claim_oldest c st)"
  unfolding store_claim_oldest_def by (intro touches_rules)

lemma dequeue_loop_touches:
  assumes "dequeue_loop c st deadline w = Some (r, w')" "script w = []" "p \<notin> store_dirs st"
  shows "dirs w' p = dirs w p \<and> uuids w' = uuids w \<and> uuid_next w \<le> uuid_next w'"
proof -
  let ?P = "\<lambda>c st deadline w y. script w = [] \<longrightarrow> p \<notin> store_dirs st \<longrightarrow>
    dirs (snd y) p = dirs w p \<and> uuids (snd y) = uuids w \<and> uuid_next w \<le> uuid_next (snd y)"
  have "?P c st deadline w (r, w')"
  proof (rule dequeue_loop.raw_induct [where P = ?P, OF _ assms(1)])
    fix loop and c st deadline w y
    assume IH: "\<And>c st deadline w y. loop c st deadline w = Some y \<Longrightarrow> ?P c st deadline w y"
      and step: "(case call_store st (store_claim_oldest c) w of
        (Inl e, w') \<Rightarrow> Some (Inl e, w')
      | (Inr (Some d), w') \<Rightarrow> Some (Inr (Some d), w')
      | (Inr None, w') \<Rightarrow>
          (let remaining = remaining_wait deadline (clock w')
           in if remaining = 0 then Some (Inr None, w')
              else loop c st deadline (sleep (min remaining POLL_INTERVAL) w'))) = Some y"
    obtain r1 w1 where w1: "store_claim_oldest c st w = (r1, w1)" by fastforce
    show "?P c st deadline w y"
    proof (intro impI)
      assume w: "script w = []" and p: "p \<notin> store_dirs st"
      note t = touchesD [OF touches_claim_oldest w w1] forwardD [OF forward_claim_oldest w1, unfolded later_def]
      have "y = (r1, w1) \<or> loop c st deadline (sleep (min (remaining_wait deadline (clock w1)) POLL_INTERVAL) w1) = Some y"
        using step unfolding call_store_eq w1 by (auto simp: Let_def split: sum.splits option.splits if_splits)
      then show "dirs (snd y) p = dirs w p \<and> uuids (snd y) = uuids w \<and> uuid_next w \<le> uuid_next (snd y)"
      proof
        assume "loop c st deadline (sleep (min (remaining_wait deadline (clock w1)) POLL_INTERVAL) w1) = Some y"
        from IH [OF this] show ?thesis using t p by (auto simp: sleep_def)
      qed (use t p in simp)
    qed
  qed
  then show ?thesis using assms(2,3) by simp
qed

section \<open>The commands of the Redis driver\<close>

text \<open>Over a working connection \<open>m\<close> changes no list outside \<open>K\<close>.\<close>

definition keys_only ::
  "'s redis_server \<Rightarrow> ('s \<Rightarrow> string \<Rightarrow> bytes list) \<Rightarrow> ('s \<Rightarrow> bool) \<Rightarrow> string set \<Rightarrow> ('s \<Rightarrow> 'a \<times> 's) \<Rightarrow> bool" where
  "keys_only srv stored calm K m = (\<forall>s. redis_ok srv stored calm \<longrightarrow> calm s \<longrightarrow>
     calm (snd (m s)) \<and> (\<forall>k. k \<notin> K \<longrightarrow> stored (snd (m s)) k = stored s k))"

named_theorems keys_rules \<open>the lists that the operations change\<close>

lemma keys_onlyD:
  assumes "keys_only srv stored calm K m" "redis_ok srv stored calm" "calm s" "m s = (r, s')"
  shows "calm s'" "k \<notin> K \<Longrightarrow> stored s' k = stored s k"
  using assms unfolding keys_only_def by (metis snd_conv)+

lemma keys_only_acts:
  assumes "redis_ok srv stored calm \<Longrightarrow> acts_as stored calm a f" "\<And>m k. k \<notin> K \<Longrightarrow> snd (f m) k = m k"
  shows "keys_only srv stored calm K a"
  unfolding keys_only_def
proof (intro allI impI)
  fix s assume "redis_ok srv stored calm" "calm s"
  then have "calm (snd (a s))" "(fst (a s), stored (snd (a s))) = f (stored s)"
    using assms(1) by (auto simp: acts_as_def)
  then show "calm (snd (a s)) \<and> (\<forall>k. k \<notin> K \<longrightarrow> stored (snd (a s)) k = stored s k)"
    using assms(2) by (metis snd_conv)
qed

lemma redis_lmove_other: "src \<in> K \<Longrightarrow> dst \<in> K \<Longrightarrow> k \<notin> K \<Longrightarrow> snd (redis_lmove src dst from to m) k = m k"
  by (auto simp: redis_lmove_def Let_def)

lemma redis_ok_acts:
  assumes "redis_ok srv stored calm"
  shows "acts_as stored calm (execute srv ''LPUSH'' [Arg k, Arg v])
      (\<lambda>m. (RInt (int (Suc (length (m k)))), m(k := v # m k)))"
    and "acts_as stored calm (execute srv ''LREM'' [Arg k, ArgInt 1, Arg v])
      (\<lambda>m. (RInt (if v \<in> set (m k) then 1 else 0), m(k := remove1 v (m k))))"
    and "from \<in> ends \<Longrightarrow> to \<in> ends \<Longrightarrow>
      acts_as stored calm (execute srv ''LMOVE'' [Arg k, Arg k2, Arg from, Arg to]) (redis_lmove k k2 from to)"
    and "from \<in> ends \<Longrightarrow> to \<in> ends \<Longrightarrow>
      acts_as stored calm (execute srv ''BLMOVE'' [Arg k, Arg k2, Arg from, Arg to, ArgSeconds t]) (redis_lmove k k2 from to)"
    and "acts_as stored calm (execute srv ''LLEN'' [Arg k]) (\<lambda>m. (RInt (int (length (m k))), m))"
    and "acts_as stored calm (execute srv ''DEL'' [Arg k]) (\<lambda>m. (RInt (if m k = [] then 0 else 1), m(k := [])))"
    and "acts_as stored calm (execute srv ''LRANGE'' [Arg k, ArgInt a, ArgInt b])
      (\<lambda>m. (RArray (map RBulk (redis_range a b (m k))), m))"
  using assms unfolding redis_ok_def by blast+

lemma keys_only_commands [keys_rules]:
  "k \<in> K \<Longrightarrow> keys_only srv stored calm K (execute srv ''LPUSH'' [Arg k, Arg v])"
  "k \<in> K \<Longrightarrow> keys_only srv stored calm K (execute srv ''LREM'' [Arg k, ArgInt 1, Arg v])"
  "k \<in> K \<Longrightarrow> k2 \<in> K \<Longrightarrow> from \<in> ends \<Longrightarrow> to \<in> ends \<Longrightarrow>
     keys_only srv stored calm K (execute srv ''LMOVE'' [Arg k, Arg k2, Arg from, Arg to])"
  "k \<in> K \<Longrightarrow> k2 \<in> K \<Longrightarrow> from \<in> ends \<Longrightarrow> to \<in> ends \<Longrightarrow>
     keys_only srv stored calm K (execute srv ''BLMOVE'' [Arg k, Arg k2, Arg from, Arg to, ArgSeconds t])"
  "keys_only srv stored calm K (execute srv ''LLEN'' [Arg k])"
  "k \<in> K \<Longrightarrow> keys_only srv stored calm K (execute srv ''DEL'' [Arg k])"
  "keys_only srv stored calm K (execute srv ''LRANGE'' [Arg k, ArgInt a, ArgInt b])"
proof -
  show "k \<in> K \<Longrightarrow> keys_only srv stored calm K (execute srv ''LPUSH'' [Arg k, Arg v])"
    by (rule keys_only_acts [OF redis_ok_acts(1)]) auto
  show "k \<in> K \<Longrightarrow> keys_only srv stored calm K (execute srv ''LREM'' [Arg k, ArgInt 1, Arg v])"
    by (rule keys_only_acts [OF redis_ok_acts(2)]) auto
  show "k \<in> K \<Longrightarrow> k2 \<in> K \<Longrightarrow> from \<in> ends \<Longrightarrow> to \<in> ends \<Longrightarrow>
      keys_only srv stored calm K (execute srv ''LMOVE'' [Arg k, Arg k2, Arg from, Arg to])"
    by (rule keys_only_acts [OF redis_ok_acts(3)]) (simp_all add: redis_lmove_other [where K = K])
  show "k \<in> K \<Longrightarrow> k2 \<in> K \<Longrightarrow> from \<in> ends \<Longrightarrow> to \<in> ends \<Longrightarrow>
      keys_only srv stored calm K (execute srv ''BLMOVE'' [Arg k, Arg k2, Arg from, Arg to, ArgSeconds t])"
    by (rule keys_only_acts [OF redis_ok_acts(4)]) (simp_all add: redis_lmove_other [where K = K])
  show "keys_only srv stored calm K (execute srv ''LLEN'' [Arg k])"
    by (rule keys_only_acts [OF redis_ok_acts(5)]) auto
  show "k \<in> K \<Longrightarrow> keys_only srv stored calm K (execute srv ''DEL'' [Arg k])"
    by (rule keys_only_acts [OF redis_ok_acts(6)]) auto
  show "keys_only srv stored calm K (execute srv ''LRANGE'' [Arg k, ArgInt a, ArgInt b])"
    by (rule keys_only_acts [OF redis_ok_acts(7)]) auto
qed

lemma keys_only_retE [keys_rules]: "keys_only srv stored calm K (retE x)"
  by (simp add: keys_only_def retE_def)

lemma keys_only_bindE [keys_rules]:
  assumes "keys_only srv stored calm K m" "\<And>x. keys_only srv stored calm K (f x)"
  shows "keys_only srv stored calm K (bindE m f)"
  unfolding keys_only_def
proof (intro allI impI)
  fix s assume s: "redis_ok srv stored calm" "calm s"
  obtain r u where u: "m s = (r, u)" by fastforce
  note m = keys_onlyD [OF assms(1) s u]
  show "calm (snd (bindE m f s)) \<and> (\<forall>k. k \<notin> K \<longrightarrow> stored (snd (bindE m f s)) k = stored s k)"
    using assms(2) m u s(1) by (cases r) (auto simp: bindE_def keys_only_def)
qed

lemma keys_only_query [keys_rules]:
  assumes "keys_only srv stored calm K a"
  shows "keys_only srv stored calm K (query_async srv convert a)"
  unfolding keys_only_def
proof (intro allI impI)
  fix s assume s: "redis_ok srv stored calm" "calm s"
  have "request srv a s = (Inr (fst (a s)), snd (a s))" using s unfolding redis_ok_def by blast
  then have "snd (query_async srv convert a s) = snd (a s)" by (simp add: query_async_def split: sum.split)
  then show "calm (snd (query_async srv convert a s))
      \<and> (\<forall>k. k \<notin> K \<longrightarrow> stored (snd (query_async srv convert a s)) k = stored s k)"
    using assms s by (simp add: keys_only_def)
qed

lemma keys_only_move_script [keys_rules]:
  "k1 \<in> K \<Longrightarrow> k2 \<in> K \<Longrightarrow> keys_only srv stored calm K (MOVE_IF_PRESENT srv k1 k2 v u)"
  by (rule keys_only_acts [OF acts_as_move_if_present]) (auto simp: Let_def)

lemma lmoves_other: "src \<in> K \<Longrightarrow> dst \<in> K \<Longrightarrow> k \<notin> K \<Longrightarrow> lmoves src dst from to n m k = m k"
  by (induction n arbitrary: m) (simp_all add: redis_lmove_other [where K = K])

lemma keys_only_bulk_script [keys_rules]:
  assumes "src \<in> K" "dst \<in> K" "src \<noteq> dst" "from \<in> ends" "to \<in> ends"
  shows "keys_only srv stored calm K (BULK_MOVE srv src dst n from to)"
  unfolding keys_only_def
proof (intro allI impI)
  fix s assume s: "redis_ok srv stored calm" "calm s"
  obtain s' where "BULK_MOVE srv src dst n from to s = (RInt (int (min n (length (stored s src)))), s')" "calm s'"
    "stored s' = lmoves src dst from to (min n (length (stored s src))) (stored s)"
    using bulk_move_loop_acts [OF s(1) assms(4,5,3) s(2), of 0 n] by (auto simp: BULK_MOVE_def)
  then show "calm (snd (BULK_MOVE srv src dst n from to s)) \<and>
      (\<forall>k. k \<notin> K \<longrightarrow> stored (snd (BULK_MOVE srv src dst n from to s)) k = stored s k)"
    using lmoves_other [OF assms(1,2)] by simp
qed

lemma keys_only_pipeline [keys_rules]:
  assumes "keys_only srv stored calm K a" "keys_only srv stored calm K b"
  shows "keys_only srv stored calm K (pipeline [a, b])"
    and "keys_only srv stored calm K c \<Longrightarrow> keys_only srv stored calm K (pipeline [a, b, c])"
  using assms by (auto simp: keys_only_def pipeline_def split: prod.split) (metis snd_conv)+

lemma keys_only_catchE [keys_rules]:
  assumes "keys_only srv stored calm K m" "\<And>x. keys_only srv stored calm K (f x)"
  shows "keys_only srv stored calm K (catchE m f)"
  unfolding keys_only_def
proof (intro allI impI)
  fix s assume s: "redis_ok srv stored calm" "calm s"
  obtain r u where u: "m s = (r, u)" by fastforce
  note m = keys_onlyD [OF assms(1) s u]
  show "calm (snd (catchE m f s)) \<and> (\<forall>k. k \<notin> K \<longrightarrow> stored (snd (catchE m f s)) k = stored s k)"
    using assms(2) m u s(1) by (auto simp: catchE_def keys_only_def)
qed

definition driver_keys :: "redis_driver \<Rightarrow> string set" where
  "driver_keys d = {pending_key d, in_progress_key d, failed_key d}"

lemma driver_keys_simps [simp]:
  "pending_key d \<in> driver_keys d" "in_progress_key d \<in> driver_keys d" "failed_key d \<in> driver_keys d"
  "stage_key d t \<in> driver_keys d"
  by (cases t; simp add: driver_keys_def stage_key_def)+

lemma ends_simps [simp]: "''LEFT'' \<in> ends" "''RIGHT'' \<in> ends"
  by (simp_all add: ends_def)

lemma keys_only_serialize [keys_rules]: "keys_only srv stored calm K (redis_serialize c env)"
  by (simp add: keys_only_def redis_serialize_def split: sum.split)

lemma keys_only_publish [keys_rules]: "keys_only srv stored calm (driver_keys d) (redis_publish srv c d env)"
  and keys_only_acknowledge [keys_rules]: "keys_only srv stored calm (driver_keys d) (redis_acknowledge srv d e)"
  and keys_only_lengths [keys_rules]: "keys_only srv stored calm K (redis_lengths srv d)"
  and keys_only_clear [keys_rules]: "keys_only srv stored calm (driver_keys d) (redis_clear srv d t)"
  and keys_only_peek [keys_rules]: "keys_only srv stored calm K (redis_peek srv c d t lo hi)"
  unfolding redis_publish_def redis_acknowledge_def redis_lengths_def redis_clear_def redis_peek_def Let_def
  by (auto intro!: keys_rules)

lemma keys_only_move_if_present [keys_rules]:
  "k \<in> driver_keys d \<Longrightarrow> keys_only srv stored calm (driver_keys d) (move_if_present srv d e k u)"
  unfolding move_if_present_def by (auto intro!: keys_rules)

lemma keys_only_move_claimed [keys_rules]: "keys_only srv stored calm (driver_keys d) (redis_move_claimed srv c d e env t)"
  and keys_only_unreadable [keys_rules]: "keys_only srv stored calm (driver_keys d) (redis_unreadable srv d e)"
  unfolding redis_move_claimed_def redis_unreadable_def by (auto intro!: keys_rules)

lemma keys_only_claim [keys_rules]: "keys_only srv stored calm (driver_keys d) (claim_element srv d wait)"
  unfolding claim_element_def Let_def
  by (cases "wait = 0") (auto intro!: keys_rules)

lemma keys_only_bulk_move [keys_rules]:
  assumes "src \<in> K" "dst \<in> K" "src \<noteq> dst" "from \<in> ends" "to \<in> ends"
  shows "keys_only srv stored calm K (bulk_move srv src dst from to limit moved)"
proof (induction "limit - moved" arbitrary: moved rule: less_induct)
  case less
  show ?case
    unfolding keys_only_def
  proof (intro allI impI)
    fix s assume s: "redis_ok srv stored calm" "calm s"
    let ?batch = "min (limit - moved) BULK_MOVE_BATCH_SIZE"
    obtain r s1 where s1: "query_async srv reply_usize (BULK_MOVE srv src dst ?batch from to) s = (r, s1)" by fastforce
    note q = keys_onlyD [OF keys_only_query [OF keys_only_bulk_script [OF assms]] s s1]
    show "calm (snd (bulk_move srv src dst from to limit moved s)) \<and>
        (\<forall>k. k \<notin> K \<longrightarrow> stored (snd (bulk_move srv src dst from to limit moved s)) k = stored s k)"
    proof (cases "\<exists>count. r = Inr count \<and> moved < limit \<and> \<not> count < ?batch")
      case True
      then obtain count where count: "r = Inr count" "moved < limit" "\<not> count < ?batch" by blast
      then have "limit - (moved + count) < limit - moved" by (auto simp: BULK_MOVE_BATCH_SIZE_def)
      from less [OF this] show ?thesis
        using q s(1) s1 count by (simp add: keys_only_def bulk_move.simps [of _ _ _ _ _ _ moved] Let_def)
    next
      case False
      then show ?thesis
        using q s s1 by (cases r) (auto simp: bulk_move.simps [of _ _ _ _ _ _ moved] Let_def)
    qed
  qed
qed

lemma keys_only_recover: "pending_key d \<noteq> in_progress_key d \<Longrightarrow> keys_only srv stored calm (driver_keys d) (redis_recover srv d)"
  and keys_only_republish: "pending_key d \<noteq> failed_key d \<Longrightarrow>
    keys_only srv stored calm (driver_keys d) (redis_republish_failed srv d n)"
  unfolding redis_recover_def redis_republish_failed_def by (auto intro!: keys_rules)

lemma redis_dequeue_loop_keys:
  assumes "redis_dequeue_loop srv c d deadline s = Some (r, s')" "redis_ok srv stored calm" "calm s" "k \<notin> driver_keys d"
  shows "stored s' k = stored s k"
proof -
  let ?P = "\<lambda>srv c d deadline s y. redis_ok srv stored calm \<longrightarrow> calm s \<longrightarrow> k \<notin> driver_keys d \<longrightarrow>
    stored (snd y) k = stored s k"
  have "?P srv c d deadline s (r, s')"
  proof (rule redis_dequeue_loop.raw_induct [where P = ?P, OF _ assms(1)])
    fix loop and srv :: "'a redis_server" and c d deadline s y
    assume IH: "\<And>srv c d deadline s y. loop srv c d deadline s = Some y \<Longrightarrow> ?P srv c d deadline s y"
      and step: "(case claim_element srv d (nat (deadline - instant_now srv s)) s of
        (Inl e, s') \<Rightarrow> Some (Inl e, s')
      | (Inr None, s') \<Rightarrow> Some (Inr None, s')
      | (Inr (Some element), s') \<Rightarrow>
          (case from_slice c element of
             Inr env \<Rightarrow>
               Some (Inr (Some (new_delivery (count_attempt env) (redis_lane_id d) (RedisReceipt element))), s')
           | Inl _ \<Rightarrow>
               (case redis_unreadable srv d element s' of
                  (_, s'') \<Rightarrow> loop srv c d deadline s''))) = Some y"
    obtain r1 s1 where s1: "claim_element srv d (nat (deadline - instant_now srv s)) s = (r1, s1)" by fastforce
    show "?P srv c d deadline s y"
    proof (intro impI)
      assume s: "redis_ok srv stored calm" "calm s" and k: "k \<notin> driver_keys d"
      note t = keys_onlyD [OF keys_only_claim s s1]
      consider "snd y = s1" | e s2 where "redis_unreadable srv d e s1 = s2" "loop srv c d deadline (snd s2) = Some y"
        using step unfolding s1 by (auto split: sum.splits option.splits prod.splits) (metis snd_conv)+
      then show "stored (snd y) k = stored s k"
      proof cases
        case 1
        then show ?thesis using t k by simp
      next
        case (2 e s2)
        obtain r2 u where s2: "s2 = (r2, u)" by (cases s2)
        note v = keys_onlyD [OF keys_only_unreadable s(1) t(1) 2(1) [unfolded s2]]
        show ?thesis using IH [of srv c d deadline u y] 2(2) s(1) t v k by (simp add: s2)
      qed
    qed
  qed
  then show ?thesis using assms(2-4) by simp
qed

section \<open>The operations that only go forward\<close>

lemma forward_recover_messages [forward_rules]: "forward (recover_messages st names n)"
  by (induction names arbitrary: n) (auto intro!: forward_rules)

lemma forward_recover_settles [forward_rules]: "forward (recover_settles st names n)"
  by (induction names arbitrary: n) (auto intro!: forward_rules)

lemma forward_collect_settles [forward_rules]: "forward (collect_settles es ns)"
  by (induction es arbitrary: ns) (auto intro!: forward_rules split: option.split)

lemma forward_unfinished_settles [forward_rules]: "forward (unfinished_settles p)"
  unfolding unfinished_settles_def by (intro forward_rules)

lemma forward_recover [forward_rules]: "forward (store_recover st)"
  unfolding store_recover_def by (intro forward_rules)

lemma forward_republish_names [forward_rules]: "forward (republish_names st ns n)"
  by (induction ns arbitrary: n) (auto intro!: forward_rules)

lemma forward_republish [forward_rules]: "forward (store_republish_failed st n)"
  unfolding store_republish_failed_def by (intro forward_rules)

lemma forward_remove_stale [forward_rules]: "forward (remove_stale p cutoff es)"
  by (induction es) (auto intro!: forward_rules split: sum.split)

lemma forward_remove_stale_temp_files [forward_rules]: "forward (remove_stale_temp_files p age)"
proof -
  have "forward (bindE (fs_read_dir p) (remove_stale p (cutoff_time (clock w) age)))" for w
    by (intro forward_rules)
  then show ?thesis by (auto simp: forward_def remove_stale_temp_files_def Let_def)
qed

lemma forward_remove_settling [forward_rules]: "forward (remove_settling p ns n)"
  by (induction ns arbitrary: n) (auto intro!: forward_rules)

lemma forward_clear_names [forward_rules]: "forward (clear_names p ns n)"
  by (induction ns arbitrary: n) (auto intro!: forward_rules)

lemma forward_clear [forward_rules]: "forward (store_clear st t)"
  unfolding store_clear_def remove_settling_files_def Let_def by (auto intro!: forward_rules)

section \<open>Queues apart\<close>

definition apart :: "backend \<Rightarrow> backend \<Rightarrow> bool" where
  "apart q q' =
     (case (q, q') of
        (FileBackend st, FileBackend st') \<Rightarrow> store_dirs st \<inter> store_dirs st' = {}
      | (RedisBackend d, RedisBackend d') \<Rightarrow> driver_keys d \<inter> driver_keys d' = {}
      | _ \<Rightarrow> True)"

text \<open>From \<open>s\<close> to \<open>s'\<close> nothing changed but what the queue \<open>q\<close> holds.\<close>

definition changes_only :: "('s \<Rightarrow> string \<Rightarrow> bytes list) \<Rightarrow> backend \<Rightarrow> 's stores \<Rightarrow> 's stores \<Rightarrow> bool" where
  "changes_only stored q s s' =
     (case q of
        FileBackend st \<Rightarrow> server s' = server s \<and> uuids (files s') = uuids (files s)
          \<and> uuid_next (files s) \<le> uuid_next (files s') \<and> (\<forall>p. p \<notin> store_dirs st \<longrightarrow> dirs (files s') p = dirs (files s) p)
      | RedisBackend d \<Rightarrow> files s' = files s \<and> (\<forall>k. k \<notin> driver_keys d \<longrightarrow> stored (server s') k = stored (server s) k))"

lemma uuids_mono: "uuid_supply f \<Longrightarrow> i \<le> j \<Longrightarrow> f i \<le> f j"
  by (metis le_less uuid_supply_def)

lemma file_inv_elsewhere:
  assumes inv: "file_inv st w" and quiet: "script w' = []" "fs_ok (dirs w')"
    and uuids: "uuids w' = uuids w" "uuid_next w \<le> uuid_next w'"
    and same: "\<And>p. p \<in> store_dirs st \<Longrightarrow> dirs w' p = dirs w p"
  shows "file_inv st w'" "file_view st w' = file_view st w"
proof -
  have node: "node_at (dirs w') (stage_dir st t) = node_at (dirs w) (stage_dir st t)" for t
    using same [of "stage_dir st t"] by (auto simp: node_at_def)
  have base: "file_base st w" using inv by (rule file_inv_base)
  have "uuid_supply (uuids w)" using base by (simp add: file_base_def)
  then have next_le: "next_name w \<le> next_name w'"
    using uuids by (simp add: next_name_def uuids_mono)
  have "stage_ok w' (stage_dir st t)" for t
    using base_stage [OF base, of t] same [of "stage_dir st t"] uuids next_le
    unfolding stage_ok_def node by (auto intro: less_le_trans order.trans)
  then have "file_base st w'" using base quiet uuids(1) by (simp add: file_base_def)
  moreover have vis: "stage_vis st w' = stage_vis st w"
    by (rule ext) (simp only: stage_vis_def vis_def node)
  ultimately show "file_inv st w'" using inv by (simp add: file_inv_iff)
  show "file_view st w' = file_view st w" by (simp add: file_view_def vis)
qed

lemma apart_untouched:
  assumes "apart q q'" "queue_inv x stored calm q s'" "queue_inv x stored calm q' s" "changes_only stored q s s'"
  shows "queue_inv x stored calm q' s'" "queue_view stored q' s' = queue_view stored q' s"
proof -
  have "queue_inv x stored calm q' s' \<and> queue_view stored q' s' = queue_view stored q' s"
  proof (cases q)
    case q: (FileBackend st)
    show ?thesis
    proof (cases q')
      case (FileBackend st')
      have "p \<notin> store_dirs st" if "p \<in> store_dirs st'" for p
        using assms(1) that q FileBackend by (auto simp: apart_def)
      moreover have "script (files s') = []" "fs_ok (dirs (files s'))"
        using assms(2) q by (auto simp: queue_inv_def file_inv_def file_base_def)
      ultimately show ?thesis
        using file_inv_elsewhere [of st' "files s" "files s'"] assms(3,4) q FileBackend
        by (auto simp: changes_only_def queue_inv_def queue_view_def)
    next
      case (RedisBackend d')
      then show ?thesis using assms(3,4) q by (simp add: changes_only_def queue_inv_def queue_view_def)
    qed
  next
    case q: (RedisBackend d)
    show ?thesis
    proof (cases q')
      case (FileBackend st')
      then show ?thesis using assms(3,4) q by (simp add: changes_only_def queue_inv_def queue_view_def)
    next
      case (RedisBackend d')
      have "stored (server s') k = stored (server s) k" if "k \<in> driver_keys d'" for k
        using assms(1,4) that q RedisBackend by (auto simp: apart_def changes_only_def)
      then show ?thesis using assms(2,3) q RedisBackend
        by (simp add: queue_inv_def queue_view_def redis_inv_def redis_view_def lane_of_lists_def)
    qed
  qed
  then show "queue_inv x stored calm q' s'" "queue_view stored q' s' = queue_view stored q' s" by blast+
qed

section \<open>Every operation stays within its queue\<close>

lemma files_change:
  assumes "queue_inv x stored calm (FileBackend st) s" "touches (store_dirs st) m" "forward m"
  shows "changes_only stored (FileBackend st) s (snd (on_files m s))"
proof -
  obtain r w where w: "m (files s) = (r, w)" by fastforce
  have "script (files s) = []" using assms(1) by (simp add: queue_inv_def file_inv_def file_base_def)
  then show ?thesis
    using touchesD [OF assms(2) _ w] forwardD [OF assms(3) w] w
    by (simp add: changes_only_def on_files_def later_def)
qed

lemma server_changes:
  assumes "queue_inv x stored calm (RedisBackend d) s"
    and "redis_inv (redis_client x) stored calm d (server s) \<Longrightarrow> keys_only (redis_client x) stored calm (driver_keys d) m"
  shows "changes_only stored (RedisBackend d) s (snd (on_server m s))"
proof -
  obtain r v where v: "m (server s) = (r, v)" by fastforce
  have inv: "redis_inv (redis_client x) stored calm d (server s)" using assms(1) by (simp add: queue_inv_def)
  then have "redis_ok (redis_client x) stored calm" "calm (server s)" by (simp_all add: redis_inv_def)
  then show ?thesis
    using keys_onlyD(2) [OF assms(2) [OF inv] _ _ v] v by (simp add: changes_only_def on_server_def)
qed

lemma changes_only_refl [simp]: "changes_only stored q s s"
  by (simp add: changes_only_def split: backend.split)

lemma publish_changes:
  assumes "queue_inv x stored calm q s"
  shows "changes_only stored q s (snd (queue_publish x q env s))"
  using assms
  by (cases q) (simp_all add: queue_publish_def files_change touches_rules forward_rules server_changes keys_rules)

lemma recover_changes:
  assumes "queue_inv x stored calm q s"
  shows "changes_only stored q s (snd (queue_recover x q s))"
  using assms
  by (cases q) (simp_all add: queue_recover_def files_change touches_rules forward_rules server_changes
    keys_only_recover keys_distinct)

lemma republish_changes:
  assumes "queue_inv x stored calm q s"
  shows "changes_only stored q s (snd (queue_republish_failed x q n s))"
  using assms
  by (cases q) (simp_all add: queue_republish_failed_def files_change touches_rules forward_rules server_changes
    keys_only_republish keys_distinct)

lemma clear_changes:
  assumes "queue_inv x stored calm q s"
  shows "changes_only stored q s (snd (queue_clear x q t s))"
  using assms
  by (cases q) (simp_all add: queue_clear_def files_change touches_rules forward_rules server_changes keys_rules)

lemma acknowledge_changes:
  assumes "queue_inv x stored calm q s"
  shows "changes_only stored q s (snd (queue_acknowledge x q dl s))"
proof -
  have "changes_only stored q s (snd (on_files (store_acknowledge st n) s))" if "q = FileBackend st" for st n
    using assms that by (simp add: files_change touches_rules forward_rules)
  moreover have "changes_only stored q s (snd (on_server (redis_acknowledge (redis_client x) d e) s))"
    if "q = RedisBackend d" for d e
    using assms that by (simp add: server_changes keys_rules)
  ultimately show ?thesis
    by (auto simp: queue_acknowledge_def split: backend.split receipt.split prod.split) (metis snd_conv)+
qed

lemma move_changes:
  assumes "queue_inv x stored calm q s"
  shows "changes_only stored q s (snd (queue_move_claimed x q dl t s))"
proof -
  have "changes_only stored q s (snd (on_files (store_move_claimed (json_codec x) st n env t) s))"
    if "q = FileBackend st" for st n env
    using assms that by (simp add: files_change touches_rules forward_rules)
  moreover have "changes_only stored q s (snd (on_server (redis_move_claimed (redis_client x) (json_codec x) d e env t) s))"
    if "q = RedisBackend d" for d e env
    using assms that by (simp add: server_changes keys_rules)
  ultimately show ?thesis
    by (auto simp: queue_move_claimed_def split: backend.split receipt.split prod.split) (metis snd_conv)+
qed

lemma settle_changes:
  assumes "queue_inv x stored calm q s"
  shows "changes_only stored q s (snd (settle x q dl kind s))"
  using acknowledge_changes [OF assms] move_changes [OF assms]
  by (simp add: settle_def queue_retry_def queue_move_to_failed_def queue_release_def split: settle_action.split)

lemma dequeue_changes:
  assumes "queue_inv x stored calm q s" "queue_dequeue x q wait s = Some (r, s')"
  shows "changes_only stored q s s'"
proof (cases q)
  case (FileBackend st)
  then obtain w where w: "file_dequeue (json_codec x) st wait (files s) = Some (r, w)" "s' = s\<lparr>files := w\<rparr>"
    using assms(2) by (auto simp: queue_dequeue_def)
  have quiet: "script (files s) = []"
    using assms(1) FileBackend by (simp add: queue_inv_def file_inv_def file_base_def)
  note loop = dequeue_loop_touches [OF w(1) [unfolded file_dequeue_def] quiet]
  obtain p where p: "p \<notin> store_dirs st"
    using ex_new_if_finite [of "store_dirs st"] infinite_UNIV_listI by (auto simp: store_dirs_def)
  show ?thesis using FileBackend w(2) loop loop [OF p] by (simp add: changes_only_def)
next
  case (RedisBackend d)
  then obtain v where v: "redis_dequeue (redis_client x) (json_codec x) d wait (server s) = Some (r, v)" "s' = s\<lparr>server := v\<rparr>"
    using assms(2) by (auto simp: queue_dequeue_def)
  have "redis_ok (redis_client x) stored calm" "calm (server s)"
    using assms(1) RedisBackend by (auto simp: queue_inv_def redis_inv_def)
  then show ?thesis
    using redis_dequeue_loop_keys [OF v(1) [unfolded redis_dequeue_def]] RedisBackend v(2) by (simp add: changes_only_def)
qed

section \<open>The lanes of one queue\<close>

definition opened_store :: "string \<Rightarrow> queue_lane \<Rightarrow> string \<Rightarrow> file_store" where
  "opened_store n lane base =
     \<lparr>store_lane = lane, pending_dir = stage_path n lane base Pending,
      in_progress_dir = stage_path n lane base InProgress,
      failed_dir = stage_path n lane base FailedStage\<rparr>"

definition opened :: "queue_driver \<Rightarrow> string \<Rightarrow> string \<Rightarrow> queue_lane \<Rightarrow> backend" where
  "opened driver n base lane =
     (case driver of FileDriver \<Rightarrow> FileBackend (opened_store n lane base)
      | RedisDriver \<Rightarrow> RedisBackend (open_redis n lane))"

lemma opened_lane [simp]: "queue_lane_of (opened driver n base lane) = lane"
  by (cases driver) (simp_all add: opened_def opened_store_def open_redis_def)

lemma path_join_inject [simp]:
  "path_join base (n @ CHR ''_'' # x) = path_join base (n @ CHR ''_'' # y) \<longleftrightarrow> x = y"
  by (cases n) (auto simp: path_join_def)

lemma stage_path_lanes: "stage_path n Primary base t \<noteq> stage_path n Secondary base t'"
  by (simp add: stage_path_def)

lemma redis_stage_key_lanes: "redis_stage_key n Primary t \<noteq> redis_stage_key n Secondary t'"
  by (simp add: redis_stage_key_def)

lemma opened_apart: "lane \<noteq> lane' \<Longrightarrow> apart (opened driver n base lane) (opened driver n base lane')"
  using stage_path_lanes [of n base] redis_stage_key_lanes [of n]
  by (cases driver; cases lane; cases lane')
    (auto simp: apart_def opened_def opened_store_def store_dirs_def open_redis_def driver_keys_def dest: sym)

text \<open>Opening a lane that exists keeps its messages.\<close>

lemma create_dir_present:
  "script w = [] \<Longrightarrow> dirs w p \<noteq> None \<Longrightarrow> fs_create_dir_all p w = (Inr (), w)"
  by (auto simp: fs_defs call_defs syscall_quiet)

lemma open_stages_quiet:
  assumes "file_base st w"
  shows "\<exists>w'. open_stages st ss w = (Inr (), w') \<and> file_base st w' \<and> stage_vis st w' = stage_vis st w"
  using assms
proof (induction ss arbitrary: w)
  case (Cons t ss)
  have "io_to_queue (fs_create_dir_all (stage_dir st t)) w = (Inr (), w)"
    using create_dir_present [OF base_quiet [OF Cons.prems] base_dir [OF Cons.prems]] by (simp add: map_errE_def)
  moreover obtain w1 where "remove_stale_temp_files (stage_dir st t) STALE_TEMP_AGE w = (Inr (), w1)"
    "file_base st w1" "stage_vis st w1 = stage_vis st w"
    using remove_stale_temp_quiet [OF Cons.prems] by blast
  ultimately show ?case using Cons.IH [of w1] by (auto simp: bindE_def map_errE_def)
qed (simp add: retE_def)

lemma open_store_law:
  assumes "file_inv (opened_store n lane base) w"
  shows "\<exists>w'. open_store n lane base w = (Inr (opened_store n lane base), w')
    \<and> file_inv (opened_store n lane base) w' \<and> file_view (opened_store n lane base) w' = file_view (opened_store n lane base) w"
proof -
  let ?st = "opened_store n lane base"
  obtain w' where "open_stages ?st all_stages w = (Inr (), w')" "file_base ?st w'" "stage_vis ?st w' = stage_vis ?st w"
    using open_stages_quiet [OF file_inv_base [OF assms]] by blast
  then show ?thesis using assms
    by (simp add: open_store_def Let_def bindE_def retE_def file_inv_iff file_view_def flip: opened_store_def)
qed

text \<open>What a working connection is: it is made without changing what is stored.\<close>

definition connects :: "('s \<Rightarrow> string \<Rightarrow> bytes list) \<Rightarrow> ('s \<Rightarrow> bool) \<Rightarrow> ('s \<Rightarrow> (dyn_error + unit) \<times> 's) \<Rightarrow> bool" where
  "connects stored calm connect =
     (\<forall>s. calm s \<longrightarrow> fst (connect s) = Inr () \<and> calm (snd (connect s)) \<and> stored (snd (connect s)) = stored s)"

lemma open_queue_law:
  assumes "queue_inv x stored calm (opened driver n base lane) s" "connects stored calm connect"
  shows "\<exists>s'. open_queue connect driver n base lane s = (Inr (opened driver n base lane), s')
    \<and> queue_inv x stored calm (opened driver n base lane) s'
    \<and> queue_view stored (opened driver n base lane) s' = queue_view stored (opened driver n base lane) s"
proof (cases driver)
  case FileDriver
  then obtain w where "open_store n lane base (files s) = (Inr (opened_store n lane base), w)"
    "file_inv (opened_store n lane base) w" "file_view (opened_store n lane base) w = file_view (opened_store n lane base) (files s)"
    using open_store_law [of n lane base "files s"] assms(1) by (auto simp: queue_inv_def opened_def)
  then show ?thesis using FileDriver
    by (simp add: open_queue_def opened_def bindE_def retE_def on_files_def queue_inv_def queue_view_def)
next
  case RedisDriver
  then have "redis_inv (redis_client x) stored calm (open_redis n lane) (server s)"
    using assms(1) by (simp add: queue_inv_def opened_def)
  then have "calm (server s)" by (simp add: redis_inv_def)
  then obtain v where "connect (server s) = (Inr (), v)" "calm v" "stored v = stored (server s)"
    using assms(2) unfolding connects_def by (metis prod.collapse)
  then show ?thesis using RedisDriver \<open>redis_inv _ _ _ _ _\<close>
    by (simp add: open_queue_def opened_def bindE_def retE_def on_server_def map_errE_def queue_inv_def queue_view_def
      redis_inv_def redis_view_def)
qed

lemma open_changes:
  assumes "queue_inv x stored calm (opened driver n base lane) s" "connects stored calm connect"
  shows "changes_only stored (opened driver n base lane) s (snd (open_queue connect driver n base lane s))"
proof (cases driver)
  case FileDriver
  let ?st = "opened_store n lane base"
  have touch: "touches (store_dirs ?st) (open_stages ?st ss)" and fwd: "forward (open_stages ?st ss)" for ss
    by (induction ss) (auto intro!: touches_rules forward_rules)
  have "open_store n lane base = bindE (open_stages ?st all_stages) (\<lambda>_. retE ?st)"
    by (simp add: open_store_def opened_store_def Let_def)
  then have "changes_only stored (FileBackend ?st) s (snd (on_files (open_store n lane base) s))"
    using assms(1) FileDriver
    by (auto simp: opened_def intro!: files_change touches_rules forward_rules touch fwd)
  then show ?thesis using FileDriver by (simp add: open_queue_def opened_def bindE_def retE_def split: prod.split sum.split) (metis snd_conv)
next
  case RedisDriver
  have "calm (server s)" using assms(1) RedisDriver by (simp add: queue_inv_def opened_def redis_inv_def)
  then show ?thesis using RedisDriver assms(2)
    by (auto simp: open_queue_def opened_def bindE_def retE_def on_server_def map_errE_def changes_only_def connects_def
      split: prod.split sum.split)
qed

section \<open>Time\<close>

lemma still_clock:
  assumes "queue_inv x stored calm q s" "later (files s) (files s')" "changes_only stored q s s'"
  shows "clock (files s') = clock (files s)"
  using assms by (cases q) (auto simp: queue_inv_def file_inv_def file_base_def later_def changes_only_def)

lemma dequeue_loop_clock:
  assumes "dequeue_loop c st (Some t) w = Some (r, w')" "script w = []" "clock w \<le> t"
  shows "clock w' \<le> t"
proof -
  let ?P = "\<lambda>c st deadline w y. script w = [] \<longrightarrow> deadline = Some t \<longrightarrow> clock w \<le> t \<longrightarrow> clock (snd y) \<le> t"
  have "?P c st (Some t) w (r, w')"
  proof (rule dequeue_loop.raw_induct [where P = ?P, OF _ assms(1)])
    fix loop and c st deadline w y
    assume IH: "\<And>c st deadline w y. loop c st deadline w = Some y \<Longrightarrow> ?P c st deadline w y"
      and step: "(case call_store st (store_claim_oldest c) w of
        (Inl e, w') \<Rightarrow> Some (Inl e, w')
      | (Inr (Some d), w') \<Rightarrow> Some (Inr (Some d), w')
      | (Inr None, w') \<Rightarrow>
          (let remaining = remaining_wait deadline (clock w')
           in if remaining = 0 then Some (Inr None, w')
              else loop c st deadline (sleep (min remaining POLL_INTERVAL) w'))) = Some y"
    obtain r1 w1 where w1: "store_claim_oldest c st w = (r1, w1)" by fastforce
    show "?P c st deadline w y"
    proof (intro impI)
      assume w: "script w = []" and t: "deadline = Some t" "clock w \<le> t"
      have same: "script w1 = []" "clock w1 = clock w"
        using touchesD(1) [OF touches_claim_oldest w w1] forwardD [OF forward_claim_oldest w1] w by (simp_all add: later_def)
      have "y = (r1, w1) \<or> loop c st deadline (sleep (min (remaining_wait deadline (clock w1)) POLL_INTERVAL) w1) = Some y"
        using step unfolding call_store_eq w1 by (auto simp: Let_def split: sum.splits option.splits if_splits)
      then show "clock (snd y) \<le> t"
      proof
        assume "loop c st deadline (sleep (min (remaining_wait deadline (clock w1)) POLL_INTERVAL) w1) = Some y"
        from IH [OF this] show ?thesis using same t by (auto simp: sleep_def remaining_wait_def)
      qed (use same t in simp)
    qed
  qed
  then show ?thesis using assms(2,3) by simp
qed

text \<open>Without interference a dequeue takes no longer than it may wait.\<close>

lemma dequeue_clock:
  assumes "queue_inv x stored calm q s" "clock (files s) + int wait \<le> instant_max" "queue_dequeue x q wait s = Some (r, s')"
  shows "clock (files s') \<le> clock (files s) + int wait"
proof (cases q)
  case (FileBackend st)
  then obtain w where w: "file_dequeue (json_codec x) st wait (files s) = Some (r, w)" "s' = s\<lparr>files := w\<rparr>"
    using assms(3) by (auto simp: queue_dequeue_def)
  have "dequeue_loop (json_codec x) st (Some (clock (files s) + int wait)) (files s) = Some (r, w)"
    using w(1) assms(2) by (simp add: file_dequeue_def checked_deadline_def)
  moreover have "script (files s) = []"
    using assms(1) FileBackend by (simp add: queue_inv_def file_inv_def file_base_def)
  ultimately show ?thesis using dequeue_loop_clock w(2) by simp
next
  case (RedisBackend d)
  then show ?thesis using dequeue_changes [OF assms(1,3)] by (simp add: changes_only_def)
qed

lemma later_refl_server: "later (files s) (files (snd (on_server m s)))"
  by (simp add: on_server_def split: prod.split)

lemma later_open: "later (files s) (files (snd (open_queue connect driver n base lane s)))"
proof (cases driver)
  case FileDriver
  have "forward (open_stages st ss)" for st ss
    by (induction ss) (auto intro!: forward_rules)
  then have "forward (open_store n lane base)"
    unfolding open_store_def Let_def by (auto intro!: forward_rules)
  from later_on_files [OF this, of s] show ?thesis using FileDriver
    by (auto simp: open_queue_def bindE_def retE_def split: prod.split sum.split)
next
  case RedisDriver
  then show ?thesis using later_refl_server [of s "map_errE RedisError connect"]
    by (auto simp: open_queue_def bindE_def retE_def split: prod.split sum.split)
qed

lemma forward_stage_paths [forward_rules]: "forward (stage_paths st t)"
  unfolding stage_paths_def stage_entries_def Let_def by (auto intro!: forward_rules)

lemma forward_lengths [forward_rules]: "forward (store_lengths st)"
  unfolding store_lengths_def by (intro forward_rules)

lemma later_lengths: "later (files s) (files (snd (queue_lengths_of x q s)))"
  using later_on_files [OF forward_lengths] later_refl_server
  by (auto simp: queue_lengths_of_def split: backend.split)

lemma lengths_changes:
  assumes "queue_inv x stored calm q s"
  shows "changes_only stored q s (snd (queue_lengths_of x q s))"
  using assms
  by (cases q) (simp_all add: queue_lengths_of_def files_change touches_rules forward_rules server_changes keys_rules)

end
