(* ===== verification/SharedLane.thy ===== *)
theory SharedLane
  imports QueueProperties LaneIsolation "HOL-Library.Multiset"
begin

text \<open>
  Several consumers of one lane side by side, as \<open>QueueConsumers::run\<close> of
  \<open>src/inengine-core/src/server/consumers.rs\<close> spawns them, with publishers beside them and with
  crashes of the whole server that are followed by the recovery at its next start. An execution
  is a list of events, in any order: an operation of the queue is one event. A dequeue that waits
  is a row of dequeues that do not, between which the others act. Each consumer holds at most one
  delivery, the one it is working on.
\<close>

section \<open>Events\<close>

datatype shared_event = Announces command_envelope | Claims nat | Settles nat attempt_kind | Restarts

text \<open>\<open>announced\<close> and \<open>completed\<close> list the identifiers of the messages published and acknowledged so far.\<close>

record 's shared_lane =
  lane_stores :: "'s stores"
  held :: "delivery option list"
  announced :: "uuid list"
  completed :: "uuid list"

definition start_shared :: "nat \<Rightarrow> 's stores \<Rightarrow> 's shared_lane" where
  "start_shared n s = \<lparr>lane_stores = s, held = replicate n None, announced = [], completed = []\<rparr>"

text \<open>What a consumer holds after a settle: only an interrupted one is tried again.\<close>

definition still_held :: "settle_error + settle_outcome \<Rightarrow> delivery option" where
  "still_held settled = (case settled of Inl (SettleInterrupted d source) \<Rightarrow> Some d | _ \<Rightarrow> None)"

fun shared_step :: "'s queue_deps \<Rightarrow> backend \<Rightarrow> shared_event \<Rightarrow> 's shared_lane \<Rightarrow> 's shared_lane option" where
  "shared_step x q (Announces env) v =
     (case queue_publish x q env (lane_stores v) of
        (Inr _, s') \<Rightarrow> Some (v\<lparr>lane_stores := s', announced := env_id env # announced v\<rparr>)
      | (Inl _, s') \<Rightarrow> Some (v\<lparr>lane_stores := s'\<rparr>))"
| "shared_step x q (Claims i) v =
     (if i < length (held v) \<and> held v ! i = None
      then (case queue_dequeue x q 0 (lane_stores v) of
              None \<Rightarrow> None
            | Some (Inr (Some d), s') \<Rightarrow> Some (v\<lparr>lane_stores := s', held := (held v)[i := Some d]\<rparr>)
            | Some (_, s') \<Rightarrow> Some (v\<lparr>lane_stores := s'\<rparr>))
      else Some v)"
| "shared_step x q (Settles i kind) v =
     (case if i < length (held v) then held v ! i else None of
        None \<Rightarrow> Some v
      | Some d \<Rightarrow>
          (case settle x q d kind (lane_stores v) of
             (settled, s') \<Rightarrow> Some (v\<lparr>lane_stores := s', held := (held v)[i := still_held settled],
                 completed := (if settled = Inr Acknowledged then env_id (envelope d) # completed v
                               else completed v)\<rparr>)))"
| "shared_step x q Restarts v =
     (case queue_recover x q (lane_stores v) of
        (_, s') \<Rightarrow> Some (v\<lparr>lane_stores := s', held := replicate (length (held v)) None\<rparr>))"

primrec shared_run :: "'s queue_deps \<Rightarrow> backend \<Rightarrow> shared_event list \<Rightarrow> 's shared_lane \<Rightarrow> 's shared_lane option" where
  "shared_run x q [] v = Some v"
| "shared_run x q (event # events) v = Option.bind (shared_step x q event v) (shared_run x q events)"

section \<open>Counting messages by their identifiers\<close>

definition id_of :: "codec \<Rightarrow> bytes \<Rightarrow> uuid option" where
  "id_of c b = (case from_slice c b of Inr env \<Rightarrow> Some (env_id env) | Inl _ \<Rightarrow> None)"

text \<open>The identifiers of the readable messages among \<open>bs\<close>.\<close>

definition ids_in :: "codec \<Rightarrow> bytes list \<Rightarrow> uuid multiset" where
  "ids_in c bs = mset (List.map_filter (id_of c) bs)"

definition deliveries :: "delivery option list \<Rightarrow> delivery multiset" where
  "deliveries hs = mset (List.map_filter (\<lambda>h. h) hs)"

definition ids_held :: "delivery option list \<Rightarrow> uuid multiset" where
  "ids_held hs = image_mset (\<lambda>d. env_id (envelope d)) (deliveries hs)"

lemma ids_in_simps [simp]:
  "ids_in c [] = {#}" "ids_in c (as @ bs) = ids_in c as + ids_in c bs"
  "id_of c b = Some i \<Longrightarrow> ids_in c (b # bs) = add_mset i (ids_in c bs)"
  "id_of c b = None \<Longrightarrow> ids_in c (b # bs) = ids_in c bs"
  by (simp_all add: ids_in_def List.map_filter_def)

lemma id_of_readable: "from_slice c b = Inr env \<Longrightarrow> id_of c b = Some (env_id env)"
  by (simp add: id_of_def)

lemma ids_in_unreadable: "\<forall>b \<in> set bs. unreadable c b \<Longrightarrow> ids_in c bs = {#}"
  by (induction bs) (auto simp: unreadable_def id_of_def split: sum.splits)

lemma ids_in_drop: "ids_in c (dropWhile (unreadable c) bs) = ids_in c bs"
proof -
  have "ids_in c (takeWhile (unreadable c) bs) = {#}"
    by (rule ids_in_unreadable) (auto dest: set_takeWhileD)
  then show ?thesis using ids_in_simps(2) [of c "takeWhile (unreadable c) bs" "dropWhile (unreadable c) bs"] by simp
qed

lemma ids_in_take: "ids_in c (takeWhile (unreadable c) bs) = {#}"
  by (rule ids_in_unreadable) (auto dest: set_takeWhileD)

lemma deliveries_replicate [simp]: "deliveries (replicate n None) = {#}"
  by (induction n) (simp_all add: deliveries_def List.map_filter_def)

lemma deliveries_claim:
  "i < length hs \<Longrightarrow> hs ! i = None \<Longrightarrow> deliveries (hs[i := Some d]) = add_mset d (deliveries hs)"
  by (induction hs arbitrary: i) (auto simp: deliveries_def List.map_filter_def split: nat.split option.splits)

lemma deliveries_settle:
  "i < length hs \<Longrightarrow> hs ! i = Some d \<Longrightarrow> deliveries hs = add_mset d (deliveries (hs[i := None]))"
  by (induction hs arbitrary: i) (auto simp: deliveries_def List.map_filter_def split: nat.split option.splits)

lemma held_in_deliveries: "i < length hs \<Longrightarrow> hs ! i = Some d \<Longrightarrow> d \<in># deliveries hs"
  using deliveries_settle by fastforce

lemma size_deliveries: "size (deliveries hs) \<le> length hs"
  by (induction hs) (simp_all add: deliveries_def List.map_filter_def le_SucI)

section \<open>Facts on the lane\<close>

text \<open>The names of the files in progress are distinct, and a receipt of Redis is the stored message itself.\<close>

lemma same_receipt_same_bytes:
  assumes "(k, b) \<in> set (running (queue_view stored q s))" "(k, b') \<in> set (running (queue_view stored q s))"
  shows "b = b'"
proof (cases q)
  case (FileBackend st)
  have "distinct (map fst (running (file_view st (files s))))"
    by (simp add: file_view_def lane_of_def stage_vis_def view_of_distinct)
  then have "b1 = b2" if "(n, b1) \<in> set (running (file_view st (files s)))"
    "(n, b2) \<in> set (running (file_view st (files s)))" for n b1 b2
    using that by (rule eq_key_imp_eq_value)
  then show ?thesis using assms FileBackend by (auto simp: queue_view_def)
next
  case (RedisBackend d)
  then show ?thesis using assms by (auto simp: queue_view_def redis_view_def lane_of_lists_def)
qed

lemma mset_drop_first:
  "(k, b) \<in> set xs \<Longrightarrow> (\<And>b'. (k, b') \<in> set xs \<Longrightarrow> b' = b) \<Longrightarrow> mset xs = add_mset (k, b) (mset (drop_first k xs))"
  by (induction xs) fastforce+

lemma mset_drop_last:
  assumes "(k, b) \<in> set xs" "\<And>b'. (k, b') \<in> set xs \<Longrightarrow> b' = b"
  shows "mset xs = add_mset (k, b) (mset (drop_last k xs))"
proof -
  have "mset (rev xs) = add_mset (k, b) (mset (drop_first k (rev xs)))"
    by (rule mset_drop_first) (use assms(1) in simp, rule assms(2), simp)
  then show ?thesis by (simp add: drop_last_def)
qed

lemma later_recover: "later (files s) (files (snd (queue_recover x q s)))"
  using later_on_files [OF forward_recover, of s] by (auto simp: queue_recover_def on_server_def split: backend.split prod.split)

section \<open>The invariant\<close>

text \<open>
  What is in progress is what the consumers hold, message for message, and every message that was
  published or there at the start (\<open>base\<close>) is waiting, held, failed or completed, exactly once.
\<close>

definition tracks :: "codec \<Rightarrow> receipt lane \<Rightarrow> delivery option list \<Rightarrow> bool" where
  "tracks c L hs \<longleftrightarrow>
     {#(fst e, id_of c (snd e)). e \<in># mset (running L)#} =
     {#(delivery_receipt d, Some (env_id (envelope d))). d \<in># deliveries hs#}"

definition lane_inv ::
  "'s queue_deps \<Rightarrow> ('s \<Rightarrow> string \<Rightarrow> bytes list) \<Rightarrow> ('s \<Rightarrow> bool) \<Rightarrow> backend \<Rightarrow> uuid multiset \<Rightarrow>
     delivery option list \<Rightarrow> uuid list \<Rightarrow> 's stores \<Rightarrow> bool" where
  "lane_inv x stored calm q base hs fin s \<longleftrightarrow>
     queue_inv x stored calm q s
     \<and> (\<forall>d \<in># deliveries hs. delivery_lane d = queue_lane_of q \<and> queue_receipt q (delivery_receipt d))
     \<and> tracks (json_codec x) (queue_view stored q s) hs
     \<and> base = ids_in (json_codec x) (waiting (queue_view stored q s)) + ids_held hs
         + ids_in (json_codec x) (dead (queue_view stored q s)) + mset fin"

lemma lane_invD:
  assumes "lane_inv x stored calm q base hs fin s"
  shows "queue_inv x stored calm q s"
    and "d \<in># deliveries hs \<Longrightarrow> delivery_lane d = queue_lane_of q"
    and "d \<in># deliveries hs \<Longrightarrow> queue_receipt q (delivery_receipt d)"
    and "tracks (json_codec x) (queue_view stored q s) hs"
    and "base = ids_in (json_codec x) (waiting (queue_view stored q s)) + ids_held hs
      + ids_in (json_codec x) (dead (queue_view stored q s)) + mset fin"
  using assms by (auto simp: lane_inv_def)

lemma tracks_running: "tracks c L hs \<Longrightarrow> running L' = running L \<Longrightarrow> tracks c L' hs"
  by (simp add: tracks_def)

lemma tracks_receipts: "tracks c L hs \<Longrightarrow> mset (map fst (running L)) = {#delivery_receipt d. d \<in># deliveries hs#}"
  unfolding tracks_def by (drule arg_cong [of _ _ "image_mset fst"]) (simp add: image_mset.compositionality comp_def)

lemma tracks_count: "tracks c L hs \<Longrightarrow> length (running L) = size (deliveries hs)"
  using arg_cong [OF tracks_receipts, of c L hs size] by simp

lemma tracks_held:
  assumes "tracks c L hs" "d \<in># deliveries hs"
  obtains b where "(delivery_receipt d, b) \<in> set (running L)" "id_of c b = Some (env_id (envelope d))"
proof -
  have "(delivery_receipt d, Some (env_id (envelope d))) \<in># {#(fst e, id_of c (snd e)). e \<in># mset (running L)#}"
    using assms unfolding tracks_def by auto
  then show thesis using that by auto
qed

lemma tracks_take:
  assumes "tracks c L hs" "i < length hs" "hs ! i = None" "waiting L = b # bs"
    and "id_of c b = Some (env_id (envelope d))" "delivery_receipt d = k"
  shows "tracks c (lane_take k L) (hs[i := Some d])"
  using assms by (simp add: tracks_def lane_take_def deliveries_claim)

lemma tracks_drop:
  assumes "tracks c L hs" "i < length hs" "hs ! i = Some d"
    and "\<And>k b b'. (k, b) \<in> set (running L) \<Longrightarrow> (k, b') \<in> set (running L) \<Longrightarrow> b = b'"
  shows "tracks c (lane_drop (delivery_receipt d) L) (hs[i := None])"
proof -
  obtain b where b: "(delivery_receipt d, b) \<in> set (running L)" "id_of c b = Some (env_id (envelope d))"
    using tracks_held [OF assms(1) held_in_deliveries [OF assms(2,3)]] .
  have "mset (running L) = add_mset (delivery_receipt d, b) (mset (drop_last (delivery_receipt d) (running L)))"
    by (rule mset_drop_last [OF b(1)]) (rule assms(4) [OF _ b(1)])
  then show ?thesis
    using assms(1) b(2) deliveries_settle [OF assms(2,3)] by (simp add: tracks_def lane_drop_def)
qed

lemma ids_held_claim:
  "i < length hs \<Longrightarrow> hs ! i = None \<Longrightarrow> ids_held (hs[i := Some d]) = add_mset (env_id (envelope d)) (ids_held hs)"
  by (simp add: ids_held_def deliveries_claim)

lemma ids_held_settle:
  "i < length hs \<Longrightarrow> hs ! i = Some d \<Longrightarrow> ids_held hs = add_mset (env_id (envelope d)) (ids_held (hs[i := None]))"
  by (simp add: ids_held_def deliveries_settle)

lemma ids_skip: "ids_in c (waiting (lane_skip c L)) = ids_in c (waiting L)"
    "ids_in c (dead (lane_skip c L)) = ids_in c (dead L)"
  by (simp_all add: lane_skip_def ids_in_drop ids_in_take)

lemma running_skip [simp]: "running (lane_skip c L) = running L"
  by (simp add: lane_skip_def)

section \<open>Each operation keeps it\<close>

lemma lane_inv_start:
  assumes "queue_inv x stored calm q s" "running (queue_view stored q s) = []" "deliveries hs = {#}"
  shows "lane_inv x stored calm q (ids_in (json_codec x) (waiting (queue_view stored q s))
    + ids_in (json_codec x) (dead (queue_view stored q s))) hs [] s"
  using assms by (simp add: lane_inv_def tracks_def ids_held_def)

lemma lane_inv_deliveries: "lane_inv x stored calm q base hs fin s \<Longrightarrow> deliveries hs' = deliveries hs \<Longrightarrow>
    lane_inv x stored calm q base hs' fin s"
  by (simp add: lane_inv_def tracks_def ids_held_def)

text \<open>What leaves the view of the lane and its invariant as they were keeps the account.\<close>

lemma lane_inv_same:
  assumes "lane_inv x stored calm q base hs fin s" "queue_inv x stored calm q s'"
    and "queue_view stored q s' = queue_view stored q s"
  shows "lane_inv x stored calm q base hs fin s'"
  using assms by (simp add: lane_inv_def)

lemma lane_inv_apart:
  assumes "lane_inv x stored calm q' base hs fin s" "apart q q'" "queue_inv x stored calm q s'" "changes_only stored q s s'"
  shows "lane_inv x stored calm q' base hs fin s'"
  by (rule lane_inv_same [OF assms(1)])
    (use apart_untouched [OF assms(2,3) lane_invD(1) [OF assms(1)] assms(4)] in auto)

lemma lane_publish_inv:
  assumes "codec_ok (json_codec x)" "lane_inv x stored calm q base hs fin s"
  shows "\<exists>s'. queue_publish x q env s = (Inr (), s') \<and> lane_inv x stored calm q (add_mset (env_id env) base) hs fin s'
    \<and> changes_only stored q s s'"
proof -
  note inv = lane_invD [OF assms(2)]
  obtain b where b: "queue_enc x q env = Inr b" "from_slice (json_codec x) b = Inr env"
    using codec_enc [OF assms(1)] .
  obtain s' where s': "queue_publish x q env s = (Inr (), s')" "queue_inv x stored calm q s'"
    "queue_view stored q s' = lane_publish b (queue_view stored q s)"
    using queue_publish_law [OF inv(1) b(1)] by blast
  have "changes_only stored q s s'" using publish_changes [OF inv(1), of env] s'(1) by simp
  moreover have "tracks (json_codec x) (queue_view stored q s') hs"
    by (rule tracks_running [OF inv(4)]) (simp add: s'(3) lane_publish_def)
  ultimately show ?thesis
    using s' inv id_of_readable [OF b(2)] by (simp add: lane_inv_def lane_publish_def)
qed

lemma lane_claim_inv:
  assumes "lane_inv x stored calm q base hs fin s" "queue_timely wait q s" "i < length hs" "hs ! i = None"
  shows "\<exists>r s'. queue_dequeue x q wait s = Some (Inr r, s') \<and> lane_inv x stored calm q base (hs[i := r]) fin s'
    \<and> changes_only stored q s s'"
proof -
  note inv = lane_invD [OF assms(1)]
  let ?L = "lane_skip (json_codec x) (queue_view stored q s)"
  show ?thesis
  proof (cases "waiting ?L")
    case Nil
    obtain s' where s': "queue_dequeue x q wait s = Some (Inr None, s')" "queue_inv x stored calm q s'"
      "queue_view stored q s' = ?L"
      using queue_dequeue_none [OF inv(1) assms(2) Nil] by blast
    moreover have "tracks (json_codec x) ?L hs" by (rule tracks_running [OF inv(4)]) simp
    moreover have "hs[i := None] = hs" using assms(3,4) by (metis list_update_id)
    ultimately show ?thesis
      using inv(2,3,5) dequeue_changes [OF inv(1) s'(1)] by (auto simp: lane_inv_def ids_skip)
  next
    case (Cons b bs)
    obtain env k s' where s': "from_slice (json_codec x) b = Inr env"
      "queue_dequeue x q wait s = Some (Inr (Some (new_delivery (count_attempt env) (queue_lane_of q) k)), s')"
      "queue_receipt q k" "queue_inv x stored calm q s'" "queue_view stored q s' = lane_take k ?L"
      using lane_of_queue.dequeue_claims [OF inv(1) assms(2) Cons] by metis
    let ?d = "new_delivery (count_attempt env) (queue_lane_of q) k"
    have d: "delivery_lane ?d = queue_lane_of q" "delivery_receipt ?d = k" "env_id (envelope ?d) = env_id env"
      by (simp_all add: new_delivery_def)
    have id: "id_of (json_codec x) b = Some (env_id env)" by (rule id_of_readable [OF s'(1)])
    have "tracks (json_codec x) (lane_take k ?L) (hs[i := Some ?d])"
      by (rule tracks_take [OF tracks_running [OF inv(4)] assms(3,4) Cons]) (use id d in simp_all)
    moreover have "base = ids_in (json_codec x) (waiting (lane_take k ?L)) + ids_held (hs[i := Some ?d])
        + ids_in (json_codec x) (dead (lane_take k ?L)) + mset fin"
      using inv(5) Cons id d ids_skip [of "json_codec x" "queue_view stored q s"] ids_held_claim [OF assms(3,4)]
      by (simp add: lane_take_def)
    ultimately show ?thesis
      using s' inv(2,3) d dequeue_changes [OF inv(1) s'(2)] deliveries_claim [OF assms(3,4)]
      by (auto simp: lane_inv_def)
  qed
qed

text \<open>A consumer always finds the message it settles: no settle is lost.\<close>

lemma lane_settle_inv:
  assumes "codec_ok (json_codec x)" "lane_inv x stored calm q base hs fin s" "i < length hs" "hs ! i = Some d"
  shows "\<exists>s'. settle x q d kind s = (Inr (outcome_of (for_attempt kind (envelope d))), s')
    \<and> lane_inv x stored calm q base (hs[i := None])
        (if for_attempt kind (envelope d) = Acknowledge then env_id (envelope d) # fin else fin) s'
    \<and> changes_only stored q s s'"
proof -
  note inv = lane_invD [OF assms(2)]
  let ?L = "queue_view stored q s" and ?a = "for_attempt kind (envelope d)"
  have mem: "d \<in># deliveries hs" using held_in_deliveries assms(3,4) by blast
  obtain b where "(delivery_receipt d, b) \<in> set (running ?L)" using tracks_held [OF inv(4) mem] .
  then have there: "delivery_receipt d \<in> receipts ?L" by (force simp: receipts_def)
  obtain b' where b': "queue_enc x q (settled_envelope ?a d) = Inr b'"
    "from_slice (json_codec x) b' = Inr (settled_envelope ?a d)"
    using codec_enc [OF assms(1)] .
  have id: "id_of (json_codec x) b' = Some (env_id (envelope d))"
    using id_of_readable [OF b'(2)] by (simp add: settled_envelope_def uncount_attempt_def)
  obtain s' where s': "settle x q d kind s = (Inr (outcome_of ?a), s')" "queue_inv x stored calm q s'"
    "queue_view stored q s' = lane_settle ?a b' (lane_drop (delivery_receipt d) ?L)"
    using settle_law [OF inv(1) inv(2,3) [OF mem] there b'(1)] by blast
  have "changes_only stored q s s'" using settle_changes [OF inv(1), of d kind] s'(1) by simp
  moreover have "tracks (json_codec x) (queue_view stored q s') (hs[i := None])"
    by (rule tracks_running [OF tracks_drop [OF inv(4) assms(3,4)]])
      (use same_receipt_same_bytes in \<open>auto simp: s'(3) lane_settle_def lane_put_def split: settle_action.split\<close>)
  moreover have "base = ids_in (json_codec x) (waiting (queue_view stored q s')) + ids_held (hs[i := None])
      + ids_in (json_codec x) (dead (queue_view stored q s'))
      + mset (if ?a = Acknowledge then env_id (envelope d) # fin else fin)"
    using inv(5) id ids_held_settle [OF assms(3,4)]
    by (cases ?a) (simp_all add: s'(3) lane_settle_def lane_put_def lane_drop_def)
  moreover have "e \<in># deliveries (hs[i := None]) \<Longrightarrow> e \<in># deliveries hs" for e
    using deliveries_settle [OF assms(3,4)] by simp
  ultimately show ?thesis using s'(1,2) inv(2,3) by (auto simp: lane_inv_def)
qed

lemma ids_running:
  assumes "tracks c L hs"
  shows "ids_in c (map snd (running L)) = ids_held hs"
proof -
  have ids: "ids_in c bs = image_mset the {#j \<in># image_mset (id_of c) (mset bs). j \<noteq> None#}" for bs
    by (induction bs) (auto simp: ids_in_def List.map_filter_def)
  have "image_mset (id_of c) (mset (map snd (running L))) = {#Some (env_id (envelope d)). d \<in># deliveries hs#}"
    using assms unfolding tracks_def
    by (drule_tac arg_cong [of _ _ "image_mset snd"]) (simp add: image_mset.compositionality comp_def)
  then show ?thesis
    by (simp add: ids ids_held_def filter_mset_image_mset image_mset.compositionality comp_def)
qed

lemma lane_recover_inv:
  assumes "lane_inv x stored calm q base hs fin s" "size (deliveries hs) \<le> usize_max" "deliveries hs' = {#}"
  shows "\<exists>n s'. queue_recover x q s = (Inr n, s') \<and> lane_inv x stored calm q base hs' fin s' \<and> changes_only stored q s s'"
proof -
  note inv = lane_invD [OF assms(1)]
  let ?L = "queue_view stored q s"
  have "length (running ?L) \<le> usize_max" using tracks_count [OF inv(4)] assms(2) by simp
  then obtain s' where s': "queue_recover x q s = (Inr (length (running ?L)), s')"
    "queue_inv x stored calm q s'" "queue_view stored q s' = lane_recover ?L"
    using queue_recover_law [OF inv(1)] by blast
  moreover have "changes_only stored q s s'" using recover_changes [OF inv(1)] s'(1) by simp
  ultimately show ?thesis
    using inv(5) ids_running [OF inv(4)] assms(3) by (simp add: lane_inv_def tracks_def ids_held_def lane_recover_def)
qed

section \<open>Each event keeps it\<close>

definition shared_inv ::
  "'s queue_deps \<Rightarrow> ('s \<Rightarrow> string \<Rightarrow> bytes list) \<Rightarrow> ('s \<Rightarrow> bool) \<Rightarrow> backend \<Rightarrow> uuid multiset \<Rightarrow> 's shared_lane \<Rightarrow> bool" where
  "shared_inv x stored calm q base v \<longleftrightarrow>
     lane_inv x stored calm q (base + mset (announced v)) (held v) (completed v) (lane_stores v)
     \<and> queue_timely 0 q (lane_stores v) \<and> length (held v) \<le> usize_max"

text \<open>A step keeps the invariant and the number of consumers, and stays within its queue.\<close>

definition shared_keeps ::
  "'s queue_deps \<Rightarrow> ('s \<Rightarrow> string \<Rightarrow> bytes list) \<Rightarrow> ('s \<Rightarrow> bool) \<Rightarrow> backend \<Rightarrow> uuid multiset \<Rightarrow>
     's shared_lane \<Rightarrow> 's shared_lane \<Rightarrow> bool" where
  "shared_keeps x stored calm q base v v' \<longleftrightarrow>
     shared_inv x stored calm q base v' \<and> length (held v') = length (held v)
     \<and> changes_only stored q (lane_stores v) (lane_stores v')"

lemma announces_inv:
  assumes "codec_ok (json_codec x)" "shared_inv x stored calm q base v"
  shows "\<exists>v'. shared_step x q (Announces env) v = Some v' \<and> shared_keeps x stored calm q base v v'"
proof -
  note inv = assms(2) [unfolded shared_inv_def]
  obtain s' where s': "queue_publish x q env (lane_stores v) = (Inr (), s')"
    "lane_inv x stored calm q (add_mset (env_id env) (base + mset (announced v))) (held v) (completed v) s'"
    "changes_only stored q (lane_stores v) s'"
    using lane_publish_inv [OF assms(1) inv [THEN conjunct1]] by blast
  have "queue_timely 0 q s'"
    by (rule timely_step) (use inv lane_invD(1) later_publish [of "lane_stores v" x q env] s'(1) in auto)
  then show ?thesis using s' inv by (simp add: shared_inv_def shared_keeps_def)
qed

lemma claims_inv:
  assumes "shared_inv x stored calm q base v"
  shows "\<exists>v'. shared_step x q (Claims i) v = Some v' \<and> shared_keeps x stored calm q base v v'"
proof (cases "i < length (held v) \<and> held v ! i = None")
  case idle: True
  note inv = assms [unfolded shared_inv_def]
  obtain r s' where s': "queue_dequeue x q 0 (lane_stores v) = Some (Inr r, s')"
    "lane_inv x stored calm q (base + mset (announced v)) ((held v)[i := r]) (completed v) s'"
    "changes_only stored q (lane_stores v) s'"
    using lane_claim_inv inv idle by blast
  have "queue_timely 0 q s'" using dequeue_timely [OF _ _ s'(1)] inv lane_invD(1) by blast
  moreover have "(held v)[i := None] = held v" using idle by (metis list_update_id)
  ultimately show ?thesis using s' inv idle by (cases r) (simp_all add: shared_inv_def shared_keeps_def)
next
  case False
  then show ?thesis using assms by (auto simp: shared_keeps_def)
qed

lemma settles_inv:
  assumes "codec_ok (json_codec x)" "shared_inv x stored calm q base v" "i < length (held v)" "held v ! i = Some d"
  shows "\<exists>s'. settle x q d kind (lane_stores v) = (Inr (outcome_of (for_attempt kind (envelope d))), s')
    \<and> shared_keeps x stored calm q base v (v\<lparr>lane_stores := s', held := (held v)[i := None],
        completed := (if for_attempt kind (envelope d) = Acknowledge then env_id (envelope d) # completed v else completed v)\<rparr>)"
proof -
  note inv = assms(2) [unfolded shared_inv_def]
  obtain s' where s': "settle x q d kind (lane_stores v) = (Inr (outcome_of (for_attempt kind (envelope d))), s')"
    "lane_inv x stored calm q (base + mset (announced v)) ((held v)[i := None])
      (if for_attempt kind (envelope d) = Acknowledge then env_id (envelope d) # completed v else completed v) s'"
    "changes_only stored q (lane_stores v) s'"
    using lane_settle_inv [OF assms(1) inv [THEN conjunct1] assms(3,4)] by blast
  have "queue_timely 0 q s'"
    by (rule timely_step) (use inv lane_invD(1) later_settle [of "lane_stores v" x q d kind] s'(1) in auto)
  then show ?thesis using s' inv by (simp add: shared_inv_def shared_keeps_def)
qed

lemma restarts_inv:
  assumes "shared_inv x stored calm q base v"
  shows "\<exists>v'. shared_step x q Restarts v = Some v' \<and> shared_keeps x stored calm q base v v'"
proof -
  note inv = assms [unfolded shared_inv_def]
  obtain n s' where s': "queue_recover x q (lane_stores v) = (Inr n, s')"
    "lane_inv x stored calm q (base + mset (announced v)) (replicate (length (held v)) None) (completed v) s'"
    "changes_only stored q (lane_stores v) s'"
    using lane_recover_inv [OF _ order.trans [OF size_deliveries]] inv deliveries_replicate by blast
  have "queue_timely 0 q s'"
    by (rule timely_step) (use inv lane_invD(1) later_recover [of "lane_stores v" x q] s'(1) in auto)
  then show ?thesis using s' inv by (simp add: shared_inv_def shared_keeps_def)
qed

lemma step_inv:
  assumes "codec_ok (json_codec x)" "shared_inv x stored calm q base v"
  shows "\<exists>v'. shared_step x q event v = Some v' \<and> shared_keeps x stored calm q base v v'"
proof (cases event)
  case (Settles i kind)
  show ?thesis
  proof (cases "if i < length (held v) then held v ! i else None")
    case None
    then show ?thesis using Settles assms(2) by (simp add: shared_keeps_def)
  next
    case (Some d)
    then have "i < length (held v)" "held v ! i = Some d" by (simp_all split: if_splits)
    from settles_inv [OF assms this, of kind] obtain s' where
      "settle x q d kind (lane_stores v) = (Inr (outcome_of (for_attempt kind (envelope d))), s')"
      "shared_keeps x stored calm q base v (v\<lparr>lane_stores := s', held := (held v)[i := None],
        completed := (if for_attempt kind (envelope d) = Acknowledge then env_id (envelope d) # completed v else completed v)\<rparr>)"
      by blast
    moreover have "outcome_of a = Acknowledged \<longleftrightarrow> a = Acknowledge" for a by (cases a) simp_all
    ultimately show ?thesis using Settles Some by (simp add: still_held_def)
  qed
qed (use announces_inv [OF assms] claims_inv [OF assms(2)] restarts_inv [OF assms(2)] in blast)+

lemma run_inv:
  assumes "codec_ok (json_codec x)" "shared_inv x stored calm q base v"
  shows "\<exists>v'. shared_run x q events v = Some v' \<and> shared_inv x stored calm q base v' \<and> length (held v') = length (held v)"
  using assms(2)
proof (induction events arbitrary: v)
  case (Cons event events)
  obtain v1 where v1: "shared_step x q event v = Some v1" "shared_inv x stored calm q base v1"
    "length (held v1) = length (held v)"
    using step_inv [OF assms(1) Cons.prems] by (auto simp: shared_keeps_def)
  from Cons.IH [OF v1(2)] obtain v' where "shared_run x q events v1 = Some v'"
    "shared_inv x stored calm q base v'" "length (held v') = length (held v1)"
    by blast
  then show ?case using v1 by simp
qed simp

lemma start_inv:
  assumes "queue_inv x stored calm q s" "queue_timely 0 q s" "running (queue_view stored q s) = []" "n \<le> usize_max"
  shows "shared_inv x stored calm q
    (ids_in (json_codec x) (waiting (queue_view stored q s)) + ids_in (json_codec x) (dead (queue_view stored q s)))
    (start_shared n s)"
  using lane_inv_start [OF assms(1,3), of "replicate n None"] assms(2,4)
  by (simp add: shared_inv_def start_shared_def)

text \<open>A run leaves a queue apart as it was.\<close>

lemma run_apart:
  assumes "codec_ok (json_codec x)" "shared_inv x stored calm q base v" "apart q q'" "queue_inv x stored calm q' (lane_stores v)"
    and "shared_run x q events v = Some v'"
  shows "queue_inv x stored calm q' (lane_stores v')
    \<and> queue_view stored q' (lane_stores v') = queue_view stored q' (lane_stores v)"
  using assms(2,4,5)
proof (induction events arbitrary: v)
  case (Cons event events)
  obtain v1 where v1: "shared_step x q event v = Some v1" "shared_inv x stored calm q base v1"
    "changes_only stored q (lane_stores v) (lane_stores v1)"
    using step_inv [OF assms(1) Cons.prems(1)] by (auto simp: shared_keeps_def)
  have "queue_inv x stored calm q (lane_stores v1)" using v1(2) by (auto simp: shared_inv_def dest: lane_invD(1))
  note same = apart_untouched [OF assms(3) this Cons.prems(2) v1(3)]
  show ?case using Cons.IH [OF v1(2) same(1)] Cons.prems(3) v1(1) same(2) by simp
qed simp

section \<open>Every order of events\<close>

text \<open>C5: From a start with nothing in progress and with no call on the queue that fails, however publishers, consumers of one lane and restarts of the server with a recovery follow each other, what is in progress is exactly what the consumers hold, and every readable message that was stored or published is, exactly once, waiting, held, failed or completed, on either driver.\<close>

theorem consumers_neither_lose_nor_double:
  assumes "codec_ok (json_codec x)" "queue_inv x stored calm q s" "queue_timely 0 q s"
    and "running (queue_view stored q s) = []" "n \<le> usize_max"
  shows "\<exists>v. shared_run x q events (start_shared n s) = Some v
    \<and> mset (map fst (running (queue_view stored q (lane_stores v)))) = {#delivery_receipt d. d \<in># deliveries (held v)#}
    \<and> ids_in (json_codec x) (waiting (queue_view stored q s)) + ids_in (json_codec x) (dead (queue_view stored q s))
        + mset (announced v) =
      ids_in (json_codec x) (waiting (queue_view stored q (lane_stores v))) + ids_held (held v)
        + ids_in (json_codec x) (dead (queue_view stored q (lane_stores v))) + mset (completed v)"
proof -
  obtain v where "shared_run x q events (start_shared n s) = Some v" "shared_inv x stored calm q
      (ids_in (json_codec x) (waiting (queue_view stored q s)) + ids_in (json_codec x) (dead (queue_view stored q s))) v"
    using run_inv [OF assms(1) start_inv [OF assms(2-5)]] by blast
  then show ?thesis using lane_invD(4,5) tracks_receipts by (fastforce simp: shared_inv_def)
qed

theorem consumers_neither_lose_nor_double_witness:
  "\<exists>v. shared_run sample_deps sample_file_queue
      [Announces (sample_envelope 5), Claims 0, Claims 1, Settles 0 KSucceeded, Restarts, Claims 1, Settles 1 KCommandFailed]
      (start_shared 2 (sample_stores (sample_to_vec (sample_envelope 3)))) = Some v
    \<and> mset (map fst (running (queue_view (\<lambda>s. s) sample_file_queue (lane_stores v)))) =
        {#delivery_receipt d. d \<in># deliveries (held v)#}
    \<and> {#7#} + mset (announced v) = ids_in sample_codec (waiting (queue_view (\<lambda>s. s) sample_file_queue (lane_stores v)))
        + ids_held (held v) + ids_in sample_codec (dead (queue_view (\<lambda>s. s) sample_file_queue (lane_stores v)))
        + mset (completed v)"
proof -
  let ?b = "sample_to_vec (sample_envelope 3)"
  note q = sample_queue_inv [of sample_file_queue ?b, simplified]
  have "from_slice sample_codec ?b = Inr (sample_envelope 3)"
    using sample_round_trip [of "sample_envelope 3" "[]"] by (simp add: sample_codec_def)
  moreover have "env_id (sample_envelope 3) = 7" by (simp add: sample_envelope_def)
  ultimately have id: "ids_in sample_codec [?b] = {#7#}" by (simp add: id_of_readable)
  have codec: "codec_ok (json_codec sample_deps)" using sample_codec_ok by simp
  have "running (queue_view (\<lambda>s. s) sample_file_queue (sample_stores ?b)) = []" unfolding q(2) by simp
  from consumers_neither_lose_nor_double [OF codec q(1,3) this, of 2
      "[Announces (sample_envelope 5), Claims 0, Claims 1, Settles 0 KSucceeded, Restarts, Claims 1, Settles 1 KCommandFailed]"]
  show ?thesis unfolding q(2) by (simp add: id usize_max_def)
qed

text \<open>C14: On a lane that started with nothing in progress and with no call on the queue that fails, a consumer that settles what it holds is never told that the message was lost, whatever the other consumers did before: its settle succeeds with the outcome of the policy table, on either driver.\<close>

theorem concurrent_settle_succeeds:
  assumes "codec_ok (json_codec x)" "queue_inv x stored calm q s" "queue_timely 0 q s"
    and "running (queue_view stored q s) = []" "n \<le> usize_max"
    and "shared_run x q events (start_shared n s) = Some v" "i < n" "held v ! i = Some d"
  shows "fst (settle x q d kind (lane_stores v)) = Inr (outcome_of (for_attempt kind (envelope d)))"
proof -
  obtain v' base where "shared_run x q events (start_shared n s) = Some v'" "shared_inv x stored calm q base v'"
    "length (held v') = n"
    using run_inv [OF assms(1) start_inv [OF assms(2-5)], of events] by (auto simp: start_shared_def)
  then show ?thesis using settles_inv [OF assms(1), of stored calm q base v i d kind] assms(6-8) by force
qed

theorem concurrent_settle_succeeds_witness:
  "\<exists>v d. shared_run sample_deps sample_redis_queue [Claims 0, Claims 1]
      (start_shared 2 (sample_stores (sample_to_vec (sample_envelope 3)))) = Some v \<and> held v ! 0 = Some d
    \<and> fst (settle sample_deps sample_redis_queue d KSucceeded (lane_stores v)) = Inr Acknowledged"
proof -
  let ?b = "sample_to_vec (sample_envelope 3)" and ?view = "queue_view (\<lambda>s. s) sample_redis_queue"
  note q = sample_queue_inv [of sample_redis_queue ?b, simplified]
  have codec: "codec_ok (json_codec sample_deps)" using sample_codec_ok by simp
  have slice: "from_slice (json_codec sample_deps) ?b = Inr (sample_envelope 3)"
    using sample_round_trip [of "sample_envelope 3" "[]"] by (simp add: sample_codec_def)
  then have skip: "lane_skip (json_codec sample_deps) (?view (sample_stores ?b)) = ?view (sample_stores ?b)"
    unfolding q(2) by (simp add: lane_skip_def unreadable_def)
  have head: "waiting (lane_skip (json_codec sample_deps) (?view (sample_stores ?b))) = [?b]"
    by (subst skip) (simp add: q(2))
  obtain k s1 where s1: "queue_dequeue sample_deps sample_redis_queue 0 (sample_stores ?b) =
      Some (Inr (Some (new_delivery (count_attempt (sample_envelope 3)) (queue_lane_of sample_redis_queue) k)), s1)"
    "queue_inv sample_deps (\<lambda>s. s) (\<lambda>_. True) sample_redis_queue s1" "?view s1 = lane_take k (?view (sample_stores ?b))"
    using queue_dequeue_some [OF q(1,3) head slice] skip by metis
  have "waiting (?view s1) = []" unfolding s1(3) q(2) by (simp add: lane_take_def)
  then obtain s2 where s2: "queue_dequeue sample_deps sample_redis_queue 0 s1 = Some (Inr None, s2)"
    using queue_dequeue_none [OF s1(2) dequeue_timely [OF q(1,3) s1(1)]] by (auto simp: lane_skip_def)
  have idle: "running (?view (sample_stores ?b)) = []" unfolding q(2) by simp
  define d where "d = new_delivery (count_attempt (sample_envelope 3)) (queue_lane_of sample_redis_queue) k"
  define v where "v = (start_shared 2 (sample_stores ?b))\<lparr>held := [Some d, None], lane_stores := s2\<rparr>"
  have "shared_run sample_deps sample_redis_queue [Claims 0, Claims 1] (start_shared 2 (sample_stores ?b)) = Some v"
    using s1(1) s2 by (simp add: start_shared_def numeral_2_eq_2 d_def v_def)
  moreover have "held v ! 0 = Some d" by (simp add: v_def)
  ultimately show ?thesis
    using concurrent_settle_succeeds [OF codec q(1,3) idle, of 2 "[Claims 0, Claims 1]" v 0 d KSucceeded]
    by (auto simp: usize_max_def)
qed

text \<open>C17: Whatever publishers, consumers and restarts do, in any order, on one lane of a queue that started with nothing in progress and with no call that fails, the other lane of the same queue keeps exactly its messages and its invariant, on either driver.\<close>

theorem lanes_are_isolated:
  assumes "codec_ok (json_codec x)" "queue_inv x stored calm (opened driver name base lane) s"
    and "queue_timely 0 (opened driver name base lane) s" "running (queue_view stored (opened driver name base lane) s) = []"
    and "n \<le> usize_max" "lane \<noteq> lane'" "queue_inv x stored calm (opened driver name base lane') s"
  shows "\<exists>v. shared_run x (opened driver name base lane) events (start_shared n s) = Some v
    \<and> queue_view stored (opened driver name base lane') (lane_stores v) = queue_view stored (opened driver name base lane') s
    \<and> queue_inv x stored calm (opened driver name base lane') (lane_stores v)"
proof -
  note start = start_inv [OF assms(2-5)]
  obtain v where v: "shared_run x (opened driver name base lane) events (start_shared n s) = Some v"
    using run_inv [OF assms(1) start] by blast
  show ?thesis
    using run_apart [OF assms(1) start opened_apart [OF assms(6)] _ v] assms(7) v by (simp add: start_shared_def)
qed

theorem lanes_are_isolated_witness:
  "\<exists>v. shared_run sample_deps (opened RedisDriver ''Q'' ''/q'' Primary)
      [Announces (sample_envelope 5), Claims 0, Claims 1, Settles 1 KUnrunnable, Restarts]
      (start_shared 2 \<lparr>files = sample_world [], server = (\<lambda>k. if k = ''Q:Secondary:Pending'' then [''x'', ''y''] else [])\<rparr>) = Some v
    \<and> waiting (queue_view (\<lambda>s. s) (opened RedisDriver ''Q'' ''/q'' Secondary) (lane_stores v)) = [''y'', ''x'']"
proof -
  let ?s = "\<lparr>files = sample_world [], server = (\<lambda>k. if k = ''Q:Secondary:Pending'' then [''x'', ''y''] else [])\<rparr>"
  have inv: "queue_inv sample_deps (\<lambda>s. s) (\<lambda>_. True) (opened RedisDriver ''Q'' ''/q'' lane) ?s" for lane
    using sample_redis_ok by (simp add: queue_inv_def opened_def redis_inv_def all_stages_def stage_key_def
      open_redis_def redis_stage_key_def)
  have view: "queue_view (\<lambda>s. s) (opened RedisDriver ''Q'' ''/q'' Primary) ?s = \<lparr>waiting = [], running = [], dead = []\<rparr>"
    "waiting (queue_view (\<lambda>s. s) (opened RedisDriver ''Q'' ''/q'' Secondary) ?s) = [''y'', ''x'']"
    by (simp_all add: queue_view_def opened_def redis_view_def lane_of_lists_def open_redis_def redis_stage_key_def
      map_receipts_def)
  have "queue_timely 0 (opened RedisDriver ''Q'' ''/q'' Primary) ?s" by (simp add: queue_timely_def opened_def)
  moreover have "running (queue_view (\<lambda>s. s) (opened RedisDriver ''Q'' ''/q'' Primary) ?s) = []" unfolding view(1) by simp
  moreover have "codec_ok (json_codec sample_deps)" using sample_codec_ok by simp
  ultimately show ?thesis
    using lanes_are_isolated [where lane = Primary and lane' = Secondary and n = 2
      and events = "[Announces (sample_envelope 5), Claims 0, Claims 1, Settles 1 KUnrunnable, Restarts]", OF _ inv _ _ _ _ inv] view(2)
    by (auto simp: usize_max_def)
qed

end
