(* ===== verification/SyncFault.thy ===== *)
theory SyncFault
  imports QueueProperties
begin

text \<open>
  A settle of the file queue whose last call fails: the sync of the target directory at the end of
  \<open>write_atomic\<close> (\<open>src/inengine-core/src/queue/driver/file/dir.rs\<close>), after the rename that makes the new
  message visible. \<open>move_claimed\<close> of \<open>store.rs\<close> then gives the claimed message its name back.
\<close>

section \<open>Calls that proceed although a later one fails\<close>

lemma syscall_proceeds:
  "script w = [] \<Longrightarrow> syscall_with g f (w\<lparr>script := ([], Proceed) # rest\<rparr>) =
     apsnd (script_update (\<lambda>_. rest)) (syscall_with g f w)"
  by (simp add: syscall_with_def run_call_def rivals_def split: prod.split)

lemma syscall_fails:
  "script w = [] \<Longrightarrow> syscall f (w\<lparr>script := [([], Fault e k)]\<rparr>) = (Inl e, w)"
  by (simp add: syscall_def syscall_with_def rivals_def Let_def)

lemma fs_proceeds:
  assumes "script w = []"
  shows "fs_rename p n q m (w\<lparr>script := ([], Proceed) # rest\<rparr>) = apsnd (script_update (\<lambda>_. rest)) (fs_rename p n q m w)"
    and "fs_create_new p n (w\<lparr>script := ([], Proceed) # rest\<rparr>) = apsnd (script_update (\<lambda>_. rest)) (fs_create_new p n w)"
    and "fs_write_all p n b (w\<lparr>script := ([], Proceed) # rest\<rparr>) = apsnd (script_update (\<lambda>_. rest)) (fs_write_all p n b w)"
    and "fs_sync_all (w\<lparr>script := ([], Proceed) # rest\<rparr>) = apsnd (script_update (\<lambda>_. rest)) (fs_sync_all w)"
    and "fs_open_dir p (w\<lparr>script := ([], Proceed) # rest\<rparr>) = apsnd (script_update (\<lambda>_. rest)) (fs_open_dir p w)"
  using assms by (simp_all add: fs_defs syscall_def syscall_proceeds)

lemma write_atomic_unsynced:
  assumes q: "script w = []" and p: "dirs w p \<noteq> None" and ok: "fs_ok (dirs w)"
    and temp: "node_at (dirs w) p (hidden_name n TEMP_SUFFIX) = None" and n: "\<not> is_hidden n"
    and isf: "\<And>y. node_at (dirs w) p n = Some y \<Longrightarrow> is_file y"
  obtains d' where "write_atomic p n b (w\<lparr>script := replicate 5 ([], Proceed) @ [([], Fault e k)]\<rparr>) = (Inl e, w\<lparr>dirs := d'\<rparr>)"
    "fs_ok d'" "\<And>q. d' q = None \<longleftrightarrow> dirs w q = None"
    "\<And>q m. node_at d' q m = (if q = p \<and> m = n then Some (RegFile b (clock w)) else node_at (dirs w) q m)"
proof -
  let ?t = "hidden_name n TEMP_SUFFIX"
  let ?d1 = "put_node p ?t (RegFile [] (clock w)) (dirs w)"
  let ?d2 = "write_prefix p ?t b (clock w) ?d1"
  let ?d3 = "put_node p n (RegFile b (clock w)) (drop_node p ?t ?d2)"
  let ?sc = "\<lambda>i. replicate i ([], Proceed) @ [([], Fault e k)]"
  have tn: "?t \<noteq> n" using not_hidden_neq_hidden [OF n] by (rule not_sym)
  have d2: "node_at ?d2 p ?t = Some (RegFile b (clock w))" "?d2 p \<noteq> None"
    using p by (auto simp: node_at_write_prefix)
  have file2: "is_file y" if "node_at ?d2 p n = Some y" for y
    using that isf tn by (simp add: node_at_write_prefix)
  have sc: "replicate 5 ([], Proceed) @ [([], Fault e k)] = ([], Proceed) # ?sc 4" "?sc 4 = ([], Proceed) # ?sc 3"
    "?sc 3 = ([], Proceed) # ?sc 2" "?sc 2 = ([], Proceed) # ?sc 1" "?sc 1 = ([], Proceed) # [([], Fault e k)]"
    by (simp_all add: numeral_eq_Suc)
  have c: "fs_create_new p ?t w = (Inr (), w\<lparr>dirs := ?d1\<rparr>)"
    using q p temp by (simp add: fs_defs call_defs syscall_quiet)
  have wr: "fs_write_all p ?t b (w\<lparr>dirs := ?d1\<rparr>) = (Inr (), w\<lparr>dirs := ?d2\<rparr>)"
    using q by (simp add: fs_defs call_defs syscall_with_quiet)
  have sy: "fs_sync_all (w\<lparr>dirs := d\<rparr>) = (Inr (), w\<lparr>dirs := d\<rparr>)" for d
    using q by (simp add: fs_defs call_defs syscall_quiet)
  have rn: "fs_rename p ?t p n (w\<lparr>dirs := ?d2\<rparr>) = (Inr (), w\<lparr>dirs := ?d3\<rparr>)"
    using q d2 file2 fs_rename_quiet [of "w\<lparr>dirs := ?d2\<rparr>" p ?t b "clock w" p n] by simp
  have od: "fs_open_dir p (w\<lparr>dirs := ?d3\<rparr>) = (Inr (), w\<lparr>dirs := ?d3\<rparr>)"
    using q p by (simp add: fs_defs call_defs syscall_quiet)
  have steps: "fs_create_new p ?t (w\<lparr>script := ?sc 5\<rparr>) = (Inr (), w\<lparr>dirs := ?d1, script := ?sc 4\<rparr>)"
    "fs_write_all p ?t b (w\<lparr>dirs := ?d1, script := ?sc 4\<rparr>) = (Inr (), w\<lparr>dirs := ?d2, script := ?sc 3\<rparr>)"
    "fs_sync_all (w\<lparr>dirs := ?d2, script := ?sc 3\<rparr>) = (Inr (), w\<lparr>dirs := ?d2, script := ?sc 2\<rparr>)"
    "fs_rename p ?t p n (w\<lparr>dirs := ?d2, script := ?sc 2\<rparr>) = (Inr (), w\<lparr>dirs := ?d3, script := ?sc 1\<rparr>)"
    "fs_open_dir p (w\<lparr>dirs := ?d3, script := ?sc 1\<rparr>) = (Inr (), w\<lparr>dirs := ?d3, script := [([], Fault e k)]\<rparr>)"
    unfolding sc by (simp_all add: fs_proceeds q c wr sy rn od)
  have "fs_sync_all (w\<lparr>dirs := ?d3, script := [([], Fault e k)]\<rparr>) = (Inl e, w\<lparr>dirs := ?d3\<rparr>)"
    using q by (simp add: fs_sync_all_def syscall_fails)
  then have "write_atomic p n b (w\<lparr>script := ?sc 5\<rparr>) = (Inl e, w\<lparr>dirs := ?d3\<rparr>)"
    by (simp only: write_atomic_def Let_def bindE_def catchE_def steps prod.case sum.case)
  moreover have "fs_ok ?d3" using ok by simp
  moreover have "?d3 q = None \<longleftrightarrow> dirs w q = None" for q by simp
  moreover have "node_at ?d3 q m = (if q = p \<and> m = n then Some (RegFile b (clock w)) else node_at (dirs w) q m)" for q m
    using p temp tn by (auto simp: node_at_write_prefix)
  ultimately show thesis by (rule that)
qed

section \<open>The settle and the one after it\<close>

text \<open>The new message is in place, and the claimed one has its name back.\<close>

lemma move_unsynced:
  assumes inv: "file_inv st w" and there: "k \<in> receipts (file_view st w)"
    and enc: "to_vec_pretty c env = Inr b" and t: "t \<noteq> InProgress"
  shows "\<exists>w'. store_move_claimed c st k env t (w\<lparr>script := replicate 6 ([], Proceed) @ [([], Fault e j)]\<rparr>) =
      (Inl (QueueIo e), w')
    \<and> file_inv st w' \<and> file_view st w' = lane_put t b (file_view st w)"
proof -
  have base: "file_base st w" using inv by (simp add: file_inv_iff)
  have "k \<in> files_of (stage_vis st w InProgress)" using there by (simp add: file_receipts)
  then obtain x y where x: "stage_vis st w InProgress k = Some (RegFile x y)" using view_of_in [OF base] by blast
  let ?ip = "stage_dir st InProgress" and ?tp = "stage_dir st t" and ?n = "next_name w"
  let ?d1 = "put_node ?ip (settling_name k) (RegFile x y) (drop_node ?ip k (dirs w))"
  let ?w1 = "w\<lparr>dirs := ?d1\<rparr>" and ?sc = "\<lambda>i. replicate i ([], Proceed) @ [([], Fault e j)]"
  note node = base_vis [OF base x]
  have q: "script w = []" by (rule base_quiet [OF base])
  have ne: "?tp \<noteq> ?ip" using t stage_dir_inject [OF base] by simp
  have nh: "\<not> is_hidden ?n" using next_name_props(2) [OF base] .
  have sc: "?sc 6 = ([], Proceed) # ?sc 5" by (simp add: numeral_eq_Suc)
  have "fs_rename ?ip k ?ip (settling_name k) w = (Inr (), ?w1)"
    using base_stage [OF base, of InProgress]
    by (intro fs_rename_quiet [OF q node(1) base_dir [OF base]]) (simp add: stage_ok_def)
  then have r: "rename_if_present ?ip k ?ip (settling_name k) (w\<lparr>script := ?sc 6\<rparr>) = (Inr True, ?w1\<lparr>script := ?sc 5\<rparr>)"
    unfolding sc by (simp add: rename_if_present_def catchE_def fs_proceeds [OF q] retE_def)
  have "script (bump ?w1) = []" "dirs (bump ?w1) ?tp \<noteq> None" "fs_ok (dirs (bump ?w1))"
    "node_at (dirs (bump ?w1)) ?tp (hidden_name ?n TEMP_SUFFIX) = None"
    using q base_dir [OF base, of t] base_fs_ok [OF base] base_stage [OF base, of t] ne
    by (simp_all add: stage_ok_def next_name_def)
  moreover have "is_file z" if "node_at (dirs (bump ?w1)) ?tp ?n = Some z" for z
    using that ne base_node(1) [OF base _ nh, of t] by simp
  ultimately obtain d2 where d2: "write_atomic ?tp ?n b ((bump ?w1)\<lparr>script := ?sc 5\<rparr>) = (Inl e, (bump ?w1)\<lparr>dirs := d2\<rparr>)"
    "fs_ok d2" "\<And>q. d2 q = None \<longleftrightarrow> dirs (bump ?w1) q = None"
    "\<And>q m. node_at d2 q m = (if q = ?tp \<and> m = ?n then Some (RegFile b (clock (bump ?w1)))
       else node_at (dirs (bump ?w1)) q m)"
    using write_atomic_unsynced [of "bump ?w1" ?tp ?n b e j] nh by blast
  define d3 where "d3 = put_node ?ip k (RegFile x y) (drop_node ?ip (settling_name k) d2)"
  let ?w3 = "(bump w)\<lparr>dirs := d3\<rparr>"
  have w2: "(bump ?w1)\<lparr>dirs := d\<rparr> = (bump w)\<lparr>dirs := d\<rparr>" for d by (simp add: bump_def)
  have restored: "fs_rename ?ip (settling_name k) ?ip k ((bump w)\<lparr>dirs := d2\<rparr>) = (Inr (), ?w3)"
    using q ne d2(4) [of ?ip "settling_name k"] d2(4) [of ?ip k] d2(3) [of ?ip] base_dir [OF base, of InProgress] node(2)
    by (subst fs_rename_quiet [of _ _ _ x y]) (auto simp: d3_def)
  have nn: "next_name (?w1\<lparr>script := ?sc 5\<rparr>) = ?n" "bump (?w1\<lparr>script := ?sc 5\<rparr>) = (bump ?w1)\<lparr>script := ?sc 5\<rparr>"
    by (simp_all add: next_name_def bump_def)
  have run: "store_move_claimed c st k env t (w\<lparr>script := ?sc 6\<rparr>) = (Inl (QueueIo e), ?w3)"
    using r d2(1) restored
    by (simp add: store_move_claimed_def store_write_moved_def Let_def bindE_def catchE_def map_errE_def failE_def
      serialize_Inr [OF enc] retE_def stage_dir_simps(2) nn w2)
  have node3: "node_at d3 q m = (if q = ?tp \<and> m = ?n then Some (RegFile b (clock w)) else node_at (dirs w) q m)" for q m
    using d2(3) [of ?ip] d2(4) [of q m] ne base_stage [OF base, of InProgress] base_dir [OF base, of InProgress] node(1,2)
    by (auto simp: stage_ok_def d3_def)
  have d3: "fs_ok d3" "d3 q = None \<longleftrightarrow> dirs w q = None" for q
    using d2(2,3) by (simp_all add: d3_def)
  have base3: "file_base st ?w3"
    using base_bump [OF base] d3 nh by (intro base_change) (auto simp: node3 split: if_splits)
  have vis3: "stage_vis st ?w3 = (stage_vis st w)(t := (stage_vis st w t)(?n \<mapsto> RegFile b (clock w)))"
    using nh stage_dir_inject [OF base] by (auto simp: stage_vis_def vis_def node3 fun_eq_iff)
  have first3: "claimed_first (stage_vis st ?w3)"
    using inv t base_vis(4) [OF base] unfolding file_inv_iff claimed_first_def vis3
    by (cases t) (auto simp: files_of_upd base_files [OF base])
  have "file_view st ?w3 = lane_put t b (file_view st w)"
    unfolding file_view_def vis3
    using lane_of_put [OF t, of "stage_vis st w" ?n b "clock w" "stage_vis st w InProgress"] view_of_new [OF base, of t b]
    by simp
  then show ?thesis using run base3 first3 by (simp add: file_inv_iff)
qed

text \<open>C40: When the last call of a settle that moves a claimed message of the file queue fails, which is the sync of the target directory, the settle is reported as interrupted although the new message is already in its stage, and the claimed message is in progress again. The settle that the server then tries moves it once more, so that the message lies in the target stage twice.\<close>

theorem failed_directory_sync_leaves_two_copies:
  assumes "codec_ok (json_codec x)" "queue_inv x stored calm (FileBackend st) s"
    and "delivery_lane d = store_lane st" "queue_receipt (FileBackend st) (delivery_receipt d)"
    and "delivery_receipt d \<in> receipts (queue_view stored (FileBackend st) s)"
    and "for_attempt kind (envelope d) \<in> {Retry, MoveToFailed}"
  shows "\<exists>s1 s2 b. from_slice (json_codec x) b = Inr (envelope d)
    \<and> settle x (FileBackend st) d kind (s\<lparr>files := (files s)\<lparr>script := replicate 6 ([], Proceed) @ [([], Fault error k)]\<rparr>\<rparr>) =
        (Inl (SettleInterrupted d (QueueIo error)), s1)
    \<and> queue_view stored (FileBackend st) s1 =
        lane_settle (for_attempt kind (envelope d)) b (queue_view stored (FileBackend st) s)
    \<and> settle x (FileBackend st) d kind s1 = (Inr (outcome_of (for_attempt kind (envelope d))), s2)
    \<and> queue_view stored (FileBackend st) s2 =
        lane_settle (for_attempt kind (envelope d)) b (lane_settle (for_attempt kind (envelope d)) b
          (lane_drop (delivery_receipt d) (queue_view stored (FileBackend st) s)))"
proof -
  let ?q = "FileBackend st" and ?a = "for_attempt kind (envelope d)"
  obtain b where b: "queue_enc x ?q (envelope d) = Inr b" "from_slice (json_codec x) b = Inr (envelope d)"
    using codec_enc [OF assms(1)] .
  obtain n where n: "delivery_receipt d = FileReceipt n" using assms(4) by (cases "delivery_receipt d") simp_all
  define t where "t = (if ?a = Retry then Pending else FailedStage)"
  have ready: "t \<noteq> InProgress" "file_inv st (files s)" "to_vec_pretty (json_codec x) (envelope d) = Inr b"
    using assms(2) b(1) by (simp_all add: t_def queue_inv_def queue_enc_def)
  let ?w = "(files s)\<lparr>script := replicate 6 ([], Proceed) @ [([], Fault error k)]\<rparr>"
  have "n \<in> receipts (file_view st (files s))"
    using assms(5) by (force simp: n queue_view_def map_receipts_def receipts_def)
  then obtain w' where w': "store_move_claimed (json_codec x) st n (envelope d) t ?w = (Inl (QueueIo error), w')"
    "file_inv st w'" "file_view st w' = lane_put t b (file_view st (files s))"
    using move_unsynced [OF ready(2) _ ready(3,1)] by blast
  let ?s1 = "s\<lparr>files := w'\<rparr>"
  have first: "settle x ?q d kind (s\<lparr>files := ?w\<rparr>) = (Inl (SettleInterrupted d (QueueIo error)), ?s1)"
    using assms(3,6) w'(1)
    by (auto simp: settle_def queue_retry_def queue_move_to_failed_def queue_move_claimed_def n owns_def on_files_def
        file_move_claimed_def call_store_def pool_returns t_def split: if_splits)
  have view1: "queue_view stored ?q ?s1 = lane_settle ?a b (queue_view stored ?q s)"
    using assms(6) w'(3) by (auto simp: queue_view_def lane_settle_def lane_put_def map_receipts_def t_def)
  have there: "delivery_receipt d \<in> receipts (queue_view stored ?q ?s1)"
    using assms(5,6) unfolding view1 by (auto simp: lane_settle_def lane_put_def receipts_def)
  have inv1: "queue_inv x stored calm ?q ?s1" using w'(2) by (simp add: queue_inv_def)
  have own: "delivery_lane d = queue_lane_of ?q" using assms(3) by simp
  have "settled_envelope ?a d = envelope d" using assms(6) by (auto simp: settled_envelope_def)
  then obtain s2 where s2: "settle x ?q d kind ?s1 = (Inr (outcome_of ?a), s2)"
    "queue_view stored ?q s2 = lane_settle ?a b (lane_drop (delivery_receipt d) (queue_view stored ?q ?s1))"
    using settle_law [OF inv1 own assms(4) there, of kind b] b(1) by auto
  have "lane_drop (delivery_receipt d) (lane_settle ?a b L) = lane_settle ?a b (lane_drop (delivery_receipt d) L)" for L
    using assms(6) by (auto simp: lane_settle_def lane_put_def lane_drop_def)
  then show ?thesis using b(2) first view1 s2 by metis
qed

text \<open>The claimed message of \<open>claimed_world\<close>, as the view of a queue.\<close>

lemma claimed_vis:
  "stage_vis sample_store (claimed_world []) s = (if s = InProgress then [''a'' \<mapsto> RegFile ''old'' 0] else Map.empty)"
  by (cases s) (auto simp: stage_vis_def vis_def node_at_def claimed_world_def stage_dir_def sample_store_def
      is_hidden_def fun_eq_iff)

lemma claimed_base: "file_base sample_store (claimed_world [])"
proof -
  have "stage_ok (claimed_world []) (stage_dir sample_store s)" for s
    by (cases s) (auto simp: stage_ok_def node_at_def claimed_world_def next_name_def stage_dir_def sample_store_def is_hidden_def
        hidden_name_def settling_name_def TEMP_SUFFIX_def SETTLING_SUFFIX_def sample_world_def sample_uuids_def)
  then show ?thesis
    using sample_uuid_supply
    by (auto simp: file_base_def fs_ok_def claimed_world_def sample_world_def all_stages_def stage_dir_def sample_store_def
        split: if_splits)
qed

lemma claimed_queue:
  "queue_inv sample_deps (\<lambda>s. s) (\<lambda>_. True) sample_file_queue \<lparr>files = claimed_world [], server = m\<rparr>"
  "queue_view (\<lambda>s. s) sample_file_queue \<lparr>files = claimed_world [], server = m\<rparr> =
     \<lparr>waiting = [], running = [(FileReceipt ''a'', ''old'')], dead = []\<rparr>"
proof -
  have "file_inv sample_store (claimed_world [])"
    using claimed_base by (simp add: file_inv_iff claimed_first_def claimed_vis files_of_def)
  then show "queue_inv sample_deps (\<lambda>s. s) (\<lambda>_. True) sample_file_queue \<lparr>files = claimed_world [], server = m\<rparr>"
    by (simp add: queue_inv_def sample_file_queue_def)
  show "queue_view (\<lambda>s. s) sample_file_queue \<lparr>files = claimed_world [], server = m\<rparr> =
     \<lparr>waiting = [], running = [(FileReceipt ''a'', ''old'')], dead = []\<rparr>"
    by (simp add: queue_view_def sample_file_queue_def file_view_def lane_of_def claimed_vis view_of_single map_receipts_def)
qed

theorem failed_directory_sync_leaves_two_copies_witness:
  "\<exists>d s1 s2 b. sample_from_slice b = Inr (count_attempt (sample_envelope 0))
    \<and> settle sample_deps sample_file_queue d KCommandFailed
        \<lparr>files = claimed_world (replicate 6 ([], Proceed) @ [([], Fault (io_other ''input/output error'') 0)]), server = sample_lists []\<rparr> =
        (Inl (SettleInterrupted d (QueueIo (io_other ''input/output error''))), s1)
    \<and> settle sample_deps sample_file_queue d KCommandFailed s1 = (Inr MovedToFailed, s2)
    \<and> dead (queue_view (\<lambda>s. s) sample_file_queue s2) = [b, b]"
proof -
  let ?d = "new_delivery (count_attempt (sample_envelope 0)) Primary (FileReceipt ''a'')" and ?error = "io_other ''input/output error''"
  let ?s = "\<lparr>files = claimed_world [], server = sample_lists []\<rparr>"
  have moves: "for_attempt KCommandFailed (envelope ?d) = MoveToFailed"
    by (simp add: new_delivery_def sample_envelope_def count_attempt_def has_retries_left_def)
  have codec: "codec_ok (json_codec sample_deps)" using sample_codec_ok by simp
  have "\<exists>s1 s2 b. from_slice (json_codec sample_deps) b = Inr (envelope ?d)
    \<and> settle sample_deps sample_file_queue ?d KCommandFailed
        (?s\<lparr>files := (files ?s)\<lparr>script := replicate 6 ([], Proceed) @ [([], Fault ?error 0)]\<rparr>\<rparr>) =
        (Inl (SettleInterrupted ?d (QueueIo ?error)), s1)
    \<and> settle sample_deps sample_file_queue ?d KCommandFailed s1 = (Inr MovedToFailed, s2)
    \<and> dead (queue_view (\<lambda>s. s) sample_file_queue s2) = [b, b]"
    using failed_directory_sync_leaves_two_copies [where st = sample_store and s = ?s and d = ?d and kind = KCommandFailed
        and error = ?error and k = 0, OF codec claimed_queue(1) [unfolded sample_file_queue_def]]
      claimed_queue(2) [where m = "sample_lists []"] moves
    by (auto simp: sample_file_queue_def new_delivery_def sample_store_def is_hidden_def receipts_def lane_settle_def lane_put_def
        lane_drop_def)
  then show ?thesis
    by (intro exI [of _ ?d]) (simp add: new_delivery_def claimed_world_def sample_codec_def)
qed

end
