(* ===== verification/Pipe.thy ===== *)
theory Pipe
  imports Errors Utf8
begin

text \<open>
  The kept output of a child process (\<open>src/inengine-core/src/commands/exec/pipe.rs\<close>): a buffer that
  keeps the head and the tail of a stream and counts what it drops between them, and the reader
  thread that fills it. The mutex makes each \<open>push\<close> and \<open>take\<close> one step, so a thread and its reader
  are a sequence of steps on the shared buffer.
\<close>

section \<open>The kept output\<close>

definition KEPT_HEAD_BYTES :: nat where
  "KEPT_HEAD_BYTES = 512 * 1024"

definition KEPT_TAIL_BYTES :: nat where
  "KEPT_TAIL_BYTES = 512 * 1024"

record kept_output =
  kept_head :: bytes
  kept_dropped :: u64
  kept_tail :: bytes

definition default_kept_output :: kept_output where
  "default_kept_output = \<lparr>kept_head = [], kept_dropped = 0, kept_tail = []\<rparr>"

text \<open>\<open>String::from_utf8\<close>, and the lossy conversion where it fails.\<close>

definition into_string :: "bytes \<Rightarrow> string" where
  "into_string b = (if utf8_valid b then b else from_utf8_lossy b)"

definition into_text :: "kept_output \<Rightarrow> string" where
  "into_text k =
     (if kept_dropped k = 0 then into_string (kept_head k @ kept_tail k)
      else let text = into_string (kept_head k);
               text = (if text \<noteq> [] \<and> \<not> ends_with text [newline] then text @ [newline] else text)
           in text @ ''['' @ show_nat (unat (kept_dropped k)) @ '' bytes not kept]'' @ [newline]
              @ into_string (kept_tail k))"

section \<open>The stream buffer\<close>

record stream_buffer =
  head_limit :: nat
  tail_limit :: nat
  sb_head :: bytes
  sb_tail :: bytes
  sb_dropped :: u64
  sb_taken :: bool

definition new_stream_buffer :: "nat \<Rightarrow> nat \<Rightarrow> stream_buffer" where
  "new_stream_buffer h t =
     \<lparr>head_limit = h, tail_limit = t, sb_head = [], sb_tail = [], sb_dropped = 0, sb_taken = False\<rparr>"

definition push :: "bytes \<Rightarrow> stream_buffer \<Rightarrow> stream_buffer" where
  "push b s =
     (if sb_taken s then s
      else let room = head_limit s - length (sb_head s);
               at = min room (length b);
               tail = sb_tail s @ drop at b;
               excess = length tail - tail_limit s
           in s\<lparr>sb_head := sb_head s @ take at b, sb_tail := drop excess tail,
                sb_dropped := sb_dropped s + of_nat excess\<rparr>)"

definition take_kept :: "stream_buffer \<Rightarrow> kept_output \<times> stream_buffer" where
  "take_kept s =
     (\<lparr>kept_head = sb_head s, kept_dropped = sb_dropped s, kept_tail = sb_tail s\<rparr>,
      s\<lparr>sb_taken := True, sb_head := [], sb_tail := []\<rparr>)"

section \<open>The reader thread\<close>

text \<open>What \<open>read\<close> on the pipe returns: the bytes of a chunk, none at the end, or an error.\<close>

type_synonym pipe_read = "io_error + bytes"

definition CHUNK :: nat where
  "CHUNK = 8192"

text \<open>
  The thread's loop over the results of its reads. It ends with a message to the channel at the
  end of the pipe or at an error other than an interrupted call; \<open>None\<close> means it still waits for
  the next read.
\<close>

fun read_loop :: "pipe_read list \<Rightarrow> stream_buffer \<Rightarrow> (io_error + unit) option \<times> stream_buffer" where
  "read_loop [] s = (None, s)"
| "read_loop (Inr chunk # reads) s =
     (if chunk = [] then (Some (Inr ()), s) else read_loop reads (push chunk s))"
| "read_loop (Inl error # reads) s =
     (if io_kind error = InterruptedCall then read_loop reads s else (Some (Inl error), s))"

text \<open>\<open>try_recv\<close> on the channel of a thread.\<close>

datatype received = Received "io_error + unit" | Empty | Disconnected

definition poll_reader :: "received \<Rightarrow> bool \<Rightarrow> (io_error + bool) \<times> bool" where
  "poll_reader channel done =
     (if done then (Inr True, done)
      else case channel of
          Received (Inr _) \<Rightarrow> (Inr True, True)
        | Received (Inl error) \<Rightarrow> (Inl error, done)
        | Empty \<Rightarrow> (Inr False, done)
        | Disconnected \<Rightarrow> (Inl (io_other ''the reader thread stopped''), done))"

section \<open>What is kept\<close>

text \<open>The specification: the first \<open>h\<close> bytes, the last \<open>t\<close> of the rest, and the count between.\<close>

definition kept_of :: "nat \<Rightarrow> nat \<Rightarrow> bytes \<Rightarrow> kept_output" where
  "kept_of h t b =
     \<lparr>kept_head = take h b, kept_dropped = of_nat (length b - h - t),
      kept_tail = drop (length b - h - t) (drop h b)\<rparr>"

definition buffer_of :: "nat \<Rightarrow> nat \<Rightarrow> bytes \<Rightarrow> stream_buffer" where
  "buffer_of h t b =
     \<lparr>head_limit = h, tail_limit = t, sb_head = kept_head (kept_of h t b),
      sb_tail = kept_tail (kept_of h t b), sb_dropped = kept_dropped (kept_of h t b), sb_taken = False\<rparr>"

lemma push_buffer_of: "push c (buffer_of h t b) = buffer_of h t (b @ c)"
proof -
  let ?r = "min (h - length (take h b)) (length c)"
  let ?tail = "drop (length b - h - t) (drop h b) @ drop ?r c"
  let ?k = "length b - h - t" and ?R = "drop h (b @ c)"
  have head: "take h b @ take ?r c = take h (b @ c)" by (simp add: min_def)
  have "drop h b @ drop ?r c = ?R" by (simp add: min_def)
  then have whole: "?tail = drop ?k ?R" by (metis drop_append diff_is_0_eq diff_le_self drop_0 length_drop)
  have arith: "?k + (length ?R - ?k - t) = length (b @ c) - h - t" by simp
  have gen: "drop (length (drop k xs) - t) (drop k xs) = drop (k + (length xs - k - t)) xs" for k and xs :: bytes
    by (simp add: add.commute)
  have tail: "drop (length ?tail - t) ?tail = drop (length (b @ c) - h - t) ?R"
    unfolding whole gen arith ..
  have dropped: "?k + (length ?tail - t) = length (b @ c) - h - t"
    unfolding whole using arith by (simp only: length_drop)
  have "push c (buffer_of h t b) = (buffer_of h t b)\<lparr>sb_head := take h b @ take ?r c,
      sb_tail := drop (length ?tail - t) ?tail,
      sb_dropped := of_nat (length b - h - t) + of_nat (length ?tail - t)\<rparr>"
    by (simp only: push_def buffer_of_def kept_of_def Let_def stream_buffer.simps kept_output.simps if_False)
  also have "\<dots> = buffer_of h t (b @ c)"
    unfolding head tail of_nat_add [symmetric] dropped
    by (simp only: buffer_of_def kept_of_def stream_buffer.simps kept_output.simps)
  finally show ?thesis .
qed

lemma push_all: "fold push cs (buffer_of h t b) = buffer_of h t (b @ concat cs)"
  by (induction cs arbitrary: b) (simp_all add: push_buffer_of)

lemma new_buffer_of: "new_stream_buffer h t = buffer_of h t []"
  by (simp add: new_stream_buffer_def buffer_of_def kept_of_def)

lemma take_buffer_of: "fst (take_kept (buffer_of h t b)) = kept_of h t b"
  by (simp add: take_kept_def buffer_of_def)

text \<open>The bytes that a sequence of reads delivers before the thread ends.\<close>

fun delivered :: "pipe_read list \<Rightarrow> bytes" where
  "delivered [] = []"
| "delivered (Inr chunk # reads) = (if chunk = [] then [] else chunk @ delivered reads)"
| "delivered (Inl error # reads) = (if io_kind error = InterruptedCall then delivered reads else [])"

lemma read_loop_buffer: "snd (read_loop reads (buffer_of h t b)) = buffer_of h t (b @ delivered reads)"
  by (induction reads arbitrary: b rule: delivered.induct) (simp_all add: push_buffer_of)

lemma push_taken: "sb_taken s \<Longrightarrow> push b s = s"
  by (simp add: push_def)

lemma read_loop_taken: "sb_taken s \<Longrightarrow> snd (read_loop reads s) = s"
  by (induction reads s rule: read_loop.induct) (simp_all add: push_taken)

text \<open>What is kept fits into the two limits, and nothing is lost from a short stream.\<close>

lemma kept_of_bounds:
  "length (kept_head (kept_of h t b)) \<le> h" "length (kept_tail (kept_of h t b)) \<le> t"
  by (auto simp: kept_of_def)

lemma kept_of_short:
  "length b \<le> h + t \<Longrightarrow> kept_head (kept_of h t b) @ kept_tail (kept_of h t b) = b \<and> kept_dropped (kept_of h t b) = 0"
  by (simp add: kept_of_def)

lemma into_string_lossy: "into_string b = from_utf8_lossy b"
  by (simp add: into_string_def from_utf8_lossy_valid)

lemma kept_of_text:
  assumes "length b < 2 ^ 64"
  shows "into_text (kept_of h t b) =
    (if length b \<le> h + t then from_utf8_lossy b
     else let text = from_utf8_lossy (take h b)
          in text @ (if text \<noteq> [] \<and> last text \<noteq> newline then [newline] else [])
             @ ''['' @ show_nat (length b - h - t) @ '' bytes not kept]'' @ [newline]
             @ from_utf8_lossy (drop (length b - t) b))"
proof (cases "length b \<le> h + t")
  case True
  then show ?thesis using kept_of_short [OF True] by (simp add: into_text_def into_string_lossy)
next
  case False
  have u: "unat (of_nat (length b - h - t) :: u64) = length b - h - t"
    using assms by (simp add: unat_of_nat take_bit_nat_eq_self)
  then have "(of_nat (length b - h - t) :: u64) \<noteq> 0" using False by (metis add.commute diff_diff_left diff_is_0_eq unat_0)
  moreover have "length b - h - t + h = length b - t" using False by simp
  moreover have "ends_with s [newline] \<longleftrightarrow> s \<noteq> [] \<and> last s = newline" for s
    by (cases s rule: rev_cases) (auto simp: ends_with_def)
  ultimately show ?thesis
    using False u by (auto simp: into_text_def into_string_lossy kept_of_def Let_def)
qed

end
