(* ===== verification/Exec.thy ===== *)
theory Exec
  imports Commands Pipe
begin

text \<open>
  The \<open>exec\<close> command (\<open>src/inengine-core/src/commands/exec/mod.rs\<close>): it starts a whitelisted
  executable, waits for it under two time limits and the cancellation, and writes what the pipes
  kept. The operating system is the record \<open>process_os\<close> of calls on the outside world \<open>'e\<close>; log
  lines are left out.
\<close>

section \<open>The command and the operating system\<close>

definition WAIT_POLL_INTERVAL :: nat where
  "WAIT_POLL_INTERVAL = 10000000"

definition PIPE_DRAIN_LIMIT :: nat where
  "PIPE_DRAIN_LIMIT = 1000000000"

record exec_request =
  executable :: string
  arguments :: "string list"
  exec_timeout :: u64

text \<open>\<open>ExitStatus\<close> on Unix: an exit code, a signal, or another state with its display form.\<close>

datatype exit_status = ExitedWith nat | StoppedBy nat | OtherStatus string

definition status_success :: "exit_status \<Rightarrow> bool" where
  "status_success st = (st = ExitedWith 0)"

text \<open>
  The calls on the child, by the source: \<open>spawn\<close>, \<open>try_wait\<close>, \<open>try_recv\<close> of the reader of one stream,
  taking the buffer of a reader, \<open>Instant::now\<close>, \<open>thread::sleep\<close>, \<open>kill\<close> and \<open>wait\<close>. Stream 0 is the
  standard output and stream 1 the standard error.
\<close>

record 'e process_os =
  os_spawn :: "string \<Rightarrow> string list \<Rightarrow> 'e \<Rightarrow> (io_error + unit) \<times> 'e"
  os_try_wait :: "'e \<Rightarrow> (io_error + exit_status option) \<times> 'e"
  os_recv :: "nat \<Rightarrow> 'e \<Rightarrow> received \<times> 'e"
  os_take :: "nat \<Rightarrow> 'e \<Rightarrow> kept_output \<times> 'e"
  os_now :: "'e \<Rightarrow> int"
  os_sleep :: "nat \<Rightarrow> 'e \<Rightarrow> 'e"
  os_kill :: "'e \<Rightarrow> (io_error + unit) \<times> 'e"
  os_wait :: "'e \<Rightarrow> (io_error + exit_status) \<times> 'e"

text \<open>\<open>Path::display\<close>.\<close>

abbreviation display_path :: "string \<Rightarrow> string" where
  "display_path \<equiv> from_utf8_lossy"

definition describe_failure :: "string \<Rightarrow> exit_status \<Rightarrow> string" where
  "describe_failure path st =
     (case st of
        ExitedWith code \<Rightarrow> display_path path @ '' exited with code '' @ show_nat code
      | StoppedBy signal \<Rightarrow> display_path path @ '' was stopped by signal '' @ show_nat signal
      | OtherStatus text \<Rightarrow> display_path path @ '' ended with '' @ text)"

section \<open>The time limit\<close>

record wait_limit =
  limit_at :: int
  limit_seconds :: u64

definition from_secs :: "u64 \<Rightarrow> nat" where
  "from_secs s = unat s * 1000000000"

definition wait_limit :: "exec_request \<Rightarrow> 'e command_context \<Rightarrow> int \<Rightarrow> wait_limit option" where
  "wait_limit r ctx now =
     (let process = (if exec_timeout r > 0
                     then Some \<lparr>limit_at = instant_after now (from_secs (exec_timeout r)),
                                limit_seconds = exec_timeout r\<rparr>
                     else None);
          context = map_option (\<lambda>d. \<lparr>limit_at = deadline_at d,
                                     limit_seconds = of_nat (deadline_timeout d div 1000000000)\<rparr>)
                      (ctx_deadline ctx)
      in case (process, context) of
           (Some p, Some c) \<Rightarrow> if limit_at c < limit_at p then Some c else Some p
         | (Some p, None) \<Rightarrow> Some p
         | (None, c) \<Rightarrow> c)"

section \<open>Waiting for the exit\<close>

text \<open>A reader: its stream and whether it is done. The polls stop at the first error.\<close>

type_synonym pipe_reader = "nat \<times> bool"

fun poll_readers ::
  "'e process_os \<Rightarrow> pipe_reader option list \<Rightarrow> 'e \<Rightarrow> (io_error + bool) \<times> pipe_reader option list \<times> 'e" where
  "poll_readers os [] e = (Inr True, [], e)"
| "poll_readers os (None # readers) e =
     (case poll_readers os readers e of (r, readers', e') \<Rightarrow> (r, None # readers', e'))"
| "poll_readers os (Some (i, done) # readers) e =
     (let (channel, e1) = (if done then (Empty, e) else os_recv os i e)
      in case poll_reader channel done of
           (Inl error, done') \<Rightarrow> (Inl error, Some (i, done') # readers, e1)
         | (Inr ready, done') \<Rightarrow>
             (case poll_readers os readers e1 of
                (r, readers', e2) \<Rightarrow> (map_sum id (\<lambda>b. ready \<and> b) r, Some (i, done') # readers', e2)))"

text \<open>The \<open>try_wait\<close> of one round, made only while no exit is known.\<close>

definition check_exit ::
  "'e process_os \<Rightarrow> (exit_status \<times> int) option \<Rightarrow> 'e \<Rightarrow> (io_error + (exit_status \<times> int) option) \<times> 'e" where
  "check_exit os exit e =
     (if exit = None
      then (case os_try_wait os e of
              (Inr status, e') \<Rightarrow> (Inr (map_option (\<lambda>st. (st, os_now os e')) status), e')
            | (Inl error, e') \<Rightarrow> (Inl error, e'))
      else (Inr exit, e))"

text \<open>How a round ends the loop: the exit, the cancellation, then the time limit.\<close>

definition round_result ::
  "'e process_os \<Rightarrow> ('e \<Rightarrow> bool) \<Rightarrow> wait_limit option \<Rightarrow> (exit_status \<times> int) option \<Rightarrow> bool \<Rightarrow> 'e \<Rightarrow>
     (command_error + exit_status) option" where
  "round_result os cancelled limit exit drained e =
     (if (case exit of Some (_, exited_at) \<Rightarrow> drained \<or> os_now os e - exited_at \<ge> int PIPE_DRAIN_LIMIT
                     | None \<Rightarrow> False)
      then map_option (\<lambda>(status, _). Inr status) exit
      else if cancelled e then Some (Inl Interrupted)
      else case limit of
          Some l \<Rightarrow> if os_now os e \<ge> limit_at l then Some (Inl (Timeout (limit_seconds l))) else None
        | None \<Rightarrow> None)"

record 'e wait_state =
  ws_exit :: "(exit_status \<times> int) option"
  ws_readers :: "pipe_reader option list"
  ws_world :: 'e

definition wait_round ::
  "'e process_os \<Rightarrow> ('e \<Rightarrow> bool) \<Rightarrow> wait_limit option \<Rightarrow> string \<Rightarrow> 'e wait_state \<Rightarrow>
     (command_error + exit_status) option \<times> 'e wait_state" where
  "wait_round os cancelled limit path s =
     (case check_exit os (ws_exit s) (ws_world s) of
        (Inl error, e1) \<Rightarrow>
          (Some (Inl (failed_with (''could not wait for '' @ display_path path) (io_dyn error))),
           s\<lparr>ws_world := e1\<rparr>)
      | (Inr exit, e1) \<Rightarrow>
          (case poll_readers os (ws_readers s) e1 of
             (Inl error, readers, e2) \<Rightarrow>
               (Some (Inl (failed_with (''could not read the output of '' @ display_path path) (io_dyn error))),
                \<lparr>ws_exit = exit, ws_readers = readers, ws_world = e2\<rparr>)
           | (Inr drained, readers, e2) \<Rightarrow>
               (round_result os cancelled limit exit drained e2,
                \<lparr>ws_exit = exit, ws_readers = readers, ws_world = e2\<rparr>)))"

partial_function (option) wait_loop ::
  "'e process_os \<Rightarrow> ('e \<Rightarrow> bool) \<Rightarrow> wait_limit option \<Rightarrow> string \<Rightarrow> 'e wait_state \<Rightarrow>
     ((command_error + exit_status) \<times> 'e wait_state) option" where
  "wait_loop os cancelled limit path s =
     (case wait_round os cancelled limit path s of
        (Some r, s') \<Rightarrow> Some (r, s')
      | (None, s') \<Rightarrow>
          wait_loop os cancelled limit path (s'\<lparr>ws_world := os_sleep os WAIT_POLL_INTERVAL (ws_world s')\<rparr>))"

definition stop_child :: "'e process_os \<Rightarrow> bool \<Rightarrow> 'e \<Rightarrow> 'e" where
  "stop_child os exited e =
     (if exited then e else let (killed, e1) = os_kill os e; (reaped, e2) = os_wait os e1 in e2)"

definition wait_for_exit ::
  "'e process_os \<Rightarrow> exec_request \<Rightarrow> 'e command_context \<Rightarrow> string \<Rightarrow> pipe_reader option list \<Rightarrow> 'e \<Rightarrow>
     ((command_error + exit_status) \<times> pipe_reader option list \<times> 'e) option" where
  "wait_for_exit os r ctx path readers e =
     map_option
       (\<lambda>(waited, s). (waited, ws_readers s,
          case waited of Inl _ \<Rightarrow> stop_child os (ws_exit s \<noteq> None) (ws_world s) | Inr _ \<Rightarrow> ws_world s))
       (wait_loop os (ctx_cancel ctx) (wait_limit r ctx (os_now os e)) path
          \<lparr>ws_exit = None, ws_readers = readers, ws_world = e\<rparr>)"

section \<open>Running the process\<close>

record process_run =
  run_status :: "command_error + exit_status"
  run_stdout :: kept_output
  run_stderr :: kept_output

definition take_reader :: "'e process_os \<Rightarrow> pipe_reader option \<Rightarrow> 'e \<Rightarrow> kept_output \<times> 'e" where
  "take_reader os reader e =
     (case reader of Some (i, _) \<Rightarrow> os_take os i e | None \<Rightarrow> (default_kept_output, e))"

definition spawn_error :: "string \<Rightarrow> io_error \<Rightarrow> command_error" where
  "spawn_error path error =
     (if io_kind error = NotFound \<or> io_kind error = PermissionDenied
      then failed (''could not run '' @ display_path path @ '': it does not exist or is not accessible'')
      else failed_with (''could not start '' @ display_path path) (io_dyn error))"

definition run_process ::
  "'e process_os \<Rightarrow> exec_request \<Rightarrow> string \<Rightarrow> 'e command_context \<Rightarrow> 'e \<Rightarrow>
     ((command_error + process_run) \<times> 'e) option" where
  "run_process os r path ctx e =
     (case os_spawn os path (arguments r) e of
        (Inl error, e1) \<Rightarrow> Some (Inl (spawn_error path error), e1)
      | (Inr _, e1) \<Rightarrow>
          Option.bind (wait_for_exit os r ctx path [Some (0, False), Some (1, False)] e1)
            (\<lambda>(status, readers, e2).
               let (out, e3) = take_reader os (readers ! 0) e2;
                   (err, e4) = take_reader os (readers ! 1) e3
               in Some (Inr \<lparr>run_status = status, run_stdout = out, run_stderr = err\<rparr>, e4)))"

definition exec_run ::
  "terminal \<Rightarrow> 'e process_os \<Rightarrow> exec_request \<Rightarrow> 'e command_context \<Rightarrow> 'e \<Rightarrow>
     (command_result \<times> 'e command_context \<times> 'e) option" where
  "exec_run t os r ctx e =
     (case exec_whitelist (ctx_settings ctx) (executable r) of
        None \<Rightarrow> Some (Inl (failed (''executable is not whitelisted: '' @ executable r)), ctx, e)
      | Some path \<Rightarrow>
          Option.bind (run_process os r path ctx e) (\<lambda>(started, e').
            case started of
              Inl error \<Rightarrow> Some (Inl error, ctx, e')
            | Inr p \<Rightarrow>
                let out = out_text t (into_text (run_stderr p))
                            (out_text t (into_text (run_stdout p)) (ctx_output ctx));
                    ctx' = ctx\<lparr>ctx_output := out\<rparr>
                in Some
                     (case run_status p of
                        Inl error \<Rightarrow> (Inl error, ctx', e')
                      | Inr status \<Rightarrow>
                          (if status_success status then Inr ()
                           else Inl (failed (describe_failure path status)), ctx', e'))))"

section \<open>Facts\<close>

text \<open>The clock does not go back, and a sleep takes at least its duration.\<close>

definition os_steady :: "'e process_os \<Rightarrow> bool" where
  "os_steady os =
     ((\<forall>e. os_now os e \<le> os_now os (snd (os_try_wait os e)))
      \<and> (\<forall>i e. os_now os e \<le> os_now os (snd (os_recv os i e)))
      \<and> (\<forall>d e. os_now os e + int d \<le> os_now os (os_sleep os d e)))"

lemma poll_readers_clock:
  assumes "os_steady os"
  shows "os_now os e \<le> os_now os (snd (snd (poll_readers os readers e)))"
proof (induction readers arbitrary: e)
  case (Cons reader readers)
  have recv: "os_now os e \<le> os_now os (snd (os_recv os i e))" for i
    using assms by (simp add: os_steady_def)
  show ?case
  proof (cases reader)
    case None
    then show ?thesis using Cons.IH [of e] by (auto split: prod.split)
  next
    case (Some p)
    then show ?thesis
      using Cons.IH [of e] Cons.IH [of "snd (os_recv os (fst p) e)"] recv [of "fst p"]
      by (cases p) (auto simp: Let_def split: prod.splits sum.splits if_splits)
  qed
qed simp

lemma check_exit_clock:
  "os_steady os \<Longrightarrow> os_now os e \<le> os_now os (snd (check_exit os exit e))"
  unfolding check_exit_def os_steady_def by (auto split: prod.split sum.split dest: spec [of _ e])

lemma wait_round_clock:
  assumes "os_steady os"
  shows "os_now os (ws_world s) \<le> os_now os (ws_world (snd (wait_round os cancelled limit path s)))"
  using check_exit_clock [OF assms, of "ws_world s" "ws_exit s"] poll_readers_clock [OF assms, of _ "ws_readers s"]
  by (fastforce simp: wait_round_def split: prod.splits sum.splits intro: order_trans)

text \<open>A round that does not end the loop leaves the time limit in the future and no cancellation.\<close>

lemma wait_round_None:
  assumes "wait_round os cancelled limit path s = (None, s')"
  shows "\<not> cancelled (ws_world s')" "limit = Some l \<Longrightarrow> os_now os (ws_world s') < limit_at l"
  using assms
  by (auto simp: wait_round_def round_result_def split: prod.splits sum.splits if_splits option.splits)

lemma wait_loop_returns:
  assumes "os_steady os"
  shows "\<exists>r s'. wait_loop os cancelled (Some l) path s = Some (r, s')"
proof (induction "nat (limit_at l - os_now os (ws_world s))" arbitrary: s rule: less_induct)
  case less
  obtain r s1 where round: "wait_round os cancelled (Some l) path s = (r, s1)" by fastforce
  show ?case
  proof (cases r)
    case None
    let ?s2 = "s1\<lparr>ws_world := os_sleep os WAIT_POLL_INTERVAL (ws_world s1)\<rparr>"
    have "os_now os (ws_world s1) + int WAIT_POLL_INTERVAL \<le> os_now os (ws_world ?s2)"
      using assms by (simp add: os_steady_def)
    moreover have "os_now os (ws_world s) \<le> os_now os (ws_world s1)"
      using wait_round_clock [OF assms, of s cancelled "Some l" path] round by simp
    moreover have "os_now os (ws_world s1) < limit_at l"
      using wait_round_None(2) [of os cancelled "Some l" path s s1] round None by simp
    ultimately have "nat (limit_at l - os_now os (ws_world ?s2)) < nat (limit_at l - os_now os (ws_world s))"
      by (simp add: WAIT_POLL_INTERVAL_def)
    then obtain r' s' where "wait_loop os cancelled (Some l) path ?s2 = Some (r', s')"
      using less.hyps by blast
    then show ?thesis using round None by (subst wait_loop.simps) simp
  next
    case (Some x)
    then show ?thesis using round by (subst wait_loop.simps) simp
  qed
qed

text \<open>Once the token has fired the first round ends the wait.\<close>

lemma wait_loop_cancelled:
  assumes "\<And>e. cancelled e"
  shows "\<exists>r s'. wait_loop os cancelled limit path s = Some (r, s')"
proof -
  obtain r s1 where "wait_round os cancelled limit path s = (r, s1)" by fastforce
  moreover have "r \<noteq> None"
    using wait_round_None(1) [of os cancelled limit path s s1] calculation assms by auto
  ultimately show ?thesis by (subst wait_loop.simps) auto
qed

text \<open>The states in which the rounds of one wait begin.\<close>

inductive wait_reaches ::
  "'e process_os \<Rightarrow> ('e \<Rightarrow> bool) \<Rightarrow> wait_limit option \<Rightarrow> string \<Rightarrow> 'e wait_state \<Rightarrow> 'e wait_state \<Rightarrow> bool"
  for os cancelled limit path s0 where
  wait_starts: "wait_reaches os cancelled limit path s0 s0"
| wait_goes_on: "wait_reaches os cancelled limit path s0 s \<Longrightarrow> wait_round os cancelled limit path s = (None, s1) \<Longrightarrow>
    wait_reaches os cancelled limit path s0 (s1\<lparr>ws_world := os_sleep os WAIT_POLL_INTERVAL (ws_world s1)\<rparr>)"

lemma wait_loop_decided:
  assumes "wait_loop os cancelled limit path s = Some (r, s')"
  shows "\<exists>s1. wait_reaches os cancelled limit path s s1 \<and> wait_round os cancelled limit path s1 = (Some r, s')"
proof -
  let ?P = "\<lambda>os cancelled limit path s x. \<forall>s0. wait_reaches os cancelled limit path s0 s \<longrightarrow>
    (\<exists>s1. wait_reaches os cancelled limit path s0 s1 \<and> wait_round os cancelled limit path s1 = (Some (fst x), snd x))"
  have "?P os cancelled limit path s (r, s')"
  proof (rule wait_loop.raw_induct [where P = ?P, OF _ assms])
    fix loop os cancelled limit path s x
    assume IH: "\<And>cancelled limit path s b y. loop cancelled limit path s b = Some y \<Longrightarrow> ?P cancelled limit path s b y"
      and step: "(case wait_round os cancelled limit path s of
        (None, s') \<Rightarrow> loop os cancelled limit path (s'\<lparr>ws_world := os_sleep os WAIT_POLL_INTERVAL (ws_world s')\<rparr>)
      | (Some r, s') \<Rightarrow> Some (r, s')) = Some x"
    obtain r s1 where round: "wait_round os cancelled limit path s = (r, s1)" by fastforce
    show "?P os cancelled limit path s x"
    proof (intro allI impI)
      fix s0 assume here: "wait_reaches os cancelled limit path s0 s"
      show "\<exists>s1. wait_reaches os cancelled limit path s0 s1 \<and> wait_round os cancelled limit path s1 = (Some (fst x), snd x)"
      proof (cases r)
        case None
        then show ?thesis using IH step round wait_goes_on [OF here] by simp
      next
        case (Some y)
        then show ?thesis using step round here by auto
      qed
    qed
  qed
  then show ?thesis using wait_starts by fastforce
qed

text \<open>A known exit was answered by a \<open>try_wait\<close> of the same wait.\<close>

definition exit_seen ::
  "'e process_os \<Rightarrow> ('e \<Rightarrow> bool) \<Rightarrow> wait_limit option \<Rightarrow> string \<Rightarrow> 'e wait_state \<Rightarrow> exit_status \<Rightarrow> bool" where
  "exit_seen os cancelled limit path s0 st =
     (\<exists>s e. wait_reaches os cancelled limit path s0 s \<and> ws_exit s = None \<and> os_try_wait os (ws_world s) = (Inr (Some st), e))"

lemma check_exit_seen:
  assumes "check_exit os (ws_exit s) (ws_world s) = (Inr (Some (st, at)), e)" "wait_reaches os cancelled limit path s0 s"
    and "ws_exit s = Some (st, at) \<Longrightarrow> exit_seen os cancelled limit path s0 st"
  shows "exit_seen os cancelled limit path s0 st"
proof (cases "ws_exit s")
  case None
  then obtain e' where "os_try_wait os (ws_world s) = (Inr (Some st), e')"
    using assms(1) by (auto simp: check_exit_def split: prod.splits sum.splits)
  then show ?thesis using None assms(2) unfolding exit_seen_def by blast
qed (use assms(1,3) in \<open>simp add: check_exit_def\<close>)

lemma round_exit_checked:
  assumes "wait_round os cancelled limit path s = (r, s')" "ws_exit s' = Some (st, at)"
  shows "(\<exists>e. check_exit os (ws_exit s) (ws_world s) = (Inr (Some (st, at)), e)) \<or> ws_exit s = Some (st, at)"
  using assms by (auto simp: wait_round_def split: prod.splits sum.splits)

lemma known_exit_seen:
  "wait_reaches os cancelled limit path s0 s \<Longrightarrow> ws_exit s0 = None \<Longrightarrow> ws_exit s = Some (st, at) \<Longrightarrow>
     exit_seen os cancelled limit path s0 st"
proof (induction arbitrary: st at rule: wait_reaches.induct)
  case (wait_goes_on s s1)
  from round_exit_checked [OF wait_goes_on.hyps(2)] wait_goes_on show ?case
    by (auto intro: check_exit_seen)
qed simp

text \<open>
  What each outcome of a wait says about the child, the token and the clock; \<open>s'\<close> is the state in
  which the last round decides.
\<close>

definition wait_explained ::
  "'e process_os \<Rightarrow> ('e \<Rightarrow> bool) \<Rightarrow> wait_limit option \<Rightarrow> string \<Rightarrow> 'e wait_state \<Rightarrow> command_error + exit_status \<Rightarrow>
     'e wait_state \<Rightarrow> bool" where
  "wait_explained os cancelled limit path s0 r s' =
     ((\<forall>st. r = Inr st \<longrightarrow> exit_seen os cancelled limit path s0 st)
      \<and> (r = Inl Interrupted \<longrightarrow> cancelled (ws_world s'))
      \<and> (\<forall>n. r = Inl (Timeout n) \<longrightarrow>
           \<not> cancelled (ws_world s')
           \<and> (\<exists>l. limit = Some l \<and> n = limit_seconds l \<and> limit_at l \<le> os_now os (ws_world s'))))"

lemma wait_loop_explained:
  assumes "wait_loop os cancelled limit path s0 = Some (r, s')" "ws_exit s0 = None"
  shows "wait_explained os cancelled limit path s0 r s'"
proof -
  obtain s where s: "wait_reaches os cancelled limit path s0 s" "wait_round os cancelled limit path s = (Some r, s')"
    using wait_loop_decided [OF assms(1)] by blast
  have "exit_seen os cancelled limit path s0 st" if "ws_exit s' = Some (st, at)" for st at
    using round_exit_checked [OF s(2) that] check_exit_seen [OF _ s(1)] known_exit_seen [OF s(1) assms(2)] by blast
  then show ?thesis
    using s(2) by (auto simp: wait_round_def wait_explained_def round_result_def failed_with_def
        split: prod.splits sum.splits if_splits option.splits)
qed

lemma wait_loop_last_round:
  assumes "wait_loop os cancelled limit path s = Some (r, s')" "I s"
    and "\<And>s x s'. wait_round os cancelled limit path s = (x, s') \<Longrightarrow> I s \<Longrightarrow> I s'"
    and "\<And>s e. I s \<Longrightarrow> I (s\<lparr>ws_world := e\<rparr>)"
  shows "\<exists>s0. I s0 \<and> wait_round os cancelled limit path s0 = (Some r, s')"
proof -
  let ?P = "\<lambda>os' cancelled' limit' path' s x. os' = os \<and> cancelled' = cancelled \<and> limit' = limit \<and> path' = path \<longrightarrow>
    I s \<longrightarrow> (\<exists>s0. I s0 \<and> wait_round os cancelled limit path s0 = (Some (fst x), snd x))"
  have "?P os cancelled limit path s (r, s')"
  proof (rule wait_loop.raw_induct [where P = ?P, OF _ assms(1)])
    fix loop os' cancelled' limit' path' s x
    assume IH: "\<And>cancelled limit path s b y. loop cancelled limit path s b = Some y \<Longrightarrow> ?P cancelled limit path s b y"
      and step: "(case wait_round os' cancelled' limit' path' s of
        (None, s') \<Rightarrow> loop os' cancelled' limit' path' (s'\<lparr>ws_world := os_sleep os' WAIT_POLL_INTERVAL (ws_world s')\<rparr>)
      | (Some r, s') \<Rightarrow> Some (r, s')) = Some x"
    obtain r s1 where round: "wait_round os' cancelled' limit' path' s = (r, s1)" by fastforce
    show "?P os' cancelled' limit' path' s x"
    proof (intro impI)
      assume same: "os' = os \<and> cancelled' = cancelled \<and> limit' = limit \<and> path' = path" and "I s"
      then have "I s1" using round assms(3) by blast
      show "\<exists>s0. I s0 \<and> wait_round os cancelled limit path s0 = (Some (fst x), snd x)"
      proof (cases r)
        case None
        have "I (s1\<lparr>ws_world := os_sleep os WAIT_POLL_INTERVAL (ws_world s1)\<rparr>)"
          using \<open>I s1\<close> assms(4) by blast
        then show ?thesis using IH step round None same by simp
      next
        case (Some y)
        then show ?thesis using \<open>I s\<close> step round same by auto
      qed
    qed
  qed
  then show ?thesis using assms(2) by simp
qed

lemma wait_limit_cases:
  "wait_limit r ctx now = None \<longleftrightarrow> exec_timeout r = 0 \<and> ctx_deadline ctx = None"
  by (auto simp: wait_limit_def Let_def word_gt_0 split: option.split)

text \<open>The limit is the earlier of the two, and carries the seconds of the one it is.\<close>

lemma wait_limit_earliest:
  assumes "wait_limit r ctx now = Some l"
  shows "exec_timeout r > 0 \<Longrightarrow> limit_at l \<le> instant_after now (from_secs (exec_timeout r))"
    and "ctx_deadline ctx = Some d \<Longrightarrow> limit_at l \<le> deadline_at d"
    and "exec_timeout r > 0 \<and> limit_at l = instant_after now (from_secs (exec_timeout r))
           \<and> limit_seconds l = exec_timeout r
         \<or> (\<exists>d. ctx_deadline ctx = Some d \<and> limit_at l = deadline_at d
              \<and> limit_seconds l = of_nat (deadline_timeout d div 1000000000))"
  using assms by (auto simp: wait_limit_def Let_def split: option.splits if_splits)

lemma wait_for_exit_returns:
  assumes "os_steady os" "exec_timeout r > 0 \<or> ctx_deadline ctx \<noteq> None \<or> (\<forall>e. ctx_cancel ctx e)"
  shows "wait_for_exit os r ctx path readers e \<noteq> None"
proof (cases "wait_limit r ctx (os_now os e)")
  case None
  then have "\<forall>e. ctx_cancel ctx e" using assms(2) by (auto simp: wait_limit_cases)
  then show ?thesis
    using wait_loop_cancelled [of "ctx_cancel ctx"] by (fastforce simp: wait_for_exit_def)
next
  case (Some l)
  then show ?thesis using wait_loop_returns [OF assms(1)] by (fastforce simp: wait_for_exit_def)
qed

lemma run_process_returns:
  assumes "os_steady os" "exec_timeout r > 0 \<or> ctx_deadline ctx \<noteq> None \<or> (\<forall>e. ctx_cancel ctx e)"
  shows "run_process os r path ctx e \<noteq> None"
proof -
  obtain x e1 where "os_spawn os path (arguments r) e = (x, e1)" by fastforce
  moreover obtain y where "wait_for_exit os r ctx path [Some (0, False), Some (1, False)] e1 = Some y"
    using wait_for_exit_returns [OF assms, of path] by blast
  ultimately show ?thesis
    by (cases x; cases y) (simp_all add: run_process_def Let_def split: prod.split)
qed

lemma exec_run_returns:
  assumes "os_steady os" "exec_timeout r > 0 \<or> ctx_deadline ctx \<noteq> None \<or> (\<forall>e. ctx_cancel ctx e)"
  shows "exec_run t os r ctx e \<noteq> None"
proof (cases "exec_whitelist (ctx_settings ctx) (executable r)")
  case (Some path)
  obtain started e1 where "run_process os r path ctx e = Some (started, e1)"
    using run_process_returns [OF assms, of path e] by fastforce
  then show ?thesis using Some by (cases started) (simp_all add: exec_run_def Let_def)
qed (simp add: exec_run_def)

text \<open>A finished run: the process that was started, the outcome of its wait and what was written.\<close>

definition written_output :: "terminal \<Rightarrow> process_run \<Rightarrow> output_state \<Rightarrow> output_state" where
  "written_output t p out = out_text t (into_text (run_stderr p)) (out_text t (into_text (run_stdout p)) out)"

definition exec_result :: "string \<Rightarrow> command_error + exit_status \<Rightarrow> command_result" where
  "exec_result path waited =
     (case waited of Inl error \<Rightarrow> Inl error
      | Inr st \<Rightarrow> if status_success st then Inr () else Inl (failed (describe_failure path st)))"

lemma exec_run_started:
  assumes "exec_whitelist (ctx_settings ctx) (executable r) = Some path"
    and "run_process os r path ctx e = Some (Inr p, e')"
  shows "exec_run t os r ctx e =
    Some (exec_result path (run_status p), ctx\<lparr>ctx_output := written_output t p (ctx_output ctx)\<rparr>, e')"
  using assms
  by (simp add: exec_run_def exec_result_def written_output_def Let_def split: sum.split)

lemma run_process_cases:
  assumes "run_process os r path ctx e = Some (x, e')"
  obtains (no_process) error where "os_spawn os path (arguments r) e = (Inl error, e')" "x = Inl (spawn_error path error)"
    | (process) e1 waited readers e2 p where "os_spawn os path (arguments r) e = (Inr (), e1)"
      "wait_for_exit os r ctx path [Some (0, False), Some (1, False)] e1 = Some (waited, readers, e2)"
      "x = Inr p" "run_status p = waited"
      "run_stdout p = fst (take_reader os (readers ! 0) e2)"
      "run_stderr p = fst (take_reader os (readers ! 1) (snd (take_reader os (readers ! 0) e2)))"
proof (cases "os_spawn os path (arguments r) e")
  case (Pair y e1)
  show thesis
  proof (cases y)
    case (Inl error)
    then show thesis using assms Pair that(1) by (simp add: run_process_def)
  next
    case (Inr u)
    obtain waited readers e2 where w: "wait_for_exit os r ctx path [Some (0, False), Some (1, False)] e1 = Some (waited, readers, e2)"
      using assms Pair Inr by (cases "wait_for_exit os r ctx path [Some (0, False), Some (1, False)] e1")
        (auto simp: run_process_def)
    then show thesis
      using assms Pair Inr that(2) [of e1 waited readers e2 "case x of Inr p \<Rightarrow> p"]
      by (auto simp: run_process_def Let_def split: prod.splits)
  qed
qed

text \<open>The readers keep their streams.\<close>

lemma poll_readers_streams:
  "poll_readers os readers e = (x, readers', e') \<Longrightarrow>
     map (map_option fst) readers' = map (map_option fst) readers"
proof (induction readers arbitrary: e x readers' e')
  case (Cons reader readers)
  show ?case
  proof (cases reader)
    case None
    then show ?thesis using Cons by (auto split: prod.splits)
  next
    case (Some p)
    then show ?thesis
      using Cons by (cases p) (auto simp: Let_def split: prod.splits sum.splits if_splits)
  qed
qed simp

lemma wait_round_streams:
  "wait_round os cancelled limit path s = (x, s') \<Longrightarrow>
     map (map_option fst) (ws_readers s') = map (map_option fst) (ws_readers s)"
  by (auto simp: wait_round_def dest: poll_readers_streams split: prod.splits sum.splits)

lemma wait_for_exit_streams:
  assumes "wait_for_exit os r ctx path readers e = Some (waited, readers', e')"
  shows "map (map_option fst) readers' = map (map_option fst) readers"
proof -
  let ?I = "\<lambda>s. map (map_option fst) (ws_readers s) = map (map_option fst) readers"
  obtain s' where s': "wait_loop os (ctx_cancel ctx) (wait_limit r ctx (os_now os e)) path
      \<lparr>ws_exit = None, ws_readers = readers, ws_world = e\<rparr> = Some (waited, s')" "readers' = ws_readers s'"
    using assms by (auto simp: wait_for_exit_def)
  then obtain s0 where "?I s0" "wait_round os (ctx_cancel ctx) (wait_limit r ctx (os_now os e)) path s0 = (Some waited, s')"
    using wait_loop_last_round [OF s'(1), where I = ?I] wait_round_streams by fastforce
  then show ?thesis using s'(2) wait_round_streams by metis
qed

text \<open>What is written, when taking the buffer of a reader yields what its stream delivered.\<close>

lemma run_process_output:
  assumes "run_process os r path ctx e = Some (Inr p, e')"
    and "\<And>i e. fst (os_take os i e) = kept_of KEPT_HEAD_BYTES KEPT_TAIL_BYTES (stream i)"
  shows "run_stdout p = kept_of KEPT_HEAD_BYTES KEPT_TAIL_BYTES (stream 0)"
    and "run_stderr p = kept_of KEPT_HEAD_BYTES KEPT_TAIL_BYTES (stream 1)"
proof -
  obtain e1 waited readers e2 where w:
      "wait_for_exit os r ctx path [Some (0, False), Some (1, False)] e1 = Some (waited, readers, e2)"
      "run_stdout p = fst (take_reader os (readers ! 0) e2)"
      "run_stderr p = fst (take_reader os (readers ! 1) (snd (take_reader os (readers ! 0) e2)))"
    using assms(1) by (rule run_process_cases) auto
  have "map (map_option fst) readers = [Some 0, Some 1]"
    using wait_for_exit_streams [OF w(1)] by simp
  then obtain d d' where "readers = [Some (0, d), Some (1, d')]"
    by (auto simp: Cons_eq_map_conv map_eq_Cons_conv)
  then show "run_stdout p = kept_of KEPT_HEAD_BYTES KEPT_TAIL_BYTES (stream 0)"
    "run_stderr p = kept_of KEPT_HEAD_BYTES KEPT_TAIL_BYTES (stream 1)"
    using w(2,3) assms(2) by (simp_all add: take_reader_def)
qed

text \<open>
  The rounds of one run: from the start of the child at \<open>e1\<close> to the state \<open>s'\<close> in which the wait ends
  with \<open>waited\<close>. Then a child that has not exited is killed and reaped, and the pipes are read.
\<close>

definition waited_from :: "'e \<Rightarrow> 'e wait_state" where
  "waited_from e1 = \<lparr>ws_exit = None, ws_readers = [Some (0, False), Some (1, False)], ws_world = e1\<rparr>"

definition after_wait :: "'e process_os \<Rightarrow> command_error + exit_status \<Rightarrow> 'e wait_state \<Rightarrow> 'e" where
  "after_wait os waited s' =
     (let e2 = (case waited of Inl _ \<Rightarrow> stop_child os (ws_exit s' \<noteq> None) (ws_world s') | Inr _ \<Rightarrow> ws_world s')
      in snd (take_reader os (ws_readers s' ! 1) (snd (take_reader os (ws_readers s' ! 0) e2))))"

lemma run_process_explained:
  assumes "run_process os r path ctx e = Some (Inr p, e')"
  shows "\<exists>e1 s'. os_spawn os path (arguments r) e = (Inr (), e1)
    \<and> wait_loop os (ctx_cancel ctx) (wait_limit r ctx (os_now os e1)) path (waited_from e1) = Some (run_status p, s')
    \<and> e' = after_wait os (run_status p) s'"
proof (cases "os_spawn os path (arguments r) e")
  case (Pair x e1)
  obtain y where w: "x = Inr ()" "wait_for_exit os r ctx path [Some (0, False), Some (1, False)] e1 = Some y"
    using assms Pair by (cases x) (auto simp: run_process_def bind_eq_Some_conv)
  then obtain waited s' where s': "wait_loop os (ctx_cancel ctx) (wait_limit r ctx (os_now os e1)) path (waited_from e1) = Some (waited, s')"
    "y = (waited, ws_readers s', case waited of Inl _ \<Rightarrow> stop_child os (ws_exit s' \<noteq> None) (ws_world s') | Inr _ \<Rightarrow> ws_world s')"
    by (auto simp: wait_for_exit_def waited_from_def simp del: not_None_eq)
  have "waited = run_status p" "e' = after_wait os waited s'"
    using assms Pair w s'(2) by (auto simp: run_process_def after_wait_def Let_def split: prod.splits)
  then show ?thesis using Pair w(1) s'(1) by blast
qed

end
