(* ===== verification/Lifecycle.thy ===== *)
theory Lifecycle
  imports Commands
begin

text \<open>
  What runs around a scheduled command (\<open>src/inengine-core/src/server/lifecycle.rs\<close>) and the pings
  and mails it sends (\<open>server/notify.rs\<close>). The HTTP client, the mail crate, the files and the blocking
  pool are the record \<open>outside\<close> of calls on the outside world \<open>'e\<close>; log lines are left out.
\<close>

section \<open>Pings and mail\<close>

text \<open>The transport that \<open>lettre\<close> builds: how it connects, where to, and with which login.\<close>

record mail_transport =
  transport_encryption :: mail_encryption
  transport_host :: string
  transport_port :: u16
  transport_login :: "(string \<times> string) option"

text \<open>
  Calls into the world. \<open>client_made\<close> says whether the shared HTTP client is there, \<open>build_client\<close> builds
  one, \<open>keep_client\<close> keeps it unless another was kept before, \<open>http_get\<close> sends a GET request
  and reports an error status as an error, \<open>relay\<close> checks a host for an encrypted transport,
  \<open>parse_mailbox\<close> and \<open>build_message\<close> are the message builder, \<open>append_file\<close> writes and flushes an open
  file, \<open>start_blocking\<close> is \<open>spawn_blocking\<close>.
\<close>

record 'e outside =
  client_made :: "'e \<Rightarrow> bool"
  keep_client :: "'e \<Rightarrow> 'e"
  build_client :: "'e \<Rightarrow> (dyn_error + unit) \<times> 'e"
  http_get :: "string \<Rightarrow> 'e \<Rightarrow> (dyn_error + unit) \<times> 'e"
  relay :: "mail_encryption \<Rightarrow> string \<Rightarrow> dyn_error + unit"
  parse_mailbox :: "string \<Rightarrow> dyn_error + string"
  build_message :: "string \<Rightarrow> string \<Rightarrow> string \<Rightarrow> string \<Rightarrow> dyn_error + bytes"
  send_mail :: "mail_transport \<Rightarrow> bytes \<Rightarrow> 'e \<Rightarrow> (dyn_error + unit) \<times> 'e"
  write_file :: "string \<Rightarrow> bytes \<Rightarrow> 'e \<Rightarrow> (io_error + unit) \<times> 'e"
  open_append :: "string \<Rightarrow> 'e \<Rightarrow> (io_error + unit) \<times> 'e"
  append_all :: "string \<Rightarrow> bytes \<Rightarrow> 'e \<Rightarrow> (io_error + unit) \<times> 'e"
  flush_file :: "string \<Rightarrow> 'e \<Rightarrow> (io_error + unit) \<times> 'e"
  start_blocking :: "'e command \<Rightarrow> 'e command_context \<Rightarrow> 'e \<Rightarrow> task \<times> 'e"
  now_of :: "'e \<Rightarrow> int"

type_synonym ('e, 'a) life_step = "'e \<Rightarrow> (command_error + 'a) \<times> 'e"

definition http_client :: "'e outside \<Rightarrow> ('e, unit) life_step" where
  "http_client x e =
     (if client_made x e then (Inr (), e)
      else bindE (map_errE (failed_with ''could not create the HTTP client'') (build_client x))
             (\<lambda>_ e'. (Inr (), keep_client x e')) e)"

definition ping :: "'e outside \<Rightarrow> string \<Rightarrow> ('e, unit) life_step" where
  "ping x url =
     bindE (http_client x) (\<lambda>_.
       map_errE (failed_with (''ping to '' @ url @ '' failed'')) (http_get x url))"

definition mail_transport :: "'e outside \<Rightarrow> mail_settings \<Rightarrow> command_error + mail_transport" where
  "mail_transport x st =
     (case (case mail_encryption st of
              Plain \<Rightarrow> Inr ()
            | StartTls \<Rightarrow> relay x StartTls (mail_host st)
            | Tls \<Rightarrow> relay x Tls (mail_host st)) of
        Inl error \<Rightarrow> Inl (failed_with ''could not set up the mail transport'' error)
      | Inr _ \<Rightarrow>
          Inr \<lparr>transport_encryption = mail_encryption st, transport_host = mail_host st,
               transport_port = mail_port st,
               transport_login = (if mail_username st \<noteq> []
                                  then Some (mail_username st, mail_password st) else None)\<rparr>)"

definition send_email :: "'e outside \<Rightarrow> mail_settings \<Rightarrow> string \<Rightarrow> string \<Rightarrow> string \<Rightarrow> ('e, unit) life_step" where
  "send_email x st to subject body e =
     (case parse_mailbox x (mail_from st) of
        Inl error \<Rightarrow> (Inl (failed_with (''invalid from address: '' @ mail_from st) error), e)
      | Inr from_box \<Rightarrow>
          (case parse_mailbox x to of
             Inl error \<Rightarrow> (Inl (failed_with (''invalid to address: '' @ to) error), e)
           | Inr to_box \<Rightarrow>
               (case build_message x from_box to_box subject body of
                  Inl error \<Rightarrow> (Inl (failed_with ''failed to build email message'' error), e)
                | Inr email \<Rightarrow>
                    (case mail_transport x st of
                       Inl error \<Rightarrow> (Inl error, e)
                     | Inr transport \<Rightarrow>
                         map_errE (failed_with ''failed to send email'') (send_mail x transport email) e))))"

section \<open>The lifecycle\<close>

record lifecycle_options =
  ping_before_url :: "string option"
  ping_after_url :: "string option"
  write_output_to :: "string option"
  append_output_to :: "string option"
  email_output_to :: "string option"
  life_timeout :: "nat option"

record 'e lifecycle_hooks =
  before_run :: "('e \<Rightarrow> 'e) option"
  after_run :: "('e \<Rightarrow> 'e) option"

record 'e command_lifecycle =
  life_options :: lifecycle_options
  life_hooks :: "'e lifecycle_hooks"

definition default_options :: lifecycle_options where
  "default_options = \<lparr>ping_before_url = None, ping_after_url = None, write_output_to = None,
     append_output_to = None, email_output_to = None, life_timeout = None\<rparr>"

definition default_lifecycle :: "'e command_lifecycle" where
  "default_lifecycle =
     \<lparr>life_options = default_options, life_hooks = \<lparr>before_run = None, after_run = None\<rparr>\<rparr>"

definition run_hook :: "('e \<Rightarrow> 'e) option \<Rightarrow> 'e \<Rightarrow> 'e" where
  "run_hook hook e = (case hook of Some f \<Rightarrow> f e | None \<Rightarrow> e)"

text \<open>\<open>if let Some(ref x) = field { ... await? }\<close>.\<close>

definition when_some :: "'b option \<Rightarrow> ('b \<Rightarrow> ('e, unit) life_step) \<Rightarrow> ('e, unit) life_step" where
  "when_some field act = (case field of Some v \<Rightarrow> act v | None \<Rightarrow> retE ())"

definition append_output :: "'e outside \<Rightarrow> string \<Rightarrow> string \<Rightarrow> ('e, unit) life_step" where
  "append_output x path text =
     bindE (map_errE (\<lambda>e. failed_with (''could not open '' @ from_utf8_lossy path @ '' to append the output'') (io_dyn e))
              (open_append x path)) (\<lambda>_.
       map_errE (\<lambda>e. failed_with (''could not append the output to '' @ from_utf8_lossy path) (io_dyn e))
         (bindE (append_all x path text) (\<lambda>_. flush_file x path)))"

definition persist_output ::
  "'e outside \<Rightarrow> lifecycle_options \<Rightarrow> settings \<Rightarrow> string \<Rightarrow> string \<Rightarrow> string \<Rightarrow> ('e, unit) life_step" where
  "persist_output x options st text mail_subject mail_body =
     bindE (when_some (write_output_to options) (\<lambda>path.
         map_errE (\<lambda>e. failed_with (''could not write the output to '' @ from_utf8_lossy path) (io_dyn e))
           (write_file x path text))) (\<lambda>_.
     bindE (when_some (append_output_to options) (\<lambda>path. append_output x path text)) (\<lambda>_.
       when_some (email_output_to options) (\<lambda>address. send_email x (mail st) address mail_subject mail_body)))"

definition failure_mail_body :: "string \<Rightarrow> command_error \<Rightarrow> string" where
  "failure_mail_body text error =
     (if text \<noteq> [] \<and> \<not> ends_with text [newline] then text @ [newline] else text)
     @ describe_error_chain (command_error_dyn error)"

text \<open>What follows a run that ended: the hook, the ping and the output.\<close>

definition finish_run ::
  "'e outside \<Rightarrow> string \<Rightarrow> settings \<Rightarrow> 'e command_lifecycle \<Rightarrow> command_result \<times> string \<Rightarrow> ('e, unit) life_step" where
  "finish_run x name st life outcome e =
     (case outcome of (result, output_text) \<Rightarrow>
        case result of
          Inr _ \<Rightarrow>
            bindE (when_some (ping_after_url (life_options life)) (ping x))
              (\<lambda>_. persist_output x (life_options life) st output_text (''Command completed: '' @ name) output_text)
              (run_hook (after_run (life_hooks life)) e)
        | Inl Interrupted \<Rightarrow> (Inl Interrupted, e)
        | Inl error \<Rightarrow>
            catchE (persist_output x (life_options life) st output_text (''Command failed: '' @ name)
                (failure_mail_body output_text error))
              (\<lambda>_. failE error) e)"

definition run_context :: "settings \<Rightarrow> lifecycle_options \<Rightarrow> ('e \<Rightarrow> bool) \<Rightarrow> int \<Rightarrow> 'e command_context" where
  "run_context st options cancel now =
     (let ctx = with_cancel cancel (new_context (new_output False) st)
      in case life_timeout options of
           Some timeout \<Rightarrow> with_deadline (deadline_after now timeout) ctx
         | None \<Rightarrow> ctx)"

text \<open>A run that waits for a command that does not end is \<open>None\<close>.\<close>

definition run_with_lifecycle ::
  "'e outside \<Rightarrow> 'e command \<Rightarrow> settings \<Rightarrow> 'e command_lifecycle \<Rightarrow> ('e \<Rightarrow> bool) \<Rightarrow> 'e \<Rightarrow>
     (command_result \<times> 'e) option" where
  "run_with_lifecycle x cmd st life cancel e =
     (case when_some (ping_before_url (life_options life)) (ping x) e of
        (Inl error, e1) \<Rightarrow> Some (Inl error, e1)
      | (Inr _, e1) \<Rightarrow>
          (let e2 = run_hook (before_run (life_hooks life)) e1;
               ctx = run_context st (life_options life) cancel (now_of x e2);
               (task, e3) = start_blocking x cmd ctx e2
           in case run_blocking (ctx_deadline ctx) task of
                None \<Rightarrow> None
              | Some (Inl error) \<Rightarrow> Some (Inl (command_error_of error), e3)
              | Some (Inr outcome) \<Rightarrow> Some (finish_run x (command_title cmd) st life outcome e3)))"

section \<open>Facts\<close>

lemma when_some_simps [simp]: "when_some None act = retE ()" "when_some (Some v) act = act v"
  by (simp_all add: when_some_def)

lemma run_context_deadline:
  "ctx_deadline (run_context st opts cancel now) = map_option (deadline_after now) (life_timeout opts)"
  by (simp add: run_context_def with_deadline_def with_cancel_def new_context_def Let_def split: option.split)

text \<open>With a time limit a run ends, whatever the command does.\<close>

lemma run_with_lifecycle_returns:
  assumes "life_timeout (life_options life) = Some t"
    and "\<And>e. instant_after (now_of x e) t + int ENFORCEMENT_GRACE \<le> instant_max"
  shows "run_with_lifecycle x cmd st life cancel e \<noteq> None"
proof -
  have "run_blocking (ctx_deadline (run_context st (life_options life) cancel (now_of x e2))) task \<noteq> None"
    for e2 task
    using run_blocking_returns [of "deadline_after (now_of x e2) t" task] assms
    by (auto simp: run_context_deadline deadline_after_def)
  then show ?thesis
    by (auto simp: run_with_lifecycle_def Let_def simp del: not_None_eq split: prod.split sum.split option.split)
qed

text \<open>The default lifecycle adds nothing to the run of the command.\<close>

lemma run_default_lifecycle:
  "run_with_lifecycle x cmd st default_lifecycle cancel e =
     (case start_blocking x cmd (with_cancel cancel (new_context (new_output False) st)) e of
        (task, e') \<Rightarrow>
          if task_end task = None then None
          else Some (case task_joined task of
              Inl error \<Rightarrow> (Inl (command_error_of (Panicked error)), e')
            | Inr (result, _) \<Rightarrow> (result, e')))"
  by (auto simp: run_with_lifecycle_def default_lifecycle_def default_options_def retE_def failE_def Let_def
      run_hook_def run_context_def run_blocking_def backstop_def new_context_def with_cancel_def finish_run_def
      bindE_def catchE_def persist_output_def split: prod.split sum.split command_error.split)

text \<open>A run whose first ping fails is that failure; neither the hook nor the command ran.\<close>

lemma failed_ping_runs_nothing:
  assumes "ping_before_url (life_options life) = Some url" "ping x url e = (Inl error, e')"
  shows "run_with_lifecycle x cmd st life cancel e = Some (Inl error, e')"
  using assms by (simp add: run_with_lifecycle_def)

text \<open>A failing command reports its own error, also when its output cannot be saved.\<close>

lemma finish_failed:
  assumes "error \<noteq> Interrupted"
  shows "finish_run x name st life (Inl error, text) e =
    (Inl error, snd (persist_output x (life_options life) st text (''Command failed: '' @ name)
       (failure_mail_body text error) e))"
  using assms by (cases error) (simp_all add: finish_run_def catchE_def failE_def split: prod.split)

lemma finish_interrupted: "finish_run x name st life (Inl Interrupted, text) e = (Inl Interrupted, e)"
  by (simp add: finish_run_def)

text \<open>A run succeeds exactly when its command does and the last ping and the saving do.\<close>

lemma finish_succeeds:
  "fst (finish_run x name st life (result, text) e) = Inr () \<longleftrightarrow>
     result = Inr () \<and>
     (\<exists>e1 e2. when_some (ping_after_url (life_options life)) (ping x) (run_hook (after_run (life_hooks life)) e) = (Inr (), e1)
       \<and> persist_output x (life_options life) st text (''Command completed: '' @ name) text e1 = (Inr (), e2))"
proof (cases result)
  case (Inl error)
  then show ?thesis by (cases "error = Interrupted") (simp_all add: finish_failed finish_interrupted)
next
  case (Inr u)
  then show ?thesis
    by (auto simp: finish_run_def bindE_def split: prod.split sum.split) (metis prod.collapse)
qed

text \<open>The outputs are saved in order, each only when the ones before it were.\<close>

lemma persist_output_Inr:
  "persist_output x opts st text subject body e = (Inr (), e3) \<longleftrightarrow>
     (\<exists>e1 e2. (case write_output_to opts of None \<Rightarrow> e1 = e | Some path \<Rightarrow> write_file x path text e = (Inr (), e1))
       \<and> when_some (append_output_to opts) (\<lambda>path. append_output x path text) e1 = (Inr (), e2)
       \<and> when_some (email_output_to opts) (\<lambda>address. send_email x (mail st) address subject body) e2 = (Inr (), e3))"
  by (auto simp: persist_output_def bindE_def map_errE_def retE_def when_some_def
      split: option.splits prod.splits sum.splits)

text \<open>A mail goes out only over the transport that the settings name, with a login only for a user name.\<close>

lemma mail_transport_Inr:
  assumes "mail_transport x st = Inr t"
  shows "transport_encryption t = mail_encryption st" "transport_host t = mail_host st"
    "transport_login t = Some (u, pw) \<Longrightarrow> u = mail_username st \<and> pw = mail_password st \<and> mail_username st \<noteq> []"
  using assms by (auto simp: mail_transport_def split: sum.splits mail_encryption.splits if_splits)

lemma send_email_sends:
  assumes "send_email x st to subject body e = (Inr (), e')"
  shows "\<exists>t email. mail_transport x st = Inr t \<and> send_mail x t email e = (Inr (), e')"
  using assms by (auto simp: send_email_def map_errE_def split: sum.splits prod.splits)

end
