(* ===== verification/Consumers.thy ===== *)
theory Consumers
  imports Processing Lifecycle
begin

text \<open>
  The queue consumers of the server (\<open>src/inengine-core/src/server/consumers.rs\<close>): opening a lane
  with retries, the recovery at the start, the loop of one consumer, and the settles that are
  tried again after a failure. The state is the stores with the outside world. While a consumer
  waits, others may act: \<open>server_sleep\<close> and \<open>server_select\<close> return the state they leave. Log
  lines are values of \<open>settle_log\<close> and \<open>lane_log\<close>.
\<close>

section \<open>The server\<close>

definition DEQUEUE_WAIT :: nat where
  "DEQUEUE_WAIT = 5000000000"

definition RETRY_DELAY :: nat where
  "RETRY_DELAY = 5000000000"

definition SHUTDOWN_SETTLE_RETRIES :: nat where
  "SHUTDOWN_SETTLE_RETRIES = 3"

definition SHUTDOWN_SETTLE_DELAY :: nat where
  "SHUTDOWN_SETTLE_DELAY = 500000000"

record consumer_timing =
  dequeue_wait :: nat
  retry_delay :: nat

definition default_timing :: consumer_timing where
  "default_timing = \<lparr>dequeue_wait = DEQUEUE_WAIT, retry_delay = RETRY_DELAY\<rparr>"

type_synonym ('s, 'e) server_state = "'s stores \<times> 'e"

text \<open>
  \<open>server_sleep\<close> is \<open>tokio::time::sleep\<close>; \<open>server_select\<close> waits for the token or the time, and says
  whether the token fired first; \<open>open_abandoned\<close> is the state when the token fires while a queue
  opens, or \<open>None\<close>; \<open>run_command\<close> is the run of a built command inside the default lifecycle, or
  \<open>None\<close> while the command does not return (\<open>lifecycle_run\<close> is that run, given what a lifecycle uses).
\<close>

record ('s, 'c, 'e) server =
  server_deps :: "'s queue_deps"
  server_packer :: packer
  server_registry :: "'c command_registry"
  server_settings :: settings
  server_timing :: consumer_timing
  server_dial :: "redis_connection \<Rightarrow> 's \<Rightarrow> (dyn_error + unit) \<times> 's"
  server_cancelled :: "'e \<Rightarrow> bool"
  server_sleep :: "nat \<Rightarrow> ('s, 'e) server_state \<Rightarrow> ('s, 'e) server_state"
  server_select :: "nat \<Rightarrow> ('s, 'e) server_state \<Rightarrow> bool \<times> ('s, 'e) server_state"
  open_abandoned :: "('s, 'e) server_state \<Rightarrow> ('s, 'e) server_state option"
  run_command :: "'c \<Rightarrow> 'e \<Rightarrow> (command_result \<times> 'e) option"

definition lifecycle_run ::
  "'e outside \<Rightarrow> settings \<Rightarrow> ('e \<Rightarrow> bool) \<Rightarrow> 'e command \<Rightarrow> 'e \<Rightarrow> (command_result \<times> 'e) option" where
  "lifecycle_run x st cancel command = run_with_lifecycle x command st default_lifecycle cancel"

definition consumer_count :: "queue_settings \<Rightarrow> queue_lane \<Rightarrow> nat" where
  "consumer_count st lane =
     (case lane of Primary \<Rightarrow> primary_queue_consumers st | Secondary \<Rightarrow> secondary_queue_consumers st)"

definition server_connect :: "('s, 'c, 'e) server \<Rightarrow> 's \<Rightarrow> (dyn_error + unit) \<times> 's" where
  "server_connect x = server_dial x (connection_info (redis_config (queue_config (server_settings x))))"

definition sleep_or_cancel ::
  "('s, 'c, 'e) server \<Rightarrow> nat \<Rightarrow> ('s, 'e) server_state \<Rightarrow> bool \<times> ('s, 'e) server_state" where
  "sleep_or_cancel x d = server_select x d"

section \<open>Opening a lane\<close>

definition open_server_queue ::
  "('s, 'c, 'e) server \<Rightarrow> queue_lane \<Rightarrow> ('s, 'e) server_state \<Rightarrow> (queue_error + backend) \<times> ('s, 'e) server_state" where
  "open_server_queue x lane = (\<lambda>(s, e).
     let st = queue_config (server_settings x);
         (r, s') = open_queue (server_connect x) (queue_driver_of st) (queue_name st) (base_path st) lane s
     in (r, (s', e)))"

partial_function (option) open_with_retry ::
  "('s, 'c, 'e) server \<Rightarrow> queue_lane \<Rightarrow> ('s, 'e) server_state \<Rightarrow> (backend option \<times> ('s, 'e) server_state) option" where
  "open_with_retry x lane v =
     (case open_abandoned x v of
        Some v' \<Rightarrow> Some (None, v')
      | None \<Rightarrow>
          (case open_server_queue x lane v of
             (Inr queue, v') \<Rightarrow> Some (Some queue, v')
           | (Inl error, v') \<Rightarrow>
               (case sleep_or_cancel x (retry_delay (server_timing x)) v' of
                  (fired, v'') \<Rightarrow> if fired then Some (None, v'') else open_with_retry x lane v'')))"

datatype lane_log = NotOpened | LaneRecovered nat | RecoverFailed queue_error | LeftFromEarlierRun nat | NothingInProgress
  | LengthsFailed queue_error

definition with_stores ::
  "('s stores \<Rightarrow> 'a \<times> 's stores) \<Rightarrow> ('s, 'e) server_state \<Rightarrow> 'a \<times> ('s, 'e) server_state" where
  "with_stores m v = (case m (fst v) of (r, s') \<Rightarrow> (r, (s', snd v)))"

definition report_in_progress ::
  "('s, 'c, 'e) server \<Rightarrow> backend \<Rightarrow> ('s, 'e) server_state \<Rightarrow> lane_log \<times> ('s, 'e) server_state" where
  "report_in_progress x queue v =
     (if recover_on_start (queue_config (server_settings x))
      then (case with_stores (queue_recover (server_deps x) queue) v of
              (Inr count, v') \<Rightarrow> (LaneRecovered count, v')
            | (Inl error, v') \<Rightarrow> (RecoverFailed error, v'))
      else (case with_stores (queue_lengths_of (server_deps x) queue) v of
              (Inr lengths, v') \<Rightarrow>
                (if len_in_progress lengths > 0 then LeftFromEarlierRun (len_in_progress lengths)
                 else NothingInProgress, v')
            | (Inl error, v') \<Rightarrow> (LengthsFailed error, v')))"

definition recover_or_report_in_progress ::
  "('s, 'c, 'e) server \<Rightarrow> queue_lane \<Rightarrow> ('s, 'e) server_state \<Rightarrow> (lane_log \<times> ('s, 'e) server_state) option" where
  "recover_or_report_in_progress x lane v =
     map_option (\<lambda>(opened, v').
         case opened of None \<Rightarrow> (NotOpened, v') | Some queue \<Rightarrow> report_in_progress x queue v')
       (open_with_retry x lane v)"

section \<open>Settling until done\<close>

datatype settle_log = LogOutcome settle_outcome | LogLost | LogRejected delivery | LogStaysInProgress delivery

text \<open>
  One turn of the loop of \<open>settle_until_done\<close>. \<open>Inl\<close> ends it with what is logged; \<open>Inr\<close> is the
  delivery to settle again and the retries used so far.
\<close>

definition settle_turn ::
  "('s, 'c, 'e) server \<Rightarrow> attempt_kind \<Rightarrow> nat \<Rightarrow> settle_error + settle_outcome \<Rightarrow> ('s, 'e) server_state \<Rightarrow>
     (settle_log + delivery \<times> nat) \<times> ('s, 'e) server_state" where
  "settle_turn x kind retries settled v =
     (case settled of
        Inr outcome \<Rightarrow> (Inl (LogOutcome outcome), v)
      | Inl Lost \<Rightarrow> (Inl LogLost, v)
      | Inl (Rejected d) \<Rightarrow> (Inl (LogRejected d), v)
      | Inl (SettleInterrupted d source) \<Rightarrow>
          (if kind = KInterrupted
           then (if Suc retries > SHUTDOWN_SETTLE_RETRIES then (Inl (LogStaysInProgress d), v)
                 else (Inr (d, Suc retries), server_sleep x SHUTDOWN_SETTLE_DELAY v))
           else (case sleep_or_cancel x (retry_delay (server_timing x)) v of
                   (fired, v') \<Rightarrow> if fired then (Inl (LogStaysInProgress d), v')
                                  else (Inr (d, retries), v'))))"

partial_function (option) settle_until_done ::
  "('s, 'c, 'e) server \<Rightarrow> backend \<Rightarrow> attempt_kind \<Rightarrow> nat \<Rightarrow> settle_error + settle_outcome \<Rightarrow>
     ('s, 'e) server_state \<Rightarrow> (settle_log \<times> ('s, 'e) server_state) option" where
  "settle_until_done x queue kind retries settled v =
     (case settle_turn x kind retries settled v of
        (Inl logged, v') \<Rightarrow> Some (logged, v')
      | (Inr (d, retries'), v') \<Rightarrow>
          (case with_stores (settle (server_deps x) queue d kind) v' of
             (settled', v'') \<Rightarrow> settle_until_done x queue kind retries' settled' v''))"

section \<open>One consumer\<close>

definition consumer_process ::
  "('s, 'c, 'e) server \<Rightarrow> backend \<Rightarrow> delivery \<Rightarrow> ('s, 'e) server_state \<Rightarrow>
     ((attempt \<times> settle_log) \<times> ('s, 'e) server_state) option" where
  "consumer_process x queue d v =
     (case process_delivery (server_deps x) (server_packer x) queue d (server_registry x)
             (server_cancelled x) (run_command x) v of
        None \<Rightarrow> None
      | Some (processed, v') \<Rightarrow>
          map_option (apfst (Pair (processed_attempt processed)))
            (settle_until_done x queue (kind_of (processed_attempt processed)) 0 (processed_settled processed) v'))"

text \<open>The loop of a consumer, with what it logged so far, until the token fires.\<close>

partial_function (option) consumer_loop ::
  "('s, 'c, 'e) server \<Rightarrow> backend \<Rightarrow> (attempt \<times> settle_log) list \<Rightarrow> ('s, 'e) server_state \<Rightarrow>
     ((attempt \<times> settle_log) list \<times> ('s, 'e) server_state) option" where
  "consumer_loop x queue logged v =
     (if server_cancelled x (snd v) then Some (logged, v)
      else case queue_dequeue (server_deps x) queue (dequeue_wait (server_timing x)) (fst v) of
          None \<Rightarrow> None
        | Some (Inr (Some d), s') \<Rightarrow>
            (case consumer_process x queue d (s', snd v) of
               None \<Rightarrow> None
             | Some (entry, v') \<Rightarrow> consumer_loop x queue (logged @ [entry]) v')
        | Some (Inr None, s') \<Rightarrow> consumer_loop x queue logged (s', snd v)
        | Some (Inl error, s') \<Rightarrow>
            (case sleep_or_cancel x (retry_delay (server_timing x)) (s', snd v) of
               (fired, v') \<Rightarrow> if fired then Some (logged, v') else consumer_loop x queue logged v'))"

definition consumer_run ::
  "('s, 'c, 'e) server \<Rightarrow> queue_lane \<Rightarrow> ('s, 'e) server_state \<Rightarrow>
     ((attempt \<times> settle_log) list \<times> ('s, 'e) server_state) option" where
  "consumer_run x lane v =
     (case open_with_retry x lane v of
        None \<Rightarrow> None
      | Some (None, v') \<Rightarrow> Some ([], v')
      | Some (Some queue, v') \<Rightarrow> consumer_loop x queue [] v')"

text \<open>
  The start of \<open>QueueConsumers::run\<close>: each lane with consumers is recovered or reported before its
  consumers are spawned. The result lists the spawned consumers; the tasks then run side by side.
\<close>

primrec start_consumers ::
  "('s, 'c, 'e) server \<Rightarrow> queue_lane list \<Rightarrow> ('s, 'e) server_state \<Rightarrow>
     ((queue_lane \<times> lane_log) list \<times> (queue_lane \<times> nat) list \<times> ('s, 'e) server_state) option" where
  "start_consumers x [] v = Some ([], [], v)"
| "start_consumers x (lane # lanes) v =
     (let count = consumer_count (queue_config (server_settings x)) lane
      in if count = 0 then start_consumers x lanes v
         else Option.bind (recover_or_report_in_progress x lane v) (\<lambda>(logged, v').
              map_option (\<lambda>(logs, spawned, v''). ((lane, logged) # logs, map (Pair lane) [0..<count] @ spawned, v''))
                (start_consumers x lanes v')))"

definition consumers_start ::
  "('s, 'c, 'e) server \<Rightarrow> ('s, 'e) server_state \<Rightarrow>
     ((queue_lane \<times> lane_log) list \<times> (queue_lane \<times> nat) list \<times> ('s, 'e) server_state) option" where
  "consumers_start x v = start_consumers x all_lanes v"

section \<open>Facts\<close>

lemma settle_until_done_ends:
  assumes "settle_turn x kind n settled v = (Inl logged, v')"
  shows "settle_until_done x q kind n settled v = Some (logged, v')"
  using assms by (subst settle_until_done.simps) simp

lemma settle_until_done_again:
  assumes "settle_turn x kind n settled v = (Inr (d, n'), v1)"
    and "with_stores (settle (server_deps x) q d kind) v1 = (settled', v2)"
  shows "settle_until_done x q kind n settled v = settle_until_done x q kind n' settled' v2"
  using assms by (subst settle_until_done.simps) simp

lemma settle_turn_retries:
  assumes "settle_turn x KInterrupted n settled v = (Inr (d, n'), v1)"
  shows "n' = Suc n" "n < SHUTDOWN_SETTLE_RETRIES" "v1 = server_sleep x SHUTDOWN_SETTLE_DELAY v"
  using assms by (auto simp: settle_turn_def split: sum.splits settle_error.splits if_splits prod.splits)

text \<open>
  The settles of a stopping server: \<open>settles\<close> lists the results of the settles that the loop
  makes. There are at most three, so the loop ends.
\<close>

inductive settles ::
  "('s, 'c, 'e) server \<Rightarrow> backend \<Rightarrow> attempt_kind \<Rightarrow> nat \<Rightarrow> settle_error + settle_outcome \<Rightarrow>
     ('s, 'e) server_state \<Rightarrow> (settle_error + settle_outcome) list \<Rightarrow> settle_log \<Rightarrow> ('s, 'e) server_state \<Rightarrow> bool" where
  settles_end: "settle_turn x kind n settled v = (Inl logged, v') \<Longrightarrow> settles x q kind n settled v [] logged v'"
| settles_again: "settle_turn x kind n settled v = (Inr (d, n'), v1) \<Longrightarrow>
    with_stores (settle (server_deps x) q d kind) v1 = (settled', v2) \<Longrightarrow>
    settles x q kind n' settled' v2 rs logged v' \<Longrightarrow> settles x q kind n settled v (settled' # rs) logged v'"

inductive_cases settles_Cons: "settles x q kind n settled v (r # rs) logged v'"

lemma settles_run: "settles x q kind n settled v rs logged v' \<Longrightarrow> settle_until_done x q kind n settled v = Some (logged, v')"
  by (induction rule: settles.induct) (simp_all add: settle_until_done_ends settle_until_done_again)

lemma shutdown_settles:
  "\<exists>rs logged v'. settles x q KInterrupted n settled v rs logged v' \<and> length rs \<le> SHUTDOWN_SETTLE_RETRIES - n"
proof (induction "SHUTDOWN_SETTLE_RETRIES - n" arbitrary: n settled v rule: less_induct)
  case less
  obtain t v1 where turn: "settle_turn x KInterrupted n settled v = (t, v1)" by (rule prod.exhaust)
  show ?case
  proof (cases t)
    case (Inl logged)
    then have "settles x q KInterrupted n settled v [] logged v1" using turn by (simp add: settles_end)
    then show ?thesis by (metis le0 list.size(3))
  next
    case (Inr p)
    obtain d n' where p: "p = (d, n')" by (cases p)
    note n' = settle_turn_retries [OF turn [unfolded Inr p]]
    obtain settled' v2 where s: "with_stores (settle (server_deps x) q d KInterrupted) v1 = (settled', v2)"
      by (rule prod.exhaust)
    obtain rs logged v' where "settles x q KInterrupted n' settled' v2 rs logged v'"
      "length rs \<le> SHUTDOWN_SETTLE_RETRIES - n'"
      using less [of n'] n'(1,2) by (metis diff_less_mono2 lessI)
    then have "settles x q KInterrupted n settled v (settled' # rs) logged v'"
      "length (settled' # rs) \<le> SHUTDOWN_SETTLE_RETRIES - n"
      using settles_again [OF turn [unfolded Inr p] s] n'(1,2) by simp_all
    then show ?thesis by blast
  qed
qed

lemma shutdown_settle_returns: "settle_until_done x q KInterrupted n settled v \<noteq> None"
  using shutdown_settles settles_run by (metis option.distinct(1))

text \<open>A settle that was interrupted hands back the delivery it was given; a release has already uncounted it.\<close>

lemma acknowledge_hands_back:
  "queue_acknowledge x q d s = (Inl (SettleInterrupted d' source), s') \<Longrightarrow> d' = d"
  by (auto simp: queue_acknowledge_def split: backend.splits receipt.splits if_splits prod.splits
      elim!: settle_result.elims)

lemma move_hands_back:
  "queue_move_claimed x q d t s = (Inl (SettleInterrupted d' source), s') \<Longrightarrow> d' = d"
  by (auto simp: queue_move_claimed_def split: backend.splits receipt.splits if_splits prod.splits
      elim!: settle_result.elims)

lemma map_sum_id_Inl [simp]: "map_sum id g r = Inl y \<longleftrightarrow> r = Inl y"
  by (cases r) auto

lemma settle_hands_back:
  assumes "settle x q d kind s = (Inl (SettleInterrupted d' source), s')"
  shows "d' = (if for_attempt kind (envelope d) = Release then uncount_attempt d else d)"
  using assms
  by (auto simp: settle_def queue_retry_def queue_move_to_failed_def queue_release_def apfst_def map_prod_def
      split: settle_action.splits prod.splits sum.splits dest: acknowledge_hands_back move_hands_back)

lemma kinterrupted_release [simp]: "for_attempt KInterrupted env = Release"
  by (simp add: for_attempt.simps)

text \<open>The second try of a release that failed stores an attempt count that is two lower.\<close>

lemma second_release_law:
  assumes first: "settle (server_deps x) q d KInterrupted s0 = (Inl (SettleInterrupted d' source), s1)"
    and wait: "server_sleep x SHUTDOWN_SETTLE_DELAY (s1, e) = (s, e')"
    and inv: "queue_inv (server_deps x) stored calm q s" and own: "delivery_lane d = queue_lane_of q"
    and good: "queue_receipt q (delivery_receipt d)"
    and there: "delivery_receipt d \<in> receipts (queue_view stored q s)"
    and enc: "queue_enc (server_deps x) q (envelope (uncount_attempt (uncount_attempt d))) = Inr b"
  shows "\<exists>s'. settle_until_done x q KInterrupted 0 (Inl (SettleInterrupted d' source)) (s1, e) =
      Some (LogOutcome Released, (s', e'))
    \<and> queue_view stored q s' = lane_put Pending b (lane_drop (delivery_receipt d) (queue_view stored q s))"
proof -
  have d': "d' = uncount_attempt d" using settle_hands_back [OF first] by simp
  have "\<exists>s'. settle (server_deps x) q d' KInterrupted s = (Inr Released, s')
      \<and> queue_view stored q s' = lane_put Pending b (lane_drop (delivery_receipt d) (queue_view stored q s))"
    using settle_law [of "server_deps x" stored calm q s d' KInterrupted b] inv own good there enc
    by (auto simp: d' settled_envelope_def lane_settle_def)
  then obtain s' where s': "settle (server_deps x) q d' KInterrupted s = (Inr Released, s')"
    "queue_view stored q s' = lane_put Pending b (lane_drop (delivery_receipt d) (queue_view stored q s))"
    by blast
  have "settle_turn x KInterrupted 0 (Inl (SettleInterrupted d' source)) (s1, e) = (Inr (d', 1), (s, e'))"
    using wait by (simp add: settle_turn_def SHUTDOWN_SETTLE_RETRIES_def)
  moreover have "with_stores (settle (server_deps x) q d' KInterrupted) (s, e') = (Inr Released, (s', e'))"
    using s'(1) by (simp add: with_stores_def)
  ultimately have "settle_until_done x q KInterrupted 0 (Inl (SettleInterrupted d' source)) (s1, e) =
      settle_until_done x q KInterrupted 1 (Inr Released) (s', e')"
    by (rule settle_until_done_again)
  also have "\<dots> = Some (LogOutcome Released, (s', e'))"
    by (rule settle_until_done_ends) (simp add: settle_turn_def)
  finally show ?thesis using s'(2) by blast
qed

lemma start_skips_idle_lane:
  "consumer_count (queue_config (server_settings x)) lane = 0 \<Longrightarrow>
     start_consumers x (lane # lanes) v = start_consumers x lanes v"
  by simp

end
