(* ===== verification/Limiter.thy ===== *)
theory Limiter
  imports Errors
begin

text \<open>
  The memory budget of a plugin call (\<open>src/inengine-core/src/plugin/limiter.rs\<close>). The limiter of a
  store is told of each growth of a linear memory or a table before it happens. The arithmetic is
  that of \<open>usize\<close>, 64 bits wide. \<open>limiter_step\<close> is what the engine documents of its calls: it asks
  before it grows one memory or table, grows it only when allowed, and reports an allowed growth
  of a memory that then failed.
\<close>

section \<open>The limiter\<close>

definition TABLE_ELEMENTS_LIMIT :: u64 where
  "TABLE_ELEMENTS_LIMIT = 100000"

definition INSTANCE_COUNT_LIMIT :: u64 where
  "INSTANCE_COUNT_LIMIT = 32"

datatype memory_limit_exceeded = MemoryLimitExceeded (limit_bytes: u64)

fun memory_limit_exceeded_dyn :: "memory_limit_exceeded \<Rightarrow> dyn_error" where
  "memory_limit_exceeded_dyn (MemoryLimitExceeded limit) =
     DynError (''plugin memory would grow past its limit of '' @ show_nat (unat (limit div 1048576)) @ '' MiB'') None"

record plugin_limiter =
  memory_limit_bytes :: u64
  memory_used :: u64
  last_memory_growth :: u64
  table_elements :: u64

definition new_limiter :: "u64 \<Rightarrow> plugin_limiter" where
  "new_limiter limit =
     \<lparr>memory_limit_bytes = limit, memory_used = 0, last_memory_growth = 0, table_elements = 0\<rparr>"

definition sat_add_u64 :: "u64 \<Rightarrow> u64 \<Rightarrow> u64" where
  "sat_add_u64 a b = (if a + b < a then - 1 else a + b)"

definition sat_sub_u64 :: "u64 \<Rightarrow> u64 \<Rightarrow> u64" where
  "sat_sub_u64 a b = (if a < b then 0 else a - b)"

definition memory_growing ::
  "u64 \<Rightarrow> u64 \<Rightarrow> u64 option \<Rightarrow> plugin_limiter \<Rightarrow> (memory_limit_exceeded + bool) \<times> plugin_limiter" where
  "memory_growing current desired maximum l =
     (if (case maximum of Some m \<Rightarrow> desired > m | None \<Rightarrow> False) then (Inr False, l)
      else let total = sat_add_u64 (sat_sub_u64 (memory_used l) current) desired
           in if total > memory_limit_bytes l then (Inl (MemoryLimitExceeded (memory_limit_bytes l)), l)
              else (Inr True, l\<lparr>last_memory_growth := total - min (memory_used l) total,
                                memory_used := total\<rparr>))"

definition memory_grow_failed :: "plugin_limiter \<Rightarrow> plugin_limiter" where
  "memory_grow_failed l =
     l\<lparr>memory_used := memory_used l - last_memory_growth l, last_memory_growth := 0\<rparr>"

definition table_growing ::
  "u64 \<Rightarrow> u64 \<Rightarrow> u64 option \<Rightarrow> plugin_limiter \<Rightarrow> (memory_limit_exceeded + bool) \<times> plugin_limiter" where
  "table_growing current desired maximum l =
     (if (case maximum of Some m \<Rightarrow> desired > m | None \<Rightarrow> False) then (Inr False, l)
      else let total = sat_add_u64 (sat_sub_u64 (table_elements l) current) desired
           in if total > TABLE_ELEMENTS_LIMIT then (Inr False, l)
              else (Inr True, l\<lparr>table_elements := total\<rparr>))"

section \<open>A store with several memories and tables\<close>

record plugin_store =
  store_limiter :: plugin_limiter
  memories :: "u64 list"
  tables :: "u64 list"

definition new_plugin_store :: "u64 \<Rightarrow> plugin_store" where
  "new_plugin_store limit = \<lparr>store_limiter = new_limiter limit, memories = [], tables = []\<rparr>"

inductive limiter_step :: "plugin_store \<Rightarrow> plugin_store \<Rightarrow> bool" where
  new_memory: "memory_growing 0 desired maximum (store_limiter s) = (Inr True, l) \<Longrightarrow>
    limiter_step s (s\<lparr>store_limiter := l, memories := memories s @ [desired]\<rparr>)"
| new_memory_failed: "memory_growing 0 desired maximum (store_limiter s) = (Inr True, l) \<Longrightarrow>
    limiter_step s (s\<lparr>store_limiter := memory_grow_failed l\<rparr>)"
| memory_grown: "i < length (memories s) \<Longrightarrow> memories s ! i \<le> desired \<Longrightarrow>
    memory_growing (memories s ! i) desired maximum (store_limiter s) = (Inr True, l) \<Longrightarrow>
    limiter_step s (s\<lparr>store_limiter := l, memories := (memories s)[i := desired]\<rparr>)"
| memory_failed: "i < length (memories s) \<Longrightarrow> memories s ! i \<le> desired \<Longrightarrow>
    memory_growing (memories s ! i) desired maximum (store_limiter s) = (Inr True, l) \<Longrightarrow>
    limiter_step s (s\<lparr>store_limiter := memory_grow_failed l\<rparr>)"
| memory_refused: "memory_growing current desired maximum (store_limiter s) = (r, l) \<Longrightarrow>
    r \<noteq> Inr True \<Longrightarrow> limiter_step s (s\<lparr>store_limiter := l\<rparr>)"
| new_table: "table_growing 0 desired maximum (store_limiter s) = (Inr True, l) \<Longrightarrow>
    limiter_step s (s\<lparr>store_limiter := l, tables := tables s @ [desired]\<rparr>)"
| table_grown: "i < length (tables s) \<Longrightarrow> tables s ! i \<le> desired \<Longrightarrow>
    table_growing (tables s ! i) desired maximum (store_limiter s) = (Inr True, l) \<Longrightarrow>
    limiter_step s (s\<lparr>store_limiter := l, tables := (tables s)[i := desired]\<rparr>)"
| table_failed: "i < length (tables s) \<Longrightarrow> tables s ! i \<le> desired \<Longrightarrow>
    table_growing (tables s ! i) desired maximum (store_limiter s) = (Inr True, l) \<Longrightarrow>
    limiter_step s (s\<lparr>store_limiter := l\<rparr>)"
| table_refused: "table_growing current desired maximum (store_limiter s) = (r, l) \<Longrightarrow>
    r \<noteq> Inr True \<Longrightarrow> limiter_step s (s\<lparr>store_limiter := l\<rparr>)"

section \<open>The budget covers all memories together\<close>

definition total_size :: "u64 list \<Rightarrow> nat" where
  "total_size ms = sum_list (map unat ms)"

lemma total_size_simps [simp]:
  "total_size [] = 0" "total_size (ms @ [m]) = total_size ms + unat m"
  by (simp_all add: total_size_def)

lemma total_size_nth: "i < length ms \<Longrightarrow> unat (ms ! i) \<le> total_size ms"
  by (simp add: total_size_def member_le_sum_list)

lemma total_size_update:
  "i < length ms \<Longrightarrow> total_size (ms[i := m]) = total_size ms - unat (ms ! i) + unat m"
  using total_size_nth [of i ms] unfolding total_size_def map_update by (simp add: sum_list_update)

lemma unat_lt_64: "unat (a :: u64) < 2 ^ 64"
  using unsigned_less [of a] by simp

lemma unat_sat_add: "unat (sat_add_u64 a b) = min (unat a + unat b) (2 ^ 64 - 1)"
proof (cases "unat a + unat b < 2 ^ 64")
  case True
  then have "unat (a + b) = unat a + unat b" by (simp add: unat_word_ariths)
  then show ?thesis using True by (simp add: sat_add_u64_def word_less_nat_alt)
next
  case False
  have "unat (a + b) = unat a + unat b - 2 ^ 64"
    using False unat_lt_64 [of a] unat_lt_64 [of b] by (simp add: unat_word_ariths le_mod_geq)
  then have "unat (a + b) < unat a" using False unat_lt_64 [of b] by simp
  then show ?thesis using False
    by (simp add: sat_add_u64_def word_less_nat_alt unsigned_minus_1_eq_mask mask_eq_exp_minus_1)
qed

lemma unat_sat_sub: "unat (sat_sub_u64 a b) = unat a - unat b"
  by (simp add: sat_sub_u64_def word_less_nat_alt unat_sub word_le_nat_alt)

text \<open>An allowed growth keeps the count exact and within the limit, and remembers what it added.\<close>

lemma memory_growing_True:
  assumes "memory_growing c d mx l = (Inr True, l')" "unat c \<le> unat (memory_used l)" "c \<le> d"
    and "unat (memory_limit_bytes l) < 2 ^ 64 - 1"
  shows "unat (memory_used l') = unat (memory_used l) - unat c + unat d"
    and "unat (last_memory_growth l') = unat d - unat c"
    and "memory_used l' \<le> memory_limit_bytes l" "memory_limit_bytes l' = memory_limit_bytes l"
    and "table_elements l' = table_elements l"
proof -
  let ?t = "sat_add_u64 (sat_sub_u64 (memory_used l) c) d"
  have l': "l' = l\<lparr>last_memory_growth := ?t - min (memory_used l) ?t, memory_used := ?t\<rparr>"
    and le: "?t \<le> memory_limit_bytes l"
    using assms(1) by (auto simp: memory_growing_def Let_def not_less split: option.splits if_splits)
  have t: "unat ?t = unat (memory_used l) - unat c + unat d"
    using le assms(4) by (auto simp: unat_sat_add unat_sat_sub word_le_nat_alt min_def split: if_splits)
  have ge: "memory_used l \<le> ?t"
    using t assms(2,3) by (simp add: word_le_nat_alt)
  show "unat (memory_used l') = unat (memory_used l) - unat c + unat d"
    and "memory_used l' \<le> memory_limit_bytes l" "memory_limit_bytes l' = memory_limit_bytes l"
    "table_elements l' = table_elements l"
    using t le by (simp_all add: l')
  have "unat (?t - memory_used l) = unat ?t - unat (memory_used l)"
    using ge by (simp add: unat_sub)
  then show "unat (last_memory_growth l') = unat d - unat c"
    using ge t assms(2,3) by (simp add: l' min_def word_le_nat_alt)
qed

lemma table_growing_True:
  assumes "table_growing c d mx l = (Inr True, l')"
  shows "unat (table_elements l') = unat (table_elements l) - unat c + unat d"
    and "unat (table_elements l') \<le> 100000"
    and "memory_used l' = memory_used l" "memory_limit_bytes l' = memory_limit_bytes l"
proof -
  let ?t = "sat_add_u64 (sat_sub_u64 (table_elements l) c) d"
  have l': "l' = l\<lparr>table_elements := ?t\<rparr>" and le: "?t \<le> TABLE_ELEMENTS_LIMIT"
    using assms by (auto simp: table_growing_def Let_def not_less split: option.splits if_splits)
  then show "unat (table_elements l') \<le> 100000"
    "memory_used l' = memory_used l" "memory_limit_bytes l' = memory_limit_bytes l"
    by (simp_all add: TABLE_ELEMENTS_LIMIT_def word_le_nat_alt)
  then show "unat (table_elements l') = unat (table_elements l) - unat c + unat d"
    by (auto simp: l' unat_sat_add unat_sat_sub min_def split: if_splits)
qed

lemma growing_refused:
  assumes "memory_growing c d mx l = (r, l')" "r \<noteq> Inr True"
  shows "l' = l"
  using assms by (auto simp: memory_growing_def Let_def split: if_splits option.splits)

lemma table_refused_keeps:
  assumes "table_growing c d mx l = (r, l')" "r \<noteq> Inr True"
  shows "l' = l"
  using assms by (auto simp: table_growing_def Let_def split: if_splits option.splits)

definition budget_ok :: "u64 \<Rightarrow> plugin_store \<Rightarrow> bool" where
  "budget_ok limit s =
     (memory_limit_bytes (store_limiter s) = limit
      \<and> unat (memory_used (store_limiter s)) = total_size (memories s)
      \<and> total_size (memories s) \<le> unat limit
      \<and> total_size (tables s) \<le> unat (table_elements (store_limiter s))
      \<and> unat (table_elements (store_limiter s)) \<le> 100000)"

lemma budget_new: "budget_ok limit (new_plugin_store limit)"
  by (simp add: budget_ok_def new_plugin_store_def new_limiter_def)

text \<open>A growth that fails after it was allowed gives exactly its bytes back.\<close>

lemma grow_failed_restores:
  assumes "memory_growing c d mx l = (Inr True, l')" "unat c \<le> unat (memory_used l)" "c \<le> d"
    and "unat (memory_limit_bytes l) < 2 ^ 64 - 1"
  shows "memory_used (memory_grow_failed l') = memory_used l"
proof -
  note g = memory_growing_True [OF assms]
  have "unat c \<le> unat d" using assms(3) by (simp add: word_le_nat_alt)
  then have "last_memory_growth l' \<le> memory_used l'"
    using g(1,2) by (simp add: word_le_nat_alt)
  then have "unat (memory_used l' - last_memory_growth l') = unat (memory_used l)"
    using g(1,2) assms(2) \<open>unat c \<le> unat d\<close> by (simp add: unat_sub)
  then show ?thesis by (simp add: memory_grow_failed_def word_unat_eq_iff)
qed

lemma limiter_step_budget:
  assumes "limiter_step s s'" "budget_ok limit s" "unat limit < 2 ^ 64 - 1"
  shows "budget_ok limit s'"
  using assms
proof (induction rule: limiter_step.induct)
  case (new_memory desired maximum s l)
  then show ?case
    using memory_growing_True [OF new_memory(1)]
    by (auto simp: budget_ok_def word_le_nat_alt)
next
  case (new_memory_failed desired maximum s l)
  then show ?case
    using grow_failed_restores [OF new_memory_failed(1)] memory_growing_True [OF new_memory_failed(1)]
    by (auto simp: budget_ok_def memory_grow_failed_def)
next
  case (memory_grown i s desired maximum l)
  have "unat (memories s ! i) \<le> unat (memory_used (store_limiter s))"
    using memory_grown total_size_nth by (simp add: budget_ok_def)
  then show ?case
    using memory_grown memory_growing_True [OF memory_grown(3)]
    by (auto simp: budget_ok_def word_le_nat_alt total_size_update)
next
  case (memory_failed i s desired maximum l)
  have "unat (memories s ! i) \<le> unat (memory_used (store_limiter s))"
    using memory_failed total_size_nth by (simp add: budget_ok_def)
  then show ?case
    using memory_failed grow_failed_restores [OF memory_failed(3)] memory_growing_True [OF memory_failed(3)]
    by (auto simp: budget_ok_def memory_grow_failed_def)
next
  case (memory_refused current desired maximum s r l)
  then show ?case using growing_refused by fastforce
next
  case (new_table desired maximum s l)
  then show ?case using table_growing_True [OF new_table(1)] by (auto simp: budget_ok_def)
next
  case (table_grown i s desired maximum l)
  have "unat (tables s ! i) \<le> unat (table_elements (store_limiter s))"
    using table_grown total_size_nth [of i "tables s"] by (simp add: budget_ok_def)
  then show ?case
    using table_grown table_growing_True [OF table_grown(3)] total_size_nth [of i "tables s"]
    by (auto simp: budget_ok_def total_size_update)
next
  case (table_failed i s desired maximum l)
  have "unat (tables s ! i) \<le> unat (table_elements (store_limiter s))"
    using table_failed total_size_nth [of i "tables s"] by (simp add: budget_ok_def)
  then show ?case
    using table_failed table_growing_True [OF table_failed(3)]
    by (auto simp: budget_ok_def word_le_nat_alt)
next
  case (table_refused current desired maximum s r l)
  then show ?case using table_refused_keeps by fastforce
qed

lemma limiter_reachable_budget:
  assumes "limiter_step\<^sup>*\<^sup>* (new_plugin_store limit) s" "unat limit < 2 ^ 64 - 1"
  shows "budget_ok limit s"
  using assms by (induction rule: rtranclp_induct) (auto intro: budget_new limiter_step_budget)

end
