(* ===== verification/Scheduling.thy ===== *)
theory Scheduling
  imports Lifecycle
begin

text \<open>
  Scheduled jobs (\<open>src/inengine-core/src/scheduling/\<close>): building a job from a cron expression, the
  schedule, and the loop that runs a job at its fire times. The cron crate is a parameter: its
  parser \<open>parse\<close> yields a value of \<open>'k\<close> or an error text, and \<open>upcoming\<close> its next fire time.
\<close>

section \<open>Building jobs\<close>

datatype schedule_error = InvalidCron string string

fun schedule_error_dyn :: "schedule_error \<Rightarrow> dyn_error" where
  "schedule_error_dyn (InvalidCron expression reason) =
     DynError (''invalid cron expression '' @ [CHR 0x27] @ expression @ [CHR 0x27] @ '': '' @ reason) None"

record ('e, 'k) scheduled_job =
  job_command :: "'e command"
  job_name :: string
  cron_expression :: string
  cron_schedule :: 'k
  job_lifecycle :: "'e command_lifecycle"

record 'e unscheduled_job =
  un_command :: "'e command"
  un_name :: string

type_synonym ('e, 'k) schedule = "('e, 'k) scheduled_job list"

text \<open>\<open>str::lines\<close>: a line ends at a newline, and a carriage return before that newline is dropped.\<close>

definition strip_return :: "string \<Rightarrow> string" where
  "strip_return l = (if l \<noteq> [] \<and> last l = CHR 0x0D then butlast l else l)"

function str_lines :: "string \<Rightarrow> string list" where
  "str_lines s =
     (if s = [] then []
      else case split_once newline s of
          None \<Rightarrow> [s]
        | Some (l, rest) \<Rightarrow> strip_return l # str_lines rest)"
  by pat_completeness auto
termination
  by (relation "measure length") (auto simp: split_once_Some)

declare str_lines.simps [simp del]

definition last_line :: "string \<Rightarrow> string" where
  "last_line message = trim (if str_lines message = [] then message else last (str_lines message))"

definition cron ::
  "(string \<Rightarrow> string + 'k) \<Rightarrow> string \<Rightarrow> 'e unscheduled_job \<Rightarrow> schedule_error + ('e, 'k) scheduled_job" where
  "cron parse expression job =
     (case parse expression of
        Inl text \<Rightarrow> Inl (InvalidCron expression (last_line text))
      | Inr k \<Rightarrow> Inr \<lparr>job_command = un_command job, job_name = un_name job, cron_expression = expression,
                      cron_schedule = k, job_lifecycle = default_lifecycle\<rparr>)"

definition every_second where "every_second parse = cron parse ''* * * * * *''"
definition every_minute where "every_minute parse = cron parse ''0 * * * * *''"
definition every_five_minutes where "every_five_minutes parse = cron parse ''0 */5 * * * *''"
definition every_ten_minutes where "every_ten_minutes parse = cron parse ''0 */10 * * * *''"
definition every_fifteen_minutes where "every_fifteen_minutes parse = cron parse ''0 */15 * * * *''"
definition every_thirty_minutes where "every_thirty_minutes parse = cron parse ''0 */30 * * * *''"
definition hourly where "hourly parse = cron parse ''0 0 * * * *''"
definition daily where "daily parse = cron parse ''0 0 0 * * *''"

definition hourly_at ::
  "(string \<Rightarrow> string + 'k) \<Rightarrow> u32 \<Rightarrow> 'e unscheduled_job \<Rightarrow> schedule_error + ('e, 'k) scheduled_job" where
  "hourly_at parse minutes = cron parse (''0 '' @ show_nat (unat minutes) @ '' * * * *'')"

definition daily_at ::
  "(string \<Rightarrow> string + 'k) \<Rightarrow> u32 \<Rightarrow> u32 \<Rightarrow> 'e unscheduled_job \<Rightarrow> schedule_error + ('e, 'k) scheduled_job" where
  "daily_at parse hours minutes =
     cron parse (''0 '' @ show_nat (unat minutes) @ '' '' @ show_nat (unat hours) @ '' * * *'')"

text \<open>The builder methods of a job change one field of its lifecycle.\<close>

definition update_options ::
  "(lifecycle_options \<Rightarrow> lifecycle_options) \<Rightarrow> ('e, 'k) scheduled_job \<Rightarrow> ('e, 'k) scheduled_job" where
  "update_options f job =
     job\<lparr>job_lifecycle := (job_lifecycle job)\<lparr>life_options := f (life_options (job_lifecycle job))\<rparr>\<rparr>"

definition update_hooks ::
  "('e lifecycle_hooks \<Rightarrow> 'e lifecycle_hooks) \<Rightarrow> ('e, 'k) scheduled_job \<Rightarrow> ('e, 'k) scheduled_job" where
  "update_hooks f job =
     job\<lparr>job_lifecycle := (job_lifecycle job)\<lparr>life_hooks := f (life_hooks (job_lifecycle job))\<rparr>\<rparr>"

definition ping_before where "ping_before url = update_options (\<lambda>opts. opts\<lparr>ping_before_url := Some url\<rparr>)"
definition ping_after where "ping_after url = update_options (\<lambda>opts. opts\<lparr>ping_after_url := Some url\<rparr>)"
definition job_write_output_to where "job_write_output_to path = update_options (\<lambda>opts. opts\<lparr>write_output_to := Some path\<rparr>)"
definition job_append_output_to where "job_append_output_to path = update_options (\<lambda>opts. opts\<lparr>append_output_to := Some path\<rparr>)"
definition job_email_output_to where "job_email_output_to address = update_options (\<lambda>opts. opts\<lparr>email_output_to := Some address\<rparr>)"
definition job_timeout where "job_timeout d = update_options (\<lambda>opts. opts\<lparr>life_timeout := Some d\<rparr>)"
definition job_before_run where "job_before_run f = update_hooks (\<lambda>hooks. hooks\<lparr>before_run := Some f\<rparr>)"
definition job_after_run where "job_after_run f = update_hooks (\<lambda>hooks. hooks\<lparr>after_run := Some f\<rparr>)"

definition new_schedule :: "('e, 'k) schedule" where
  "new_schedule = []"

definition command_with_name :: "string \<Rightarrow> 'e command \<Rightarrow> 'e unscheduled_job" where
  "command_with_name name cmd = \<lparr>un_command = cmd, un_name = name\<rparr>"

definition schedule_command :: "'e command \<Rightarrow> 'e unscheduled_job" where
  "schedule_command cmd = command_with_name (command_title cmd) cmd"

definition schedule_commands :: "'e command list \<Rightarrow> 'e unscheduled_job" where
  "schedule_commands cmds = command_with_name ''chain'' (chain_command cmds)"

definition add_job :: "('e, 'k) scheduled_job \<Rightarrow> ('e, 'k) schedule \<Rightarrow> ('e, 'k) schedule" where
  "add_job job jobs = jobs @ [job]"

section \<open>The loop of a job\<close>

text \<open>
  \<open>utc_now\<close> is the UTC clock; \<open>select_sleep\<close> sleeps unless the token fires first, and says whether it
  did. Times are nanoseconds.
\<close>

record ('e, 'k) scheduler =
  sched_outside :: "'e outside"
  sched_settings :: settings
  sched_cancelled :: "'e \<Rightarrow> bool"
  upcoming :: "'k \<Rightarrow> 'e \<Rightarrow> int option"
  utc_now :: "'e \<Rightarrow> int"
  select_sleep :: "nat \<Rightarrow> 'e \<Rightarrow> bool \<times> 'e"

text \<open>The log of a job: each run's fire time and result.\<close>

partial_function (option) run_job ::
  "('e, 'k) scheduler \<Rightarrow> ('e, 'k) scheduled_job \<Rightarrow> (int \<times> command_result) list \<Rightarrow> 'e \<Rightarrow>
     ((int \<times> command_result) list \<times> 'e) option" where
  "run_job sc job logged e =
     (case upcoming sc (cron_schedule job) e of
        None \<Rightarrow> Some (logged, e)
      | Some next_time \<Rightarrow>
          (case select_sleep sc (nat (next_time - utc_now sc e)) e of
             (fired, e1) \<Rightarrow>
               if fired then Some (logged, e1)
               else (case run_with_lifecycle (sched_outside sc) (job_command job) (sched_settings sc)
                           (job_lifecycle job) (sched_cancelled sc) e1 of
                   None \<Rightarrow> None
                 | Some (result, e2) \<Rightarrow> run_job sc job (logged @ [(next_time, result)]) e2)))"

section \<open>Facts\<close>

lemma cron_Inr:
  "cron parse expression job = Inr j \<longleftrightarrow>
     (\<exists>k. parse expression = Inr k \<and> j = \<lparr>job_command = un_command job, job_name = un_name job,
        cron_expression = expression, cron_schedule = k, job_lifecycle = default_lifecycle\<rparr>)"
  by (auto simp: cron_def split: sum.split)

text \<open>A run, failed or not, does not end the loop.\<close>

lemma run_job_step:
  assumes "upcoming x (cron_schedule job) e = Some t" "select_sleep x (nat (t - utc_now x e)) e = (False, e1)"
    and "run_with_lifecycle (sched_outside x) (job_command job) (sched_settings x)
      (job_lifecycle job) (sched_cancelled x) e1 = Some (result, e2)"
  shows "run_job x job logged e = run_job x job (logged @ [(t, result)]) e2"
  using assms by (subst run_job.simps) simp

text \<open>
  What the job relies on: \<open>upcoming\<close> looks after now, a sleep that is not cut short lasts its
  duration, and the clock does not go back.
\<close>

definition clock_ok :: "('e, 'k) scheduler \<Rightarrow> ('e, 'k) scheduled_job \<Rightarrow> bool" where
  "clock_ok x job =
     ((\<forall>k e t. upcoming x k e = Some t \<longrightarrow> utc_now x e < t)
      \<and> (\<forall>d e e'. select_sleep x d e = (False, e') \<longrightarrow> utc_now x e + int d \<le> utc_now x e')
      \<and> (\<forall>e e' r. run_with_lifecycle (sched_outside x) (job_command job) (sched_settings x)
            (job_lifecycle job) (sched_cancelled x) e = Some (r, e') \<longrightarrow> utc_now x e \<le> utc_now x e'))"

definition log_ok :: "('e, 'k) scheduler \<Rightarrow> (int \<times> command_result) list \<Rightarrow> 'e \<Rightarrow> bool" where
  "log_ok x logged e = (sorted_wrt (<) (map fst logged) \<and> (\<forall>t \<in> fst ` set logged. t \<le> utc_now x e))"

lemma run_job_log:
  assumes "run_job x job logged e = Some (logged', e')" "clock_ok x job" "log_ok x logged e"
  shows "sorted_wrt (<) (map fst logged') \<and> prefix logged logged'"
proof -
  let ?P = "\<lambda>x job logged e y. clock_ok x job \<longrightarrow> log_ok x logged e \<longrightarrow>
    sorted_wrt (<) (map fst (fst y)) \<and> prefix logged (fst y)"
  have "?P x job logged e (logged', e')"
  proof (rule run_job.raw_induct [where P = ?P, OF _ assms(1)])
    fix loop and x :: "('e, 'k) scheduler" and job logged e y
    assume IH: "\<And>job logged e b y. loop job logged e b = Some y \<Longrightarrow> ?P job logged e b y"
      and step: "(case upcoming x (cron_schedule job) e of
        None \<Rightarrow> Some (logged, e)
      | Some next_time \<Rightarrow>
          (case select_sleep x (nat (next_time - utc_now x e)) e of
             (fired, e1) \<Rightarrow>
               if fired then Some (logged, e1)
               else (case run_with_lifecycle (sched_outside x) (job_command job) (sched_settings x)
                           (job_lifecycle job) (sched_cancelled x) e1 of
                   None \<Rightarrow> None
                 | Some (result, e2) \<Rightarrow> loop x job (logged @ [(next_time, result)]) e2))) = Some y"
    show "?P x job logged e y"
    proof (intro impI)
      assume ok: "clock_ok x job" and log: "log_ok x logged e"
      show "sorted_wrt (<) (map fst (fst y)) \<and> prefix logged (fst y)"
      proof (cases "y = (logged, e) \<or> (\<exists>e1. y = (logged, e1))")
        case True
        then show ?thesis using log by (auto simp: log_ok_def)
      next
        case False
        then obtain t e1 r e2 where run: "upcoming x (cron_schedule job) e = Some t"
          "select_sleep x (nat (t - utc_now x e)) e = (False, e1)"
          "run_with_lifecycle (sched_outside x) (job_command job) (sched_settings x)
             (job_lifecycle job) (sched_cancelled x) e1 = Some (r, e2)"
          "loop x job (logged @ [(t, r)]) e2 = Some y"
          using step by (auto split: option.splits prod.splits if_splits)
        have t: "utc_now x e < t" "t \<le> utc_now x e1" "utc_now x e1 \<le> utc_now x e2"
          using ok run unfolding clock_ok_def by force+
        then have "log_ok x (logged @ [(t, r)]) e2"
          using log by (fastforce simp: log_ok_def sorted_wrt_append)
        then show ?thesis using IH [OF run(4)] ok by (auto dest: append_prefixD)
      qed
    qed
  qed
  then show ?thesis using assms(2,3) by simp
qed

end
