(* ===== verification/Plugins.thy ===== *)
theory Plugins
  imports Registry Limiter Scheduling
begin

text \<open>
  WebAssembly plugins (\<open>src/inengine-core/src/plugin/\<close>): the interrupts of a running call, a plugin
  command with its deadline and the classification of its failures, and the loader. The engine is
  third-party: \<open>plugin_host\<close> holds its calls on components of type \<open>'m\<close>, and a \<open>wasm_error\<close> shows what
  the sources ask an engine error for.
\<close>

section \<open>Errors\<close>

text \<open>\<open>wasmtime::Error\<close>: whether it is an interrupt trap, the memory limit it carries, its text.\<close>

record wasm_error =
  trap_interrupt :: bool
  exceeded :: "memory_limit_exceeded option"
  wasm_dyn :: dyn_error

definition PLUGIN_LOAD_TIMEOUT :: nat where
  "PLUGIN_LOAD_TIMEOUT = 10000000000"

datatype load_error =
    ReadDirectory io_error
  | ReadComponent io_error
  | Compile wasm_error
  | TimedOut u64
  | MemoryLimit memory_limit_exceeded
  | Instantiate wasm_error

datatype schedule_entry_error = NotListed | InvalidCronEntry schedule_error

datatype plugin_error =
    LoadFailed string string load_error
  | DuplicatePluginCommand duplicate_command
  | InvalidScheduleEntry string string schedule_entry_error
  | EngineFailed wasm_error
  | TickerFailed io_error

text \<open>The texts and sources of the \<open>#[error]\<close> attributes; a transparent error shows what it wraps.\<close>

fun load_error_dyn :: "load_error \<Rightarrow> dyn_error" where
  "load_error_dyn (ReadDirectory e) = DynError ''could not read the plugin directory'' (Some (io_dyn e))"
| "load_error_dyn (ReadComponent e) = DynError ''could not read the component file'' (Some (io_dyn e))"
| "load_error_dyn (Compile e) = DynError ''could not compile the component'' (Some (wasm_dyn e))"
| "load_error_dyn (TimedOut seconds) =
     DynError (''the plugin did not load within '' @ show_nat (unat seconds) @ '' seconds'') None"
| "load_error_dyn (MemoryLimit e) = memory_limit_exceeded_dyn e"
| "load_error_dyn (Instantiate e) =
     DynError ''could not instantiate the component or list its commands and schedules'' (Some (wasm_dyn e))"

fun schedule_entry_error_dyn :: "schedule_entry_error \<Rightarrow> dyn_error" where
  "schedule_entry_error_dyn NotListed = DynError ''the plugin does not list this command'' None"
| "schedule_entry_error_dyn (InvalidCronEntry e) = schedule_error_dyn e"

definition in_quotes :: "string \<Rightarrow> string" where
  "in_quotes s = [CHR 0x27] @ s @ [CHR 0x27]"

fun plugin_error_dyn :: "plugin_error \<Rightarrow> dyn_error" where
  "plugin_error_dyn (LoadFailed name path source) =
     DynError (''could not load plugin '' @ in_quotes name @ '' from '' @ from_utf8_lossy path) (Some (load_error_dyn source))"
| "plugin_error_dyn (DuplicatePluginCommand e) = duplicate_command_dyn e"
| "plugin_error_dyn (InvalidScheduleEntry plugin command source) =
     DynError (''invalid schedule entry for command '' @ in_quotes command @ '' in plugin '' @ in_quotes plugin)
       (Some (schedule_entry_error_dyn source))"
| "plugin_error_dyn (EngineFailed e) = DynError ''could not start the plugin runtime'' (Some (wasm_dyn e))"
| "plugin_error_dyn (TickerFailed e) = DynError ''could not start the plugin time limit thread'' (Some (io_dyn e))"

definition from_load_call :: "wasm_error \<Rightarrow> load_error" where
  "from_load_call e =
     (if trap_interrupt e then TimedOut (of_nat (PLUGIN_LOAD_TIMEOUT div 1000000000))
      else case exceeded e of Some limit \<Rightarrow> MemoryLimit limit | None \<Rightarrow> Instantiate e)"

section \<open>The runtime: interrupts of a call\<close>

datatype interrupt_cause = DeadlinePassed | Shutdown

record plugin_store_data =
  data_deadline :: int
  data_interrupt_cause :: "interrupt_cause option"
  data_limiter :: plugin_limiter

definition new_store :: "plugin_limits_settings \<Rightarrow> int \<Rightarrow> plugin_store_data" where
  "new_store limits deadline =
     \<lparr>data_deadline = deadline, data_interrupt_cause = None,
      data_limiter = new_limiter (of_nat (memory_bytes limits))\<rparr>"

datatype update_deadline = ContinueTicks nat | InterruptCall

text \<open>The callback of an epoch tick; \<open>cancelled\<close> and \<open>now\<close> are what it reads.\<close>

definition epoch_callback :: "bool \<Rightarrow> int \<Rightarrow> plugin_store_data \<Rightarrow> update_deadline \<times> plugin_store_data" where
  "epoch_callback cancelled now data =
     (let cause = (if cancelled then Some Shutdown
                   else if now \<ge> data_deadline data then Some DeadlinePassed else None)
      in case cause of
           Some c \<Rightarrow> (InterruptCall, data\<lparr>data_interrupt_cause := Some c\<rparr>)
         | None \<Rightarrow> (ContinueTicks 1, data))"

text \<open>A call sees a tick after another until the callback interrupts it.\<close>

fun run_ticks :: "(bool \<times> int) list \<Rightarrow> plugin_store_data \<Rightarrow> bool \<times> plugin_store_data" where
  "run_ticks [] data = (False, data)"
| "run_ticks ((cancelled, now) # ticks) data =
     (case epoch_callback cancelled now data of
        (InterruptCall, data') \<Rightarrow> (True, data')
      | (ContinueTicks _, data') \<Rightarrow> run_ticks ticks data')"

text \<open>\<open>PluginRuntime::new\<close>, with the results of starting the engine and the ticker thread.\<close>

definition new_runtime :: "wasm_error + unit \<Rightarrow> io_error + unit \<Rightarrow> plugin_error + unit" where
  "new_runtime engine ticker =
     (case engine of
        Inl error \<Rightarrow> Inl (EngineFailed error)
      | Inr _ \<Rightarrow> (case ticker of Inl error \<Rightarrow> Inl (TickerFailed error) | Inr _ \<Rightarrow> Inr ()))"

definition EPOCH_TICK_INTERVAL :: nat where
  "EPOCH_TICK_INTERVAL = 10000000"

text \<open>
  The ticker thread. \<open>engine_lives\<close> is the upgrade of its weak reference, \<open>increment_epoch\<close> the tick of
  the engine and \<open>thread_sleep\<close> the sleep, while which the engine may be dropped.
\<close>

partial_function (option) epoch_ticker ::
  "('e \<Rightarrow> bool) \<Rightarrow> ('e \<Rightarrow> 'e) \<Rightarrow> (nat \<Rightarrow> 'e \<Rightarrow> 'e) \<Rightarrow> 'e \<Rightarrow> 'e option" where
  "epoch_ticker engine_lives increment_epoch thread_sleep e =
     (if engine_lives e
      then epoch_ticker engine_lives increment_epoch thread_sleep (thread_sleep EPOCH_TICK_INTERVAL (increment_epoch e))
      else Some e)"

section \<open>A plugin command\<close>

record 'm wasm_command =
  wc_plugin_name :: string
  wc_command_name :: string
  wc_args_json :: string
  wc_component :: 'm
  wc_limits :: plugin_limits_settings

datatype call_deadline = ContextDeadline u64 | PluginLimit u64

definition call_deadline :: "'m wasm_command \<Rightarrow> command_deadline option \<Rightarrow> int \<Rightarrow> int \<times> call_deadline" where
  "call_deadline cmd context_deadline now =
     (let limit = limit_timeout (wc_limits cmd);
          limit_deadline = instant_after now limit;
          own = (limit_deadline, PluginLimit (of_nat (limit div 1000000000)))
      in case context_deadline of
           Some d \<Rightarrow>
             if deadline_at d < limit_deadline
             then (deadline_at d, ContextDeadline (of_nat (deadline_timeout d div 1000000000)))
             else own
         | None \<Rightarrow> own)"

definition classify_by_type :: "'m wasm_command \<Rightarrow> wasm_error \<Rightarrow> command_error" where
  "classify_by_type cmd error =
     (case exceeded error of
        Some limit \<Rightarrow>
          failed_with (''command '' @ in_quotes (wc_command_name cmd) @ '' in plugin ''
            @ in_quotes (wc_plugin_name cmd) @ '' ran out of memory'') (memory_limit_exceeded_dyn limit)
      | None \<Rightarrow>
          failed_with (''runtime error in command '' @ in_quotes (wc_command_name cmd) @ '' in plugin ''
            @ in_quotes (wc_plugin_name cmd)) (wasm_dyn error))"

definition classify_call_failure ::
  "'m wasm_command \<Rightarrow> wasm_error \<Rightarrow> plugin_store_data \<Rightarrow> call_deadline \<Rightarrow> command_error" where
  "classify_call_failure cmd error data deadline =
     (if trap_interrupt error
      then case (data_interrupt_cause data, deadline) of
             (Some Shutdown, _) \<Rightarrow> Interrupted
           | (Some DeadlinePassed, ContextDeadline seconds) \<Rightarrow> Timeout seconds
           | (Some DeadlinePassed, PluginLimit seconds) \<Rightarrow>
               failed (''command '' @ in_quotes (wc_command_name cmd) @ '' in plugin ''
                 @ in_quotes (wc_plugin_name cmd) @ '' exceeded the plugin time limit of ''
                 @ show_nat (unat seconds) @ '' seconds'')
           | (None, _) \<Rightarrow> classify_by_type cmd error
      else classify_by_type cmd error)"

text \<open>
  The engine: reading and compiling components, listing what they export, and a call in a new
  store, which returns the output or the message of the guest, or an engine error, with the data
  of its store. \<open>call_command\<close> instantiates the component and calls \<open>run-command\<close>.
\<close>

record ('m, 'e) plugin_host =
  read_plugin_dir :: "string \<Rightarrow> io_error + string list"
  read_plugin_file :: "string \<Rightarrow> io_error + bytes"
  compile_component :: "bytes \<Rightarrow> wasm_error + 'm"
  instantiate_component :: "'m \<Rightarrow> wasm_error + unit"
  list_commands :: "'m \<Rightarrow> wasm_error + (string \<times> string) list"
  list_schedules :: "'m \<Rightarrow> wasm_error + (string \<times> string) list"
  call_command :: "'m \<Rightarrow> string \<Rightarrow> string \<Rightarrow> plugin_store_data \<Rightarrow> ('e \<Rightarrow> bool) \<Rightarrow> 'e \<Rightarrow>
    (wasm_error + (string + string)) \<times> plugin_store_data \<times> 'e"
  host_now :: "'e \<Rightarrow> int"

definition wasm_run ::
  "terminal \<Rightarrow> ('m, 'e) plugin_host \<Rightarrow> 'm wasm_command \<Rightarrow> 'e command_context \<Rightarrow> 'e \<Rightarrow>
     command_result \<times> 'e command_context \<times> 'e" where
  "wasm_run t h cmd ctx e =
     (let (deadline, limit) = call_deadline cmd (ctx_deadline ctx) (host_now h e);
          (called, data, e') = call_command h (wc_component cmd) (wc_command_name cmd) (wc_args_json cmd)
            (new_store (wc_limits cmd) deadline) (ctx_cancel ctx) e
      in case called of
           Inr (Inr text) \<Rightarrow>
             (Inr (), if text \<noteq> [] then ctx\<lparr>ctx_output := out_line t text (ctx_output ctx)\<rparr> else ctx, e')
         | Inr (Inl message) \<Rightarrow>
             (Inl (failed (''command '' @ in_quotes (wc_command_name cmd) @ '' in plugin ''
                @ in_quotes (wc_plugin_name cmd) @ '' failed: '' @ message)), ctx, e')
         | Inl error \<Rightarrow> (Inl (classify_call_failure cmd error data limit), ctx, e'))"

definition wasm_as_command :: "terminal \<Rightarrow> ('m, 'e) plugin_host \<Rightarrow> 'm wasm_command \<Rightarrow> 'e command" where
  "wasm_as_command t h cmd = \<lparr>command_title = wc_command_name cmd, run_on = wasm_run t h cmd\<rparr>"

section \<open>The loader\<close>

record loaded_plugin_entry =
  entry_command_name :: string
  entry_cron :: string

record 'm loaded_plugin =
  lp_name :: string
  lp_path :: string
  lp_component :: 'm
  lp_commands :: "(string \<times> string) list"
  lp_schedules :: "loaded_plugin_entry list"

definition lists_command :: "'m loaded_plugin \<Rightarrow> string \<Rightarrow> bool" where
  "lists_command p name = (\<exists>d \<in> set (lp_commands p). fst d = name)"

record 'm plugin_loader =
  loader_limits :: plugin_limits_settings
  loaded_plugins :: "'m loaded_plugin list"

text \<open>\<open>Path::extension\<close> of a file name: what follows the last dot, unless that dot starts the name.\<close>

definition file_extension :: "string \<Rightarrow> string option" where
  "file_extension name =
     (if name = ''..'' then None
      else case split_once CHR ''.'' (rev name) of
          None \<Rightarrow> None
        | Some (ext, before) \<Rightarrow> if before = [] then None else Some (rev ext))"

definition load_component ::
  "('m, 'e) plugin_host \<Rightarrow> string \<Rightarrow> string \<Rightarrow> plugin_error + 'm loaded_plugin" where
  "load_component h pname path =
     (case read_plugin_file h path of
        Inl error \<Rightarrow> Inl (LoadFailed pname path (ReadComponent error))
      | Inr bytes \<Rightarrow>
          (case compile_component h bytes of
             Inl error \<Rightarrow> Inl (LoadFailed pname path (Compile error))
           | Inr component \<Rightarrow>
               (case instantiate_component h component of
                  Inl error \<Rightarrow> Inl (LoadFailed pname path (from_load_call error))
                | Inr _ \<Rightarrow>
                    (case list_commands h component of
                       Inl error \<Rightarrow> Inl (LoadFailed pname path (from_load_call error))
                     | Inr commands \<Rightarrow>
                         (case list_schedules h component of
                            Inl error \<Rightarrow> Inl (LoadFailed pname path (from_load_call error))
                          | Inr schedules \<Rightarrow>
                              Inr \<lparr>lp_name = pname, lp_path = path, lp_component = component,
                                   lp_commands = commands,
                                   lp_schedules = map (\<lambda>(c, k). \<lparr>entry_command_name = c, entry_cron = k\<rparr>) schedules\<rparr>)))))"

primrec load_paths ::
  "('m, 'e) plugin_host \<Rightarrow> string \<Rightarrow> string list \<Rightarrow> 'm loaded_plugin list \<times> plugin_error list \<Rightarrow>
     'm loaded_plugin list \<times> plugin_error list" where
  "load_paths h pname [] acc = acc"
| "load_paths h pname (path # paths) acc =
     load_paths h pname paths
       (case load_component h pname path of
          Inr p \<Rightarrow> (fst acc @ [p], snd acc)
        | Inl error \<Rightarrow> (fst acc, snd acc @ [error]))"

text \<open>The entries that \<open>read_dir\<close> yields are file names; paths of one directory sort as their names.\<close>

definition load_directory ::
  "('m, 'e) plugin_host \<Rightarrow> string \<times> string \<Rightarrow> 'm loaded_plugin list \<times> plugin_error list \<Rightarrow>
     'm loaded_plugin list \<times> plugin_error list" where
  "load_directory h = (\<lambda>(pname, directory) acc.
     case read_plugin_dir h directory of
       Inl error \<Rightarrow> (fst acc, snd acc @ [LoadFailed pname directory (ReadDirectory error)])
     | Inr names \<Rightarrow>
         load_paths h pname
           (map (path_join directory) (sort (filter (\<lambda>n. file_extension n = Some ''wasm'') names))) acc)"

definition load_plugins ::
  "('m, 'e) plugin_host \<Rightarrow> (string \<times> string) list \<Rightarrow> plugin_limits_settings \<Rightarrow> 'm plugin_loader \<times> plugin_error list" where
  "load_plugins h directories limits =
     (case fold (load_directory h) directories ([], []) of
        (loaded, errors) \<Rightarrow> (\<lparr>loader_limits = limits, loaded_plugins = loaded\<rparr>, errors))"

text \<open>\<open>from_settings\<close>: \<open>started\<close> is the outcome of starting the runtime and its ticker thread.\<close>

definition from_settings ::
  "('m, 'e) plugin_host \<Rightarrow> (string \<times> string) list \<Rightarrow> plugin_limits_settings \<Rightarrow> plugin_error + unit \<Rightarrow>
     'm plugin_loader option \<times> plugin_error list" where
  "from_settings h directories limits started =
     (if directories = [] then (None, [])
      else case started of
          Inr _ \<Rightarrow> apfst Some (load_plugins h directories limits)
        | Inl error \<Rightarrow> (None, [error]))"

section \<open>Registering commands and schedules\<close>

definition plugin_command :: "plugin_limits_settings \<Rightarrow> 'm loaded_plugin \<Rightarrow> string \<Rightarrow> string \<Rightarrow> 'm wasm_command" where
  "plugin_command limits p name json =
     \<lparr>wc_plugin_name = lp_name p, wc_command_name = name, wc_args_json = json,
      wc_component = lp_component p, wc_limits = limits\<rparr>"

primrec register_descriptors ::
  "('m wasm_command \<Rightarrow> 'c) \<Rightarrow> plugin_limits_settings \<Rightarrow> 'm loaded_plugin \<Rightarrow> (string \<times> string) list \<Rightarrow>
     plugin_error list \<times> 'c command_registry \<Rightarrow> plugin_error list \<times> 'c command_registry" where
  "register_descriptors mk limits p [] acc = acc"
| "register_descriptors mk limits p (d # ds) acc =
     register_descriptors mk limits p ds
       (case register_command (lp_name p) (fst d) (\<lambda>json. Inr (mk (plugin_command limits p (fst d) json))) (snd acc) of
          (Inl duplicate, registry) \<Rightarrow> (fst acc @ [DuplicatePluginCommand duplicate], registry)
        | (Inr _, registry) \<Rightarrow> (fst acc, registry))"

definition register_commands ::
  "('m wasm_command \<Rightarrow> 'c) \<Rightarrow> 'm plugin_loader \<Rightarrow> 'c command_registry \<Rightarrow> plugin_error list \<times> 'c command_registry" where
  "register_commands mk loader registry =
     fold (\<lambda>p. register_descriptors mk (loader_limits loader) p (lp_commands p)) (loaded_plugins loader) ([], registry)"

definition schedule_entry ::
  "(string \<Rightarrow> string + 'k) \<Rightarrow> ('m wasm_command \<Rightarrow> 'e command) \<Rightarrow> plugin_limits_settings \<Rightarrow> 'm loaded_plugin \<Rightarrow>
     loaded_plugin_entry \<Rightarrow> schedule_entry_error + ('e, 'k) scheduled_job" where
  "schedule_entry parse mk limits p entry =
     (if \<not> lists_command p (entry_command_name entry) then Inl NotListed
      else case cron parse (entry_cron entry)
               (command_with_name (lp_name p @ ''::'' @ entry_command_name entry)
                 (mk (plugin_command limits p (entry_command_name entry) ''{}''))) of
          Inl error \<Rightarrow> Inl (InvalidCronEntry error)
        | Inr job \<Rightarrow> Inr job)"

primrec register_entries ::
  "(string \<Rightarrow> string + 'k) \<Rightarrow> ('m wasm_command \<Rightarrow> 'e command) \<Rightarrow> plugin_limits_settings \<Rightarrow> 'm loaded_plugin \<Rightarrow>
     loaded_plugin_entry list \<Rightarrow> plugin_error list \<times> ('e, 'k) schedule \<Rightarrow> plugin_error list \<times> ('e, 'k) schedule" where
  "register_entries parse mk limits p [] acc = acc"
| "register_entries parse mk limits p (entry # entries) acc =
     register_entries parse mk limits p entries
       (case schedule_entry parse mk limits p entry of
          Inl source \<Rightarrow> (fst acc @ [InvalidScheduleEntry (lp_name p) (entry_command_name entry) source], snd acc)
        | Inr job \<Rightarrow> (fst acc, add_job job (snd acc)))"

definition register_schedules ::
  "(string \<Rightarrow> string + 'k) \<Rightarrow> ('m wasm_command \<Rightarrow> 'e command) \<Rightarrow> 'm plugin_loader \<Rightarrow> ('e, 'k) schedule \<Rightarrow>
     plugin_error list \<times> ('e, 'k) schedule" where
  "register_schedules parse mk loader jobs =
     fold (\<lambda>p. register_entries parse mk (loader_limits loader) p (lp_schedules p)) (loaded_plugins loader) ([], jobs)"

section \<open>Facts\<close>

text \<open>The ticker ends at its first look after the last engine was dropped.\<close>

lemma epoch_ticker_ends:
  assumes "\<not> lives (((\<lambda>e. sleep EPOCH_TICK_INTERVAL (tick e)) ^^ n) e)"
  shows "\<exists>m \<le> n. epoch_ticker lives tick sleep e = Some (((\<lambda>e. sleep EPOCH_TICK_INTERVAL (tick e)) ^^ m) e)"
  using assms
proof (induction n arbitrary: e)
  case 0
  then show ?case by (intro exI [of _ 0]) (simp add: epoch_ticker.simps)
next
  case (Suc n)
  let ?round = "\<lambda>e. sleep EPOCH_TICK_INTERVAL (tick e)"
  have round: "(?round ^^ Suc m) e = (?round ^^ m) (?round e)" for m by (simp only: funpow_Suc_right comp_apply)
  show ?case
  proof (cases "lives e")
    case True
    obtain m where "m \<le> n" "epoch_ticker lives tick sleep (?round e) = Some ((?round ^^ m) (?round e))"
      using Suc.IH [of "?round e"] Suc.prems unfolding round by blast
    then have "Suc m \<le> Suc n" "epoch_ticker lives tick sleep e = Some ((?round ^^ Suc m) e)"
      unfolding round using True by (simp_all add: epoch_ticker.simps [of _ _ _ e])
    then show ?thesis by blast
  qed (intro exI [of _ 0], simp add: epoch_ticker.simps)
qed

text \<open>A call goes on while no tick sees the token fired or the deadline passed.\<close>

definition tick_quiet :: "plugin_store_data \<Rightarrow> bool \<times> int \<Rightarrow> bool" where
  "tick_quiet data = (\<lambda>(cancelled, now). \<not> cancelled \<and> now < data_deadline data)"

lemma run_ticks_quiet:
  "\<forall>t \<in> set ticks. tick_quiet data t \<Longrightarrow> run_ticks (ticks @ rest) data = run_ticks rest data"
  by (induction ticks) (auto simp: epoch_callback_def tick_quiet_def)

text \<open>The first tick that is not quiet interrupts the call and gives the cause.\<close>

lemma run_ticks_interrupt:
  assumes "\<forall>t \<in> set ticks. tick_quiet data t" "\<not> tick_quiet data (cancelled, now)"
  shows "run_ticks (ticks @ (cancelled, now) # rest) data =
    (True, data\<lparr>data_interrupt_cause := Some (if cancelled then Shutdown else DeadlinePassed)\<rparr>)"
  using assms by (auto simp: run_ticks_quiet epoch_callback_def tick_quiet_def)

lemma run_ticks_result:
  "run_ticks ticks data =
     (case dropWhile (tick_quiet data) ticks of
        [] \<Rightarrow> (False, data)
      | (cancelled, now) # _ \<Rightarrow>
          (True, data\<lparr>data_interrupt_cause := Some (if cancelled then Shutdown else DeadlinePassed)\<rparr>))"
proof (induction ticks)
  case (Cons tick ticks)
  obtain cancelled now where tick: "tick = (cancelled, now)" by (cases tick)
  show ?case
  proof (cases "tick_quiet data tick")
    case True
    then show ?thesis using Cons run_ticks_quiet [of "[tick]" data ticks] by simp
  next
    case False
    then show ?thesis using run_ticks_interrupt [of "[]" data cancelled now ticks] tick by simp
  qed
qed simp

text \<open>The deadline of a call is the earlier one, and the call knows which it is.\<close>

lemma call_deadline_earliest:
  assumes "call_deadline cmd context_deadline now = (at, limit)"
  shows "at \<le> instant_after now (limit_timeout (wc_limits cmd))"
    and "context_deadline = Some d \<Longrightarrow> at \<le> deadline_at d"
    and "limit = ContextDeadline seconds \<Longrightarrow>
      \<exists>d. context_deadline = Some d \<and> at = deadline_at d \<and> seconds = of_nat (deadline_timeout d div 1000000000)"
    and "limit = PluginLimit seconds \<Longrightarrow> at = instant_after now (limit_timeout (wc_limits cmd))"
  using assms by (auto simp: call_deadline_def Let_def split: option.splits if_splits)

text \<open>What a failure of a call is reported as.\<close>

lemma classify_by_type_Failed: "\<exists>message source. classify_by_type cmd error = Failed message source"
  by (auto simp: classify_by_type_def failed_with_def split: option.split)

lemma classify_cases:
  shows "classify_call_failure cmd error data limit = Interrupted \<longleftrightarrow>
      trap_interrupt error \<and> data_interrupt_cause data = Some Shutdown"
    and "classify_call_failure cmd error data limit = Timeout seconds \<longleftrightarrow>
      trap_interrupt error \<and> data_interrupt_cause data = Some DeadlinePassed \<and> limit = ContextDeadline seconds"
  using classify_by_type_Failed [of cmd error]
  by (auto simp: classify_call_failure_def failed_def split: option.split interrupt_cause.split call_deadline.split)

text \<open>Loading keeps each component that loads, in order, and reports each that does not.\<close>

definition rights :: "('a + 'b) list \<Rightarrow> 'b list" where
  "rights = List.map_filter (\<lambda>r. case r of Inr x \<Rightarrow> Some x | Inl _ \<Rightarrow> None)"

definition lefts :: "('a + 'b) list \<Rightarrow> 'a list" where
  "lefts = List.map_filter (\<lambda>r. case r of Inl x \<Rightarrow> Some x | Inr _ \<Rightarrow> None)"

lemma rights_lefts_simps [simp]:
  "rights [] = []" "rights (Inr x # rs) = x # rights rs" "rights (Inl y # rs) = rights rs"
  "lefts [] = []" "lefts (Inr x # rs) = lefts rs" "lefts (Inl y # rs) = y # lefts rs"
  "rights (rs @ ss) = rights rs @ rights ss" "lefts (rs @ ss) = lefts rs @ lefts ss"
  by (simp_all add: rights_def lefts_def map_filter_def)

lemma load_paths_eq:
  "load_paths h name paths acc =
     (fst acc @ rights (map (load_component h name) paths), snd acc @ lefts (map (load_component h name) paths))"
  by (induction paths arbitrary: acc) (auto split: sum.split)

lemma load_component_Inr:
  assumes "load_component h name path = Inr p"
  shows "lp_name p = name" "lp_path p = path" "list_commands h (lp_component p) = Inr (lp_commands p)"
  using assms by (auto simp: load_component_def split: sum.splits)

definition directory_results ::
  "('m, 'e) plugin_host \<Rightarrow> string \<times> string \<Rightarrow> (plugin_error + 'm loaded_plugin) list" where
  "directory_results h = (\<lambda>(name, directory).
     case read_plugin_dir h directory of
       Inl error \<Rightarrow> [Inl (LoadFailed name directory (ReadDirectory error))]
     | Inr names \<Rightarrow> map (load_component h name \<circ> path_join directory)
         (sort (filter (\<lambda>n. file_extension n = Some ''wasm'') names)))"

lemma load_directory_eq:
  "load_directory h d acc = (fst acc @ rights (directory_results h d), snd acc @ lefts (directory_results h d))"
  by (auto simp: load_directory_def directory_results_def load_paths_eq split: sum.split prod.split)

lemma fold_load_directory:
  "fold (load_directory h) directories acc =
     (fst acc @ rights (concat (map (directory_results h) directories)),
      snd acc @ lefts (concat (map (directory_results h) directories)))"
  by (induction directories arbitrary: acc) (simp_all add: load_directory_eq)

lemma load_plugins_eq:
  "load_plugins h directories limits =
     (\<lparr>loader_limits = limits, loaded_plugins = rights (concat (map (directory_results h) directories))\<rparr>,
      lefts (concat (map (directory_results h) directories)))"
  by (simp add: load_plugins_def fold_load_directory)

text \<open>Registration is the insertion of every listed command in load order.\<close>

definition listed_commands ::
  "('m wasm_command \<Rightarrow> 'c) \<Rightarrow> plugin_limits_settings \<Rightarrow> 'm loaded_plugin \<Rightarrow> ((string \<times> string) \<times> 'c constructor) list" where
  "listed_commands mk limits p =
     map (\<lambda>d. ((lp_name p, fst d), \<lambda>json. Inr (mk (plugin_command limits p (fst d) json)))) (lp_commands p)"

lemma insert_all_append:
  "registry_map.insert_all (xs @ ys) r =
     (case registry_map.insert_all xs r of (es, r') \<Rightarrow>
        case registry_map.insert_all ys r' of (es', r'') \<Rightarrow> (es @ es', r''))"
  by (induction xs r rule: registry_map.insert_all.induct) (auto split: sum.split prod.split)

lemma register_descriptors_eq:
  "register_descriptors mk limits p ds acc =
     (case registry_map.insert_all (map (\<lambda>d. ((lp_name p, fst d), \<lambda>json. Inr (mk (plugin_command limits p (fst d) json)))) ds) (snd acc) of
        (errors, registry) \<Rightarrow> (fst acc @ map DuplicatePluginCommand errors, registry))"
  by (induction ds arbitrary: acc) (auto split: sum.split prod.split)

lemma fold_register_descriptors:
  "fold (\<lambda>p. register_descriptors mk limits p (lp_commands p)) ps acc =
     (case registry_map.insert_all (concat (map (listed_commands mk limits) ps)) (snd acc) of
        (errors, registry) \<Rightarrow> (fst acc @ map DuplicatePluginCommand errors, registry))"
  by (induction ps arbitrary: acc)
    (auto simp: register_descriptors_eq insert_all_append listed_commands_def split: prod.split)

lemma register_commands_eq:
  "register_commands mk loader registry =
     apfst (map DuplicatePluginCommand)
       (registry_map.insert_all (concat (map (listed_commands mk (loader_limits loader)) (loaded_plugins loader))) registry)"
  by (simp add: register_commands_def fold_register_descriptors split: prod.split)

text \<open>Schedules: one job for each entry that is listed and parses, in order.\<close>

lemma register_entries_eq:
  "register_entries parse mk limits p entries acc =
     (fst acc @ lefts (map (\<lambda>entry. map_sum (InvalidScheduleEntry (lp_name p) (entry_command_name entry)) id
        (schedule_entry parse mk limits p entry)) entries),
      snd acc @ rights (map (schedule_entry parse mk limits p) entries))"
  by (induction entries arbitrary: acc) (auto simp: add_job_def split: sum.split)

lemma register_schedules_eq:
  "register_schedules parse mk loader jobs =
     (concat (map (\<lambda>p. lefts (map (\<lambda>entry. map_sum (InvalidScheduleEntry (lp_name p) (entry_command_name entry)) id
        (schedule_entry parse mk (loader_limits loader) p entry)) (lp_schedules p))) (loaded_plugins loader)),
      jobs @ concat (map (\<lambda>p. rights (map (schedule_entry parse mk (loader_limits loader) p) (lp_schedules p)))
        (loaded_plugins loader)))"
proof -
  let ?l = "loader_limits loader"
  have "fold (\<lambda>p. register_entries parse mk ?l p (lp_schedules p)) ps acc =
     (fst acc @ concat (map (\<lambda>p. lefts (map (\<lambda>entry. map_sum (InvalidScheduleEntry (lp_name p) (entry_command_name entry)) id
        (schedule_entry parse mk ?l p entry)) (lp_schedules p))) ps),
      snd acc @ concat (map (\<lambda>p. rights (map (schedule_entry parse mk ?l p) (lp_schedules p))) ps))" for ps acc
    by (induction ps arbitrary: acc) (simp_all add: register_entries_eq)
  then show ?thesis by (simp add: register_schedules_def)
qed

lemma schedule_entry_Inr:
  assumes "schedule_entry parse mk limits p entry = Inr job"
  shows "lists_command p (entry_command_name entry)" "job_name job = lp_name p @ ''::'' @ entry_command_name entry"
    "cron_expression job = entry_cron entry" "parse (entry_cron entry) = Inr (cron_schedule job)"
    "job_command job = mk (plugin_command limits p (entry_command_name entry) ''{}'')"
    "job_lifecycle job = default_lifecycle"
  using assms by (auto simp: schedule_entry_def cron_def command_with_name_def split: if_splits sum.splits)

end
