(* ===== verification/CommandLine.thy ===== *)
theory CommandLine
  imports Exec Consumers Plugins
begin

text \<open>
  The \<open>inengine\<close> program (\<open>src/inengine/src/\<close>): its arguments (\<open>cli.rs\<close>), the plugin functions
  (\<open>plugins.rs\<close>) and the dispatch of \<open>main.rs\<close>. The argument parser is the clap crate's, so the model
  starts from the parsed arguments, with the ranges and defaults that their attributes declare.
\<close>

section \<open>Arguments\<close>

record echo_args =
  echo_text :: string

record exec_args =
  ea_executable :: string
  ea_timeout :: u64
  ea_arguments :: "string list"

record plugin_args =
  pa_name :: string
  pa_command :: string
  pa_args :: "string list"

record queue_publish_args =
  qp_plugin :: string
  qp_command :: string
  qp_args :: "string list"
  qp_json :: "string option"
  qp_max_retries :: "u32 option"
  qp_secondary :: bool

record queue_consume_args =
  qc_all :: bool
  qc_count :: nat
  qc_secondary :: bool

record queue_flush_args =
  qf_pending :: bool
  qf_failed :: bool
  qf_in_progress :: bool
  qf_secondary :: bool

record queue_peek_args =
  qk_from :: nat
  qk_to :: nat
  qk_json :: bool
  qk_pending :: bool
  qk_failed :: bool
  qk_in_progress :: bool
  qk_secondary :: bool

record queue_republish_args =
  qr_limit :: nat
  qr_secondary :: bool

record queue_recover_args =
  qv_secondary :: bool

datatype queue_subcommand =
    QueuePublish queue_publish_args
  | QueueConsume queue_consume_args
  | QueueFlush queue_flush_args
  | QueueLength
  | QueuePeek queue_peek_args
  | QueueStatus
  | QueueRepublish queue_republish_args
  | QueueRecover queue_recover_args

datatype schedule_subcommand = ScheduleList

datatype cli_command =
    EchoCommand echo_args
  | ExecCommand exec_args
  | QueueCommand queue_subcommand
  | ScheduleCommand schedule_subcommand
  | PluginCommand plugin_args

record cli =
  cli_server :: bool
  cli_config :: string
  cli_subcommand :: "cli_command option"

text \<open>What the attributes of \<open>QueuePublishArgs\<close> make the parser refuse.\<close>

definition publish_args_ok :: "queue_publish_args \<Rightarrow> bool" where
  "publish_args_ok a =
     ((qp_json a \<noteq> None \<longrightarrow> qp_args a = []) \<and> (\<forall>n. qp_max_retries a = Some n \<longrightarrow> n \<le> 100))"

section \<open>Plugins\<close>

text \<open>
  What the program uses of other code: the dependencies of the components, the parsers of the
  built-in commands' payloads, the JSON object of string fields, the start of the async runtime
  and of the plugin runtime, the table of plugin directories in the order of its hash map, and
  the blocking pool.
\<close>

record ('s, 'm, 'k, 'e) program =
  prog_admin :: "'s admin_deps"
  prog_host :: "('m, 'e) plugin_host"
  prog_os :: "'e process_os"
  prog_cron :: "string \<Rightarrow> string + 'k"
  next_fire_text :: "'k \<Rightarrow> string option"
  echo_from_str :: "string \<Rightarrow> dyn_error + 'e command"
  exec_from_str :: "string \<Rightarrow> dyn_error + 'e command"
  fields_to_json :: "(string \<times> string) list \<Rightarrow> string"
  start_async :: "io_error + unit"
  start_engine :: "wasm_error + unit"
  start_ticker :: "io_error + unit"
  plugin_list :: "settings \<Rightarrow> (string \<times> string) list"
  blocking_pool :: "('e command, 'e) blocking_run"
  fresh_id :: uuid
  start_time :: int

definition prog_terminal :: "('s, 'm, 'k, 'e) program \<Rightarrow> terminal" where
  "prog_terminal x = admin_terminal (prog_admin x)"

definition start_plugins :: "('s, 'm, 'k, 'e) program \<Rightarrow> plugin_error + unit" where
  "start_plugins x = new_runtime (start_engine x) (start_ticker x)"

definition load_plugins_of :: "('s, 'm, 'k, 'e) program \<Rightarrow> settings \<Rightarrow> 'm plugin_loader option \<times> plugin_error list" where
  "load_plugins_of x st = from_settings (prog_host x) (plugin_list x st) (plugin_limits st) (start_plugins x)"

text \<open>\<open>None\<close> is the panic of \<open>CommandRegistry::new\<close>.\<close>

definition registry_with_plugins ::
  "('s, 'm, 'k, 'e) program \<Rightarrow> 'm plugin_loader option \<Rightarrow> 'e command command_registry option" where
  "registry_with_plugins x loaded =
     map_option (\<lambda>registry. case loaded of
         None \<Rightarrow> registry
       | Some loader \<Rightarrow> snd (register_commands (wasm_as_command (prog_terminal x) (prog_host x)) loader registry))
       (new_registry (echo_from_str x) (exec_from_str x))"

definition schedule_with_plugins ::
  "('s, 'm, 'k, 'e) program \<Rightarrow> 'm plugin_loader option \<Rightarrow> ('e, 'k) schedule \<times> plugin_error list" where
  "schedule_with_plugins x loaded =
     (case loaded of
        None \<Rightarrow> (new_schedule, [])
      | Some loader \<Rightarrow>
          (case register_schedules (prog_cron x) (wasm_as_command (prog_terminal x) (prog_host x)) loader new_schedule of
             (errors, jobs) \<Rightarrow> (jobs, errors)))"

definition args_to_json :: "('s, 'm, 'k, 'e) program \<Rightarrow> string list \<Rightarrow> string" where
  "args_to_json x args = fields_to_json x (collect_fields (List.map_filter (split_once CHR ''='') args))"

definition run_plugin_command ::
  "('s, 'm, 'k, 'e) program \<Rightarrow> 'm plugin_loader option \<Rightarrow> plugin_args \<Rightarrow> 'e command_context \<Rightarrow> 'e \<Rightarrow>
     (command_result \<times> 'e command_context \<times> 'e) option" where
  "run_plugin_command x loaded a ctx e =
     (if \<not> (case loaded of None \<Rightarrow> False | Some loader \<Rightarrow> \<exists>p \<in> set (loaded_plugins loader). lp_name p = pa_name a)
      then Some (Inl (failed (''plugin '' @ in_quotes (pa_name a) @ '' is not loaded'')), ctx, e)
      else map_option (\<lambda>registry.
          case build_command registry (pa_name a) (pa_command a) (args_to_json x (pa_args a)) of
            Inl error \<Rightarrow> (Inl (failed_with ''could not run the plugin command'' (queue_error_dyn error)), ctx, e)
          | Inr cmd \<Rightarrow> run_on cmd ctx e)
        (registry_with_plugins x loaded))"

text \<open>\<open>{:<30}\<close> pads to a number of characters.\<close>

definition pad_right :: "nat \<Rightarrow> string \<Rightarrow> string" where
  "pad_right width s = s @ replicate (width - length (filter (\<lambda>c. \<not> continuation c) s)) (CHR '' '')"

definition job_line :: "('s, 'm, 'k, 'e) program \<Rightarrow> ('e, 'k) scheduled_job \<Rightarrow> string" where
  "job_line x job =
     pad_right 30 (job_name job) @ pad_right 25 (cron_expression job)
     @ (case next_fire_text x (cron_schedule job) of Some text \<Rightarrow> text | None \<Rightarrow> ''none'') @ [newline]"

definition render_schedule :: "('s, 'm, 'k, 'e) program \<Rightarrow> ('e, 'k) schedule \<Rightarrow> plugin_error list \<Rightarrow> string" where
  "render_schedule x jobs errors =
     (if jobs = [] then ''No scheduled commands.'' @ [newline]
      else pad_right 30 ''Job'' @ pad_right 25 ''Cron Expression'' @ ''Next Fire Time'' @ [newline]
           @ concat (map (job_line x) jobs))
     @ concat (map (\<lambda>error. ''warning: '' @ error_chain (plugin_error_dyn error) @ [newline]) errors)"

section \<open>The queue subcommands\<close>

definition lane_from_secondary_flag :: "bool \<Rightarrow> queue_lane" where
  "lane_from_secondary_flag secondary = (if secondary then Secondary else Primary)"

text \<open>\<open>run_async\<close>: the request does not run when the runtime does not start.\<close>

definition run_async :: "('s, 'm, 'k, 'e) program \<Rightarrow> ('v \<Rightarrow> ('r \<times> 'v) option) \<Rightarrow> 'v \<Rightarrow> ((io_error + 'r) \<times> 'v) option" where
  "run_async x body v =
     (case start_async x of Inl error \<Rightarrow> Some (Inl error, v) | Inr _ \<Rightarrow> map_option (apfst Inr) (body v))"

type_synonym ('s, 'e) program_state = "output_state \<times> 's stores \<times> 'e"

definition admin_request :: "'s admin_step \<Rightarrow> ('s, 'e) program_state \<Rightarrow> (command_result \<times> ('s, 'e) program_state) option" where
  "admin_request step = (\<lambda>(out, s, e). case step (out, s) of (r, out', s') \<Rightarrow> Some (r, out', s', e))"

definition publish_request_of :: "queue_publish_args \<Rightarrow> publish_request" where
  "publish_request_of a =
     \<lparr>pub_plugin_name = qp_plugin a, pub_command_name = qp_command a, pub_args = qp_args a,
      pub_json = qp_json a, pub_max_retries = qp_max_retries a,
      pub_lane = lane_from_secondary_flag (qp_secondary a)\<rparr>"

definition run_queue_subcommand ::
  "('s, 'm, 'k, 'e) program \<Rightarrow> settings \<Rightarrow> queue_subcommand \<Rightarrow> ('s, 'e) program_state \<Rightarrow>
     ((io_error + command_result) \<times> ('s, 'e) program_state) option" where
  "run_queue_subcommand x st sub v =
     (let q = queue_config st; a = prog_admin x in
      case sub of
        QueuePublish args \<Rightarrow>
          run_async x (admin_request (run_publish a (fresh_id x) (start_time x) (publish_request_of args) q)) v
      | QueueConsume args \<Rightarrow>
          (case registry_with_plugins x (fst (load_plugins_of x st)) of
             None \<Rightarrow> None
           | Some registry \<Rightarrow>
               run_async x (run_consume a registry (blocking_pool x)
                 (if qc_all args then None else Some (qc_count args))
                 (lane_from_secondary_flag (qc_secondary args)) q) v)
      | QueueFlush args \<Rightarrow>
          run_async x (admin_request (run_clear a (qf_pending args) (qf_failed args) (qf_in_progress args)
            (lane_from_secondary_flag (qf_secondary args)) q)) v
      | QueueLength \<Rightarrow> run_async x (admin_request (write_lengths a q)) v
      | QueueStatus \<Rightarrow> run_async x (admin_request (write_lengths a q)) v
      | QueuePeek args \<Rightarrow>
          run_async x (admin_request (run_peek a (qk_from args, qk_to args) (qk_json args) (qk_pending args)
            (qk_failed args) (qk_in_progress args) (lane_from_secondary_flag (qk_secondary args)) q)) v
      | QueueRepublish args \<Rightarrow>
          run_async x (admin_request (run_republish a (qr_limit args)
            (lane_from_secondary_flag (qr_secondary args)) q)) v
      | QueueRecover args \<Rightarrow>
          run_async x (admin_request (run_recover a (lane_from_secondary_flag (qv_secondary args)) q)) v)"

section \<open>The main function\<close>

datatype exit_code = ExitSuccess | ExitFailure

text \<open>A finished program: its exit code and what it wrote to standard output and standard error.\<close>

record program_end =
  end_code :: exit_code
  end_stdout :: string
  end_stderr :: string

fun config_error_dyn :: "config_error \<Rightarrow> dyn_error" where
  "config_error_dyn (FileNotFound path) =
     DynError (''configuration file not found: '' @ from_utf8_lossy path) None"
| "config_error_dyn (Invalid diagnostics) =
     DynError (''invalid configuration:'' @ [newline] @ diagnostics) None"
| "config_error_dyn (ConfigIo path source) =
     DynError (''could not read the configuration file '' @ from_utf8_lossy path) (Some (io_dyn source))"

definition runtime_start_failure :: "io_error \<Rightarrow> string" where
  "runtime_start_failure error =
     ''Error: could not start the async runtime: '' @ error_chain (io_dyn error) @ [newline]"

text \<open>
  A subcommand other than \<open>queue\<close> works on the context and the outside world. The result is an
  \<open>Inl\<close> when the runtime did not start.
\<close>

definition run_subcommand ::
  "('s, 'm, 'k, 'e) program \<Rightarrow> settings \<Rightarrow> cli_command \<Rightarrow> ('s, 'e) program_state \<Rightarrow>
     ((io_error + command_result) \<times> ('s, 'e) program_state) option" where
  "run_subcommand x st cmd = (\<lambda>(out, s, e).
     let ctx = new_context out st;
         finish = map_option (\<lambda>(r, ctx', e'). (Inr r, ctx_output ctx', s, e'))
     in case cmd of
          EchoCommand a \<Rightarrow> finish (Some (run_on (echo (prog_terminal x) (echo_text a)) ctx e))
        | ExecCommand a \<Rightarrow>
            finish (exec_run (prog_terminal x) (prog_os x)
              \<lparr>executable = ea_executable a, arguments = ea_arguments a, exec_timeout = ea_timeout a\<rparr> ctx e)
        | QueueCommand sub \<Rightarrow> run_queue_subcommand x st sub (out, s, e)
        | ScheduleCommand ScheduleList \<Rightarrow>
            (case schedule_with_plugins x (fst (load_plugins_of x st)) of
               (jobs, errors) \<Rightarrow> Some (Inr (Inr ()), out_text (prog_terminal x) (render_schedule x jobs errors) out, s, e))
        | PluginCommand a \<Rightarrow> finish (run_plugin_command x (fst (load_plugins_of x st)) a ctx e))"

definition exit_of :: "command_result \<Rightarrow> exit_code \<times> string" where
  "exit_of result =
     (case result of
        Inr _ \<Rightarrow> (ExitSuccess, [])
      | Inl error \<Rightarrow> (ExitFailure, describe_error_chain (command_error_dyn error)))"

text \<open>
  \<open>main\<close> after the parsing of the arguments. \<open>loaded\<close> is the result of \<open>config::load\<close>, \<open>w\<close> writes
  its report, \<open>tty\<close> and \<open>color\<close> say whether the standard error and the standard output are terminals,
  \<open>help\<close> is the usage text and \<open>serve\<close> the run of the server. Standard output takes everything.
\<close>

definition shown_report :: "report_writer \<Rightarrow> bool \<Rightarrow> report \<Rightarrow> string" where
  "shown_report w tty report =
     (if report \<noteq> [] then if tty then render_pretty w report else render_plain w report else [])"

definition main_run ::
  "('s, 'm, 'k, 'e) program \<Rightarrow> report_writer \<Rightarrow> bool \<Rightarrow> string \<Rightarrow> bool \<Rightarrow>
     (settings \<Rightarrow> 's stores \<times> 'e \<Rightarrow> ((io_error + unit) \<times> 's stores \<times> 'e) option) \<Rightarrow>
     config_error + settings option \<times> report \<Rightarrow> cli \<Rightarrow> 's stores \<times> 'e \<Rightarrow> (program_end \<times> 's stores \<times> 'e) option" where
  "main_run x w tty help color serve loaded args v =
     (case loaded of
        Inl error \<Rightarrow>
          Some (\<lparr>end_code = ExitFailure, end_stdout = [], end_stderr = describe_error_chain (config_error_dyn error)\<rparr>, v)
      | Inr (settings, report) \<Rightarrow>
          (let shown = shown_report w tty report in
           case settings of
             None \<Rightarrow> Some (\<lparr>end_code = ExitFailure, end_stdout = [], end_stderr = shown\<rparr>, v)
           | Some st \<Rightarrow>
               if cli_server args
               then map_option (\<lambda>(served, v').
                   (case served of
                      Inr _ \<Rightarrow> (\<lparr>end_code = ExitSuccess, end_stdout = [], end_stderr = shown\<rparr>, v')
                    | Inl error \<Rightarrow>
                        (\<lparr>end_code = ExitFailure, end_stdout = [], end_stderr = shown @ runtime_start_failure error\<rparr>, v')))
                 (serve st v)
               else case cli_subcommand args of
                   None \<Rightarrow> Some (\<lparr>end_code = ExitSuccess, end_stdout = help @ [newline], end_stderr = shown\<rparr>, v)
                 | Some cmd \<Rightarrow>
                     map_option (\<lambda>(r, out, s, e).
                         (case r of
                            Inl error \<Rightarrow>
                              (\<lparr>end_code = ExitFailure, end_stdout = [], end_stderr = shown @ runtime_start_failure error\<rparr>, s, e)
                          | Inr result \<Rightarrow>
                              (case exit_of result of (code, text) \<Rightarrow>
                                 (\<lparr>end_code = code, end_stdout = buffer out, end_stderr = shown @ text\<rparr>, s, e))))
                       (run_subcommand x st cmd (new_output color, v))))"

section \<open>Facts\<close>

lemma new_registry_builds:
  assumes "new_registry echo_from exec_from = Some r"
  shows "constructor_for r (BUILTIN_PLUGIN_NAME, ''echo'') =
      Some (\<lambda>json. case echo_from json of Inl e \<Rightarrow> Inl (Serialization e) | Inr c \<Rightarrow> Inr c)"
    and "constructor_for r (BUILTIN_PLUGIN_NAME, ''exec'') =
      Some (\<lambda>json. case exec_from json of Inl e \<Rightarrow> Inl (Serialization e) | Inr c \<Rightarrow> Inr c)"
proof -
  let ?r0 = "\<lparr>plugins = Map.empty\<rparr>"
  let ?s1 = "register_queueable BUILTIN_PLUGIN_NAME ''echo'' echo_from ?r0"
  let ?s2 = "register_queueable BUILTIN_PLUGIN_NAME ''exec'' exec_from (snd ?s1)"
  have r: "r = snd ?s2"
    using assms by (auto simp: new_registry_def split: prod.splits sum.splits)
  show "constructor_for r (BUILTIN_PLUGIN_NAME, ''echo'') =
      Some (\<lambda>json. case echo_from json of Inl e \<Rightarrow> Inl (Serialization e) | Inr c \<Rightarrow> Inr c)"
    "constructor_for r (BUILTIN_PLUGIN_NAME, ''exec'') =
      Some (\<lambda>json. case exec_from json of Inl e \<Rightarrow> Inl (Serialization e) | Inr c \<Rightarrow> Inr c)"
    unfolding r register_queueable_def by (simp_all add: constructor_for_register)
qed

text \<open>The commands of the plugins of a loader, as the registry sees them.\<close>

definition plugin_entries :: "('s, 'm, 'k, 'e) program \<Rightarrow> 'm plugin_loader option \<Rightarrow> ((string \<times> string) \<times> 'e command constructor) list" where
  "plugin_entries x loaded =
     (case loaded of None \<Rightarrow> []
      | Some loader \<Rightarrow> concat (map (listed_commands (wasm_as_command (prog_terminal x) (prog_host x)) (loader_limits loader))
          (loaded_plugins loader)))"

lemma registry_with_plugins_entries:
  "\<exists>r0 r. new_registry (echo_from_str x) (exec_from_str x) = Some r0 \<and> registry_with_plugins x loaded = Some r
    \<and> constructor_for r = (\<lambda>k. case constructor_for r0 k of Some f \<Rightarrow> Some f | None \<Rightarrow> map_of (plugin_entries x loaded) k)"
proof -
  obtain r0 where r0: "new_registry (echo_from_str x) (exec_from_str x) = Some r0"
    using new_registry_Some by blast
  show ?thesis
    using r0 registry_map.entries_insert_all [of "plugin_entries x loaded" r0]
    by (cases loaded) (auto simp: registry_with_plugins_def register_commands_eq plugin_entries_def
        apfst_def map_prod_def split: prod.splits)
qed

lemma registry_builtin:
  assumes "registry_with_plugins x loaded = Some r"
  shows "build_command r BUILTIN_PLUGIN_NAME ''echo'' json = (case echo_from_str x json of Inl e \<Rightarrow> Inl (Serialization e) | Inr c \<Rightarrow> Inr c)"
    and "build_command r BUILTIN_PLUGIN_NAME ''exec'' json = (case exec_from_str x json of Inl e \<Rightarrow> Inl (Serialization e) | Inr c \<Rightarrow> Inr c)"
proof -
  obtain r0 where r0: "new_registry (echo_from_str x) (exec_from_str x) = Some r0"
    "constructor_for r = (\<lambda>k. case constructor_for r0 k of Some f \<Rightarrow> Some f | None \<Rightarrow> map_of (plugin_entries x loaded) k)"
    using registry_with_plugins_entries [of x loaded] assms by auto
  show "build_command r BUILTIN_PLUGIN_NAME ''echo'' json = (case echo_from_str x json of Inl e \<Rightarrow> Inl (Serialization e) | Inr c \<Rightarrow> Inr c)"
    "build_command r BUILTIN_PLUGIN_NAME ''exec'' json = (case exec_from_str x json of Inl e \<Rightarrow> Inl (Serialization e) | Inr c \<Rightarrow> Inr c)"
    using new_registry_builds [OF r0(1)] r0(2) by (simp_all add: build_constructor_for)
qed

lemma registry_plugin:
  assumes "registry_with_plugins x loaded = Some r" "p \<noteq> BUILTIN_PLUGIN_NAME"
  shows "constructor_for r (p, c) = map_of (plugin_entries x loaded) (p, c)"
proof -
  obtain r0 where r0: "new_registry (echo_from_str x) (exec_from_str x) = Some r0"
    "constructor_for r = (\<lambda>k. case constructor_for r0 k of Some f \<Rightarrow> Some f | None \<Rightarrow> map_of (plugin_entries x loaded) k)"
    using registry_with_plugins_entries [of x loaded] assms(1) by auto
  have "constructor_for r0 (p, c) = None"
    using new_registry_Some [of "echo_from_str x" "exec_from_str x"] r0(1) assms(2) by auto
  then show ?thesis using r0(2) by simp
qed

text \<open>An invalid configuration ends the program before anything ran.\<close>

lemma invalid_config_stops:
  assumes "loaded = Inl error \<or> loaded = Inr (None, report)"
  shows "\<exists>pe. main_run x w tty help color serve loaded args v = Some (pe, v) \<and> end_code pe = ExitFailure"
  using assms by (auto simp: main_run_def Let_def)

text \<open>A subcommand exits with success exactly when its result is \<open>Ok\<close>.\<close>

lemma main_run_subcommand:
  assumes "loaded = Inr (Some st, report)" "\<not> cli_server args" "cli_subcommand args = Some cmd"
    and "run_subcommand x st cmd (new_output color, v) = Some (r, out, s, e)"
  shows "\<exists>pe. main_run x w tty help color serve loaded args v = Some (pe, s, e)
    \<and> (end_code pe = ExitSuccess \<longleftrightarrow> r = Inr (Inr ()))
    \<and> (\<forall>result. r = Inr result \<longrightarrow> end_stdout pe = buffer out)
    \<and> (\<forall>error. r = Inr (Inl error) \<longrightarrow> suffix (describe_error_chain (command_error_dyn error)) (end_stderr pe))"
  using assms
  by (cases r) (auto simp: main_run_def exit_of_def Let_def suffix_def split: sum.split)

text \<open>The retries of a message that the command line publishes stay far from the end of their range.\<close>

lemma run_publish_opens:
  assumes "new_envelope k i now cmd_name pname body c n = Inr env"
  shows "max_retries env = n"
  using assms by (auto simp: new_envelope_def Let_def split: sum.splits if_splits)

end
