(* ===== verification/ServerProperties.thy ===== *)
theory ServerProperties
  imports SharedLane SyncFault CommandLine
begin

text \<open>
  The properties of the parts around the queues: errors, configuration, commands and their
  limits, plugins, schedules, the server and the command line.
\<close>

section \<open>Errors\<close>

text \<open>C39: The one-line form of an error is its own text followed by each source in order, leaving out exactly the sources whose non-empty text already ends the text of the error they caused.\<close>

theorem error_chain_shows_each_source_once:
  "error_chain e = err_text e @ concat (map (\<lambda>i. '': '' @ err_text (successors e ! Suc i))
     (filter (\<lambda>i. \<not> (err_text (successors e ! Suc i) \<noteq> []
        \<and> ends_with (err_text (successors e ! i)) (err_text (successors e ! Suc i))))
      [0..<length (successors e) - 1]))"
proof -
  obtain es where es: "successors e = e # es" using successors_hd by blast
  have "chain e = e # map (nth es) (filter (\<lambda>i. \<not> shown_by_parent (successors e ! i) (es ! i)) [0..<length es])"
    using chain_index [of e] es by simp
  then show ?thesis
    using error_chain_Cons [of 0] es by (simp add: error_chain_def shown_by_parent_def comp_def)
qed

section \<open>Kept output\<close>

text \<open>While a stream is read its buffer never holds more than the head and the tail limit, whatever the process writes and in whatever pieces.\<close>

theorem stream_buffer_is_bounded:
  "length (sb_head (snd (read_loop reads (new_stream_buffer h t)))) \<le> h
    \<and> length (sb_tail (snd (read_loop reads (new_stream_buffer h t)))) \<le> t"
  using kept_of_bounds [of h t "delivered reads"]
  by (simp add: new_buffer_of read_loop_buffer) (simp add: buffer_of_def)

text \<open>C27: The text kept of a stream is the whole stream when it fits the two limits, and otherwise its first and last bytes with a line between them that counts exactly what was dropped, in whatever pieces the stream was read.\<close>

theorem kept_text_of_stream:
  assumes "length (delivered reads) < 2 ^ 64"
  shows "into_text (fst (take_kept (snd (read_loop reads (new_stream_buffer h t))))) =
    (let b = delivered reads in
     if length b \<le> h + t then from_utf8_lossy b
     else let text = from_utf8_lossy (take h b)
          in text @ (if text \<noteq> [] \<and> last text \<noteq> newline then [newline] else [])
             @ ''['' @ show_nat (length b - h - t) @ '' bytes not kept]'' @ [newline]
             @ from_utf8_lossy (drop (length b - t) b))"
  using kept_of_text [OF assms, of h t]
  unfolding new_buffer_of read_loop_buffer take_buffer_of append_Nil Let_def .

theorem kept_text_of_stream_witness:
  "into_text (fst (take_kept (snd (read_loop [Inr ''abc'', Inl (IoError InterruptedCall (DynError ''again'' None)), Inr ''defgh'', Inr []]
      (new_stream_buffer 3 2))))) = ''abc'' @ [newline] @ ''[3 bytes not kept]'' @ [newline] @ ''gh''"
proof -
  have "utf8_valid ''abc''" "utf8_valid ''gh''" by (rule utf8_valid_ascii; auto)+
  then show ?thesis
    using kept_text_of_stream [of "[Inr ''abc'', Inl (IoError InterruptedCall (DynError ''again'' None)), Inr ''defgh'', Inr []]" 3 2]
    by (simp add: Let_def from_utf8_lossy_valid show_nat.simps [of "Suc (Suc (Suc 0))"] digit_char_def newline_def char_of_def bit_0)
qed


section \<open>Configuration\<close>

lemma load_config_Some:
  assumes "load_config x read_to_string parse_toml path = Inr (Some st, report)"
  obtains spec where "\<not> has_errors (validate_all x spec)" and "lower spec = (Some st, [])" and "\<not> has_errors report"
proof -
  obtain src spec r0 where p: "read_to_string path = Inr src" "parse_toml src = (Some spec, r0)"
    "\<not> has_errors (r0 @ validate_all x spec)" "lower spec = (Some st, snd (lower spec))"
    "report = r0 @ validate_all x spec @ snd (lower spec)"
    using assms by (auto simp: load_config_def from_text_def check_and_lower_def Let_def split: sum.splits prod.splits option.splits if_splits)
  moreover have "snd (lower spec) = []"
    using lower_valid [of x spec] p(3) by (simp add: lower_def Let_def)
  ultimately show thesis using that [of spec] by auto
qed

lemma accepted_settings:
  assumes "load_config x read_to_string parse_toml path = Inr (Some st, report)"
  shows "mail_port (mail st) \<noteq> 0" "redis_port (redis_config (queue_config st)) \<noteq> 0"
    "primary_queue_consumers (queue_config st) \<le> 1024" "secondary_queue_consumers (queue_config st) \<le> 1024"
    "queue_max_retries (queue_config st) \<le> 100" "queue_name_check (queue_name (queue_config st))"
    "1000000000 \<le> limit_timeout (plugin_limits st)" "limit_timeout (plugin_limits st) \<le> 86400 * 1000000000"
    "16 * BYTES_PER_MIB \<le> memory_bytes (plugin_limits st)" "memory_bytes (plugin_limits st) \<le> 4096 * BYTES_PER_MIB"
    "plugin_dirs st BUILTIN_PLUGIN_NAME = None"
proof -
  obtain spec where spec: "\<not> has_errors (validate_all x spec)" "lower spec = (Some st, [])"
    using load_config_Some [OF assms] .
  note v = valid_spec [OF spec(1)]
  have st_eq: "st = the (fst (lower spec))" using spec(2) by simp
  have st: "mail_port (mail st) = word_of_int (ms_port (ss_mail spec))"
    "redis_port (redis_config (queue_config st)) = word_of_int (rs_port (qs_redis (ss_queue spec)))"
    "primary_queue_consumers (queue_config st) = nat (qs_primary_consumers (ss_queue spec))"
    "secondary_queue_consumers (queue_config st) = nat (qs_secondary_consumers (ss_queue spec))"
    "queue_max_retries (queue_config st) = word_of_int (qs_max_retries (ss_queue spec))"
    "queue_name (queue_config st) = qs_queue_name (ss_queue spec)"
    "limit_timeout (plugin_limits st) = nat (ls_timeout_seconds (ss_plugin_limits spec)) * 1000000000"
    "memory_bytes (plugin_limits st) = nat (ls_memory_mib (ss_plugin_limits spec)) * BYTES_PER_MIB"
    "plugin_dirs st = map_of (ss_plugins spec)"
    unfolding st_eq using lower_valid [OF spec(1)] by (simp_all add: lower_def Let_def)
  have port: "(word_of_int p :: u16) \<noteq> 0" if "1 \<le> p" "p \<le> 65535" for p :: int
  proof
    assume "(word_of_int p :: u16) = 0"
    then have "uint (word_of_int p :: u16) = 0" by simp
    then have "p mod 65536 = 0" by (simp add: uint_word_of_int)
    then show False using that by simp
  qed
  show "mail_port (mail st) \<noteq> 0" "redis_port (redis_config (queue_config st)) \<noteq> 0"
    unfolding st using v by (intro port; blast)+
  show "queue_max_retries (queue_config st) \<le> 100"
    unfolding st using v by (simp add: word_le_def uint_word_of_int)
  have n: "nat (qs_primary_consumers (ss_queue spec)) \<le> 1024" "nat (qs_secondary_consumers (ss_queue spec)) \<le> 1024"
    "1 \<le> nat (ls_timeout_seconds (ss_plugin_limits spec))" "nat (ls_timeout_seconds (ss_plugin_limits spec)) \<le> 86400"
    "16 \<le> nat (ls_memory_mib (ss_plugin_limits spec))" "nat (ls_memory_mib (ss_plugin_limits spec)) \<le> 4096"
    using v(4-7,16-19) by (simp_all add: nat_le_iff le_nat_iff)
  show "primary_queue_consumers (queue_config st) \<le> 1024" "secondary_queue_consumers (queue_config st) \<le> 1024"
    "queue_name_check (queue_name (queue_config st))"
    "1000000000 \<le> limit_timeout (plugin_limits st)" "limit_timeout (plugin_limits st) \<le> 86400 * 1000000000"
    "16 * BYTES_PER_MIB \<le> memory_bytes (plugin_limits st)" "memory_bytes (plugin_limits st) \<le> 4096 * BYTES_PER_MIB"
    unfolding st using n v(9) by (simp_all add: BYTES_PER_MIB_def)
  show "plugin_dirs st BUILTIN_PLUGIN_NAME = None"
    unfolding st using v by (simp add: map_of_eq_None_iff)
qed

text \<open>C35: Settings that the configuration loader accepts are within their documented bounds after the narrowing to machine integers: ports are not 0, at most 1024 consumers per lane, at most 100 retries, a plugin time limit from a second to a day and a memory limit from 16 MiB to 4 GiB, and no plugin has the name of the built-in commands.\<close>

theorem accepted_settings_are_bounded:
  assumes "load_config x read_to_string parse_toml path = Inr (Some st, report)"
  shows "mail_port (mail st) \<noteq> 0 \<and> redis_port (redis_config (queue_config st)) \<noteq> 0
    \<and> primary_queue_consumers (queue_config st) \<le> 1024 \<and> secondary_queue_consumers (queue_config st) \<le> 1024
    \<and> queue_max_retries (queue_config st) \<le> 100 \<and> queue_name_check (queue_name (queue_config st))
    \<and> 1000000000 \<le> limit_timeout (plugin_limits st) \<and> limit_timeout (plugin_limits st) \<le> 86400 * 1000000000
    \<and> 16 * BYTES_PER_MIB \<le> memory_bytes (plugin_limits st) \<and> memory_bytes (plugin_limits st) \<le> 4096 * BYTES_PER_MIB
    \<and> plugin_dirs st BUILTIN_PLUGIN_NAME = None"
  using accepted_settings [OF assms] by blast

text \<open>A configuration with a mail login on the local host, and the defaults elsewhere.\<close>

definition sample_env :: config_env where
  "sample_env = \<lparr>mailbox_ok = (\<lambda>_. True), path_there = (\<lambda>_. True), char_count = length\<rparr>"

definition sample_spec :: settings_spec where
  "sample_spec = default_settings_spec\<lparr>ss_mail := default_mail_spec\<lparr>ms_username := ''ada'', ms_password := ''secret''\<rparr>\<rparr>"

definition sample_writer :: report_writer where
  "sample_writer = \<lparr>write_plain = (\<lambda>r. Inr ''plain''), write_pretty = (\<lambda>r. Inr ''pretty'')\<rparr>"

definition sample_settings :: settings where
  "sample_settings = the (fst (lower sample_spec))"

lemma sample_valid: "validate_all sample_env sample_spec = []"
  by (simp add: validate_all_def mail_constraints_def validate_mail_def queue_constraints_def validate_redis_def
      validate_queue_def limits_constraints_def validate_settings_def redis_constraints_def check_encryption_def
      check_range_def check_length_def check_keyword_def check_path_entry_def constraint_defs sample_env_def sample_spec_def
      default_settings_spec_def default_mail_spec_def default_queue_spec_def default_redis_spec_def
      default_file_spec_def default_plugin_limits_spec_def queue_name_check_def is_ascii_alphanumeric_def
      is_loopback_host_def ascii_lower_def REDIS_DEFAULT_DATABASES_def Let_def)


lemma sample_load:
  "load_config sample_env (\<lambda>_. Inr ''toml'') (\<lambda>_. (Some sample_spec, [])) ''inengine.toml'' = Inr (Some sample_settings, [])"
proof -
  have "narrow_report sample_spec = []" using lower_valid [of sample_env sample_spec] sample_valid by simp
  then show ?thesis by (simp add: load_config_def from_text_def check_and_lower_def sample_valid sample_settings_def lower_def Let_def)
qed

theorem accepted_settings_are_bounded_witness:
  "load_config sample_env (\<lambda>_. Inr ''toml'') (\<lambda>_. (Some sample_spec, [])) ''inengine.toml'' = Inr (Some sample_settings, [])
    \<and> queue_max_retries (queue_config sample_settings) \<le> 100"
  using accepted_settings_are_bounded [OF sample_load] sample_load by blast

text \<open>C36: With accepted settings a mail login never crosses the network in plain text: a transport that logs in without encryption goes to a loopback host, and a mail is only sent through the transport of the settings.\<close>

theorem mail_login_stays_private:
  assumes "load_config x read_to_string parse_toml path = Inr (Some st, report)"
    and "mail_transport y (mail st) = Inr t" "transport_login t = Some login" "transport_encryption t = Plain"
  shows "is_loopback_host (transport_host t)"
proof -
  obtain spec where spec: "\<not> has_errors (validate_all x spec)" "lower spec = (Some st, [])"
    using load_config_Some [OF assms(1)] .
  have st_eq: "st = the (fst (lower spec))" using spec(2) by simp
  have st: "mail_host (mail st) = ms_host (ss_mail spec)" "mail_username (mail st) = ms_username (ss_mail spec)"
    "mail_encryption (mail st) = the (encryption_keyword (ms_encryption (ss_mail spec)))"
    unfolding st_eq using lower_valid [OF spec(1)] by (simp_all add: lower_def Let_def)
  obtain u pw where "login = (u, pw)" by (cases login)
  then have "mail_encryption (mail st) = Plain" "mail_username (mail st) \<noteq> []" "transport_host t = mail_host (mail st)"
    using mail_transport_Inr [OF assms(2)] assms(3,4) by metis+
  then show ?thesis using valid_spec(3,20) [OF spec(1)] st by (metis option.collapse)
qed

text \<open>An outside world that is a clock, which does not go back, on which every call works at once and a command runs to its end.\<close>

definition sample_outside :: "nat outside" where
  "sample_outside = \<lparr>client_made = (\<lambda>_. False), keep_client = (\<lambda>e. e), build_client = Pair (Inr ()), http_get = (\<lambda>url e. (if url = ''down'' then Inl (DynError ''refused'' None) else Inr (), e)),
     relay = (\<lambda>_ _. Inr ()), parse_mailbox = Inr, build_message = (\<lambda>_ _ _ body. Inr body), send_mail = (\<lambda>_ _. Pair (Inr ())),
     write_file = (\<lambda>_ _. Pair (Inr ())), open_append = (\<lambda>_. Pair (Inr ())), append_all = (\<lambda>_ _. Pair (Inr ())),
     flush_file = (\<lambda>_. Pair (Inr ())),
     start_blocking = (\<lambda>cmd ctx e. case run_on cmd ctx e of (r, ctx', e') \<Rightarrow>
       (\<lparr>task_end = Some (int e'), task_joined = Inr (r, buffer (ctx_output ctx'))\<rparr>, max e e')),
     now_of = int\<rparr>"

lemma sample_mail: "mail sample_settings = \<lparr>mail_host = ''localhost'', mail_port = 25, mail_from = [], mail_username = ''ada'',
    mail_password = ''secret'', mail_encryption = Plain\<rparr>"
  using lower_valid [of sample_env sample_spec] sample_valid
  by (simp add: sample_settings_def lower_def Let_def sample_spec_def default_settings_spec_def default_mail_spec_def)

theorem mail_login_stays_private_witness:
  "\<exists>t. mail_transport sample_outside (mail sample_settings) = Inr t
    \<and> transport_login t = Some (''ada'', ''secret'') \<and> is_loopback_host (transport_host t)"
proof -
  obtain t where t: "mail_transport sample_outside (mail sample_settings) = Inr t"
    "transport_login t = Some (''ada'', ''secret'')" "transport_encryption t = Plain"
    by (simp add: mail_transport_def sample_mail)
  then show ?thesis using mail_login_stays_private [OF sample_load t] by blast
qed

section \<open>Commands under a time limit\<close>

text \<open>C34: A scheduled command with a time limit always ends: whatever the command does, even if it never returns, its lifecycle run yields a result.\<close>

theorem lifecycle_with_timeout_returns:
  assumes "life_timeout (life_options life) = Some t"
    and "\<And>e. instant_after (now_of x e) t + int ENFORCEMENT_GRACE \<le> instant_max"
  shows "\<exists>r e'. run_with_lifecycle x cmd st life cancel e = Some (r, e')"
  using run_with_lifecycle_returns [OF assms, of cmd st cancel e] by fastforce

theorem lifecycle_with_timeout_returns_witness:
  "\<exists>r e'. run_with_lifecycle
      (sample_outside\<lparr>start_blocking := (\<lambda>cmd ctx e. (\<lparr>task_end = None, task_joined = Inr (Inr (), [])\<rparr>, e)), now_of := (\<lambda>_. 0)\<rparr>)
      (echo \<lparr>set_foreground = (\<lambda>_. []), reset_color = []\<rparr> ''hi'') sample_settings
      (default_lifecycle\<lparr>life_options := default_options\<lparr>life_timeout := Some 5000000000\<rparr>\<rparr>) (\<lambda>_. False) 0 = Some (r, e')"
  by (rule lifecycle_with_timeout_returns [where t = 5000000000])
    (simp_all add: instant_after_def checked_add_instant_def instant_max_def ENFORCEMENT_GRACE_def FAR_FUTURE_def)

text \<open>A lifecycle succeeds exactly when the command succeeded, its last ping did and its whole output was written, appended and mailed where asked.\<close>

theorem lifecycle_success:
  "fst (finish_run x name st life (result, shown) e) = Inr () \<longleftrightarrow>
     result = Inr () \<and>
     (\<exists>e1 e2. when_some (ping_after_url (life_options life)) (ping x) (run_hook (after_run (life_hooks life)) e) = (Inr (), e1)
       \<and> persist_output x (life_options life) st shown (''Command completed: '' @ name) shown e1 = (Inr (), e2))"
  by (rule finish_succeeds)

section \<open>The plugin memory limiter\<close>

text \<open>C24: However a plugin creates and grows memories and tables, and whichever growths fail, the limiter accounts for exactly the bytes of all memories of its store, they never exceed its budget, and its tables never exceed their bound.\<close>

theorem plugin_memory_stays_in_budget:
  assumes "limiter_step\<^sup>*\<^sup>* (new_plugin_store limit) s" "unat limit < 2 ^ 64 - 1"
  shows "unat (memory_used (store_limiter s)) = total_size (memories s) \<and> total_size (memories s) \<le> unat limit
    \<and> total_size (tables s) \<le> 100000"
  using limiter_reachable_budget [OF assms] by (auto simp: budget_ok_def)

theorem plugin_memory_stays_in_budget_witness:
  "\<exists>s. limiter_step\<^sup>*\<^sup>* (new_plugin_store 65536) s \<and> memories s = [40000] \<and> unat (memory_used (store_limiter s)) = 40000"
proof -
  let ?s = "\<lparr>store_limiter = \<lparr>memory_limit_bytes = 65536, memory_used = 40000, last_memory_growth = 40000, table_elements = 0\<rparr>,
    memories = [40000], tables = []\<rparr>"
  have "memory_growing 0 40000 None (store_limiter (new_plugin_store 65536)) = (Inr True, store_limiter ?s)"
    by (simp add: memory_growing_def new_plugin_store_def new_limiter_def sat_add_u64_def sat_sub_u64_def Let_def)
  from new_memory [OF this] have "limiter_step (new_plugin_store 65536) ?s"
    by (simp add: new_plugin_store_def)
  then have "limiter_step\<^sup>*\<^sup>* (new_plugin_store 65536) ?s" by blast
  moreover have "unat (memory_used (store_limiter ?s)) = total_size (memories ?s)"
    using plugin_memory_stays_in_budget [OF calculation] by simp
  ultimately show ?thesis by (intro exI [of _ ?s]) simp
qed

section \<open>Exec\<close>

text \<open>An operating system whose child answers \<open>status\<close> to \<open>try_wait\<close> and whose streams carry two texts.\<close>

definition sample_os :: "exit_status option \<Rightarrow> nat process_os" where
  "sample_os status = \<lparr>os_spawn = (\<lambda>path args e. (Inr (), e)), os_try_wait = (\<lambda>e. (Inr status, e)),
     os_recv = (\<lambda>i e. (Received (Inr ()), e)),
     os_take = (\<lambda>i e. (kept_of KEPT_HEAD_BYTES KEPT_TAIL_BYTES (if i = 0 then ''out'' else ''err''), e)),
     os_now = int, os_sleep = (\<lambda>d e. e + d), os_kill = (\<lambda>e. (Inr (), e)), os_wait = (\<lambda>e. (Inr (StoppedBy 9), e))\<rparr>"

lemma sample_os_simps [simp]:
  "os_spawn (sample_os st) path args e = (Inr (), e)" "os_try_wait (sample_os st) e = (Inr st, e)"
  "os_recv (sample_os st) i e = (Received (Inr ()), e)" "os_now (sample_os st) e = int e"
  "os_take (sample_os st) i e = (kept_of KEPT_HEAD_BYTES KEPT_TAIL_BYTES (if i = 0 then ''out'' else ''err''), e)"
  "os_sleep (sample_os st) d e = e + d"
  by (simp_all add: sample_os_def)

lemma sample_os_steady: "os_steady (sample_os st)"
  by (simp add: os_steady_def)

definition sample_context :: "nat command_context" where
  "sample_context = new_context (new_output False) (sample_settings\<lparr>exec_whitelist := [''ls'' \<mapsto> ''/bin/ls'']\<rparr>)"

definition sample_exec :: "u64 \<Rightarrow> exec_request" where
  "sample_exec seconds = \<lparr>executable = ''ls'', arguments = [], exec_timeout = seconds\<rparr>"

definition sample_terminal :: terminal where
  "sample_terminal = \<lparr>set_foreground = (\<lambda>_. []), reset_color = []\<rparr>"

text \<open>C26: Exec returns when it has a time limit of its own, a deadline of its context or a cancelled token, even if the process never exits and never closes its pipes.\<close>

theorem exec_returns:
  assumes "os_steady os" "exec_timeout r > 0 \<or> ctx_deadline ctx \<noteq> None \<or> (\<forall>e. ctx_cancel ctx e)"
  shows "\<exists>result ctx' e'. exec_run t os r ctx e = Some (result, ctx', e')"
  using exec_run_returns [OF assms, of t e] by auto

theorem exec_returns_witness:
  "\<exists>result ctx' e'. exec_run sample_terminal (sample_os None) (sample_exec 5) sample_context 0 = Some (result, ctx', e')"
  by (rule exec_returns [OF sample_os_steady]) (simp add: sample_exec_def)


text \<open>C25: Every outcome of Exec has its cause in its own run. Either the start of the child failed, or the wait that began at its start (\<open>e1\<close>) was decided in a state \<open>s'\<close>: success only when a \<open>try_wait\<close> of this wait answered exit code 0, an interruption only when the token had fired in \<open>s'\<close>, and a timeout only when it had not and the clock in \<open>s'\<close> had reached the limit whose seconds are reported, that of Exec counted from the start of the child or that of the context.\<close>

theorem exec_outcome_has_its_cause:
  assumes "exec_whitelist (ctx_settings ctx) (executable r) = Some path"
    and "exec_run t os r ctx e = Some (result, ctx', e')"
  shows "(\<exists>error. os_spawn os path (arguments r) e = (Inl error, e') \<and> result = Inl (spawn_error path error))
    \<or> (\<exists>e1 waited s'. os_spawn os path (arguments r) e = (Inr (), e1)
      \<and> wait_loop os (ctx_cancel ctx) (wait_limit r ctx (os_now os e1)) path (waited_from e1) = Some (waited, s')
      \<and> result = exec_result path waited \<and> e' = after_wait os waited s'
      \<and> (result = Inr () \<longrightarrow>
          exit_seen os (ctx_cancel ctx) (wait_limit r ctx (os_now os e1)) path (waited_from e1) (ExitedWith 0))
      \<and> (result = Inl Interrupted \<longrightarrow> ctx_cancel ctx (ws_world s'))
      \<and> (\<forall>n. result = Inl (Timeout n) \<longrightarrow> \<not> ctx_cancel ctx (ws_world s')
          \<and> (exec_timeout r > 0 \<and> n = exec_timeout r
                \<and> instant_after (os_now os e1) (from_secs (exec_timeout r)) \<le> os_now os (ws_world s')
             \<or> (\<exists>d. ctx_deadline ctx = Some d \<and> n = of_nat (deadline_timeout d div 1000000000)
                \<and> deadline_at d \<le> os_now os (ws_world s')))))"
proof -
  obtain x e2 where run: "run_process os r path ctx e = Some (x, e2)"
    using assms by (cases "run_process os r path ctx e") (auto simp: exec_run_def)
  show ?thesis
  proof (cases x)
    case (Inl error)
    obtain io where "os_spawn os path (arguments r) e = (Inl io, e2)" "error = spawn_error path io"
      by (rule run_process_cases [OF run]) (use Inl in auto)
    moreover have "result = Inl error" "e' = e2" using assms run Inl by (simp_all add: exec_run_def)
    ultimately show ?thesis by blast
  next
    case (Inr p)
    then have result: "result = exec_result path (run_status p)" "e' = e2"
      using exec_run_started [OF assms(1), of os e p e2 t] run assms(2) by simp_all
    obtain e1 s' where w: "os_spawn os path (arguments r) e = (Inr (), e1)"
      "wait_loop os (ctx_cancel ctx) (wait_limit r ctx (os_now os e1)) path (waited_from e1) = Some (run_status p, s')"
      "e2 = after_wait os (run_status p) s'"
      using run_process_explained [of os r path ctx e p e2] run Inr by blast
    have "wait_explained os (ctx_cancel ctx) (wait_limit r ctx (os_now os e1)) path (waited_from e1) (run_status p) s'"
      by (rule wait_loop_explained [OF w(2)]) (simp add: waited_from_def)
    moreover have "result = Inr () \<Longrightarrow> run_status p = Inr (ExitedWith 0)" "result = Inl Interrupted \<Longrightarrow> run_status p = Inl Interrupted"
      "result = Inl (Timeout n) \<Longrightarrow> run_status p = Inl (Timeout n)" for n
      using result(1) by (auto simp: exec_result_def status_success_def failed_def split: sum.splits if_splits exit_status.splits)
    ultimately have cause: "result = Inr () \<longrightarrow>
        exit_seen os (ctx_cancel ctx) (wait_limit r ctx (os_now os e1)) path (waited_from e1) (ExitedWith 0)"
      "result = Inl Interrupted \<longrightarrow> ctx_cancel ctx (ws_world s')"
      "result = Inl (Timeout n) \<Longrightarrow> \<not> ctx_cancel ctx (ws_world s')
         \<and> (\<exists>l. wait_limit r ctx (os_now os e1) = Some l \<and> n = limit_seconds l \<and> limit_at l \<le> os_now os (ws_world s'))" for n
      unfolding wait_explained_def by blast+
    have "\<forall>n. result = Inl (Timeout n) \<longrightarrow> \<not> ctx_cancel ctx (ws_world s')
        \<and> (exec_timeout r > 0 \<and> n = exec_timeout r
              \<and> instant_after (os_now os e1) (from_secs (exec_timeout r)) \<le> os_now os (ws_world s')
           \<or> (\<exists>d. ctx_deadline ctx = Some d \<and> n = of_nat (deadline_timeout d div 1000000000)
              \<and> deadline_at d \<le> os_now os (ws_world s')))"
    proof (intro allI impI)
      fix n assume "result = Inl (Timeout n)"
      then obtain l where l: "\<not> ctx_cancel ctx (ws_world s')" "wait_limit r ctx (os_now os e1) = Some l"
        "n = limit_seconds l" "limit_at l \<le> os_now os (ws_world s')"
        using cause(3) by blast
      from wait_limit_earliest(3) [OF l(2)] l(1,3,4) show "\<not> ctx_cancel ctx (ws_world s')
        \<and> (exec_timeout r > 0 \<and> n = exec_timeout r
              \<and> instant_after (os_now os e1) (from_secs (exec_timeout r)) \<le> os_now os (ws_world s')
           \<or> (\<exists>d. ctx_deadline ctx = Some d \<and> n = of_nat (deadline_timeout d div 1000000000)
              \<and> deadline_at d \<le> os_now os (ws_world s')))"
        by auto
    qed
    then show ?thesis using w result cause(1,2) by blast
  qed
qed

text \<open>Exec writes what was kept of the standard output and then of the standard error to the command output, after the process ended in whatever way.\<close>

theorem exec_writes_both_streams:
  assumes "exec_whitelist (ctx_settings ctx) (executable r) = Some path"
    and "\<And>i e. fst (os_take os i e) = kept_of KEPT_HEAD_BYTES KEPT_TAIL_BYTES (stream i)"
    and "run_process os r path ctx e = Some (Inr p, e')"
  shows "\<exists>ctx'. exec_run t os r ctx e = Some (exec_result path (run_status p), ctx', e')
    \<and> ctx_output ctx' = out_text t (into_text (kept_of KEPT_HEAD_BYTES KEPT_TAIL_BYTES (stream 1)))
        (out_text t (into_text (kept_of KEPT_HEAD_BYTES KEPT_TAIL_BYTES (stream 0))) (ctx_output ctx))"
  using exec_run_started [OF assms(1,3)] run_process_output [OF assms(3,2)] by (simp add: written_output_def)

text \<open>The sample child: the first round of the wait sees its exit and both streams at their end.\<close>

lemma sample_run_process:
  "run_process (sample_os (Some st)) (sample_exec 5) path sample_context 7 =
     Some (Inr \<lparr>run_status = Inr st, run_stdout = kept_of KEPT_HEAD_BYTES KEPT_TAIL_BYTES ''out'',
       run_stderr = kept_of KEPT_HEAD_BYTES KEPT_TAIL_BYTES ''err''\<rparr>, 7)"
proof -
  have "wait_loop (sample_os (Some st)) (ctx_cancel sample_context)
      (wait_limit (sample_exec 5) sample_context (os_now (sample_os (Some st)) 7)) path
      \<lparr>ws_exit = None, ws_readers = [Some (0, False), Some (1, False)], ws_world = 7\<rparr> =
      Some (Inr st, \<lparr>ws_exit = Some (st, 7), ws_readers = [Some (0, True), Some (1, True)], ws_world = 7\<rparr>)"
    by (subst wait_loop.simps) (simp add: wait_round_def check_exit_def poll_reader_def round_result_def Let_def)
  then show ?thesis
    by (simp add: run_process_def wait_for_exit_def take_reader_def Let_def)
qed

lemma sample_exec_run:
  "\<exists>ctx'. exec_run sample_terminal (sample_os (Some st)) (sample_exec 5) sample_context 7 =
     Some (exec_result ''/bin/ls'' (Inr st), ctx', 7)"
proof -
  have "exec_whitelist (ctx_settings sample_context) (executable (sample_exec 5)) = Some ''/bin/ls''"
    by (simp add: sample_context_def new_context_def sample_exec_def)
  then show ?thesis using exec_run_started [OF _ sample_run_process] by auto
qed

text \<open>A child that does not exit, with a context deadline that has passed: the first round is a timeout.\<close>

theorem exec_outcome_has_its_cause_witness:
  "\<exists>ctx' e'. exec_run sample_terminal (sample_os None) (sample_exec 5)
        (with_deadline \<lparr>deadline_at = 3, deadline_timeout = 2000000000\<rparr> sample_context) 7 = Some (Inl (Timeout 2), ctx', e')
    \<and> (\<exists>s' :: nat wait_state. 3 \<le> os_now (sample_os None) (ws_world s')
        \<and> e' = after_wait (sample_os None) (Inl (Timeout 2)) s')"
proof -
  let ?d = "\<lparr>deadline_at = 3, deadline_timeout = 2000000000\<rparr>"
  let ?ctx = "with_deadline ?d sample_context" and ?os = "sample_os None"
  let ?s = "\<lparr>ws_exit = None, ws_readers = [Some (0, True), Some (1, True)], ws_world = 7 :: nat\<rparr>"
  have ctx: "ctx_deadline ?ctx = Some ?d" "ctx_cancel ?ctx = (\<lambda>_. False)" "ctx_settings ?ctx = ctx_settings sample_context"
    by (simp_all add: with_deadline_def sample_context_def new_context_def)
  have limit: "wait_limit (sample_exec 5) ?ctx 7 = Some \<lparr>limit_at = 3, limit_seconds = 2\<rparr>"
    using ctx(1) by (simp add: wait_limit_def sample_exec_def instant_after_def checked_add_instant_def from_secs_def
        instant_max_def Let_def)
  have "wait_loop ?os (ctx_cancel ?ctx) (wait_limit (sample_exec 5) ?ctx (os_now ?os 7)) ''/bin/ls''
      \<lparr>ws_exit = None, ws_readers = [Some (0, False), Some (1, False)], ws_world = 7\<rparr> = Some (Inl (Timeout 2), ?s)"
    unfolding sample_os_simps of_nat_numeral limit ctx(2)
    by (subst wait_loop.simps) (simp add: wait_round_def check_exit_def poll_reader_def round_result_def Let_def)
  then obtain p e1 where p: "run_process ?os (sample_exec 5) ''/bin/ls'' ?ctx 7 = Some (Inr p, e1)" "run_status p = Inl (Timeout 2)"
    by (force simp: run_process_def wait_for_exit_def take_reader_def stop_child_def Let_def split: prod.splits)
  have path: "exec_whitelist (ctx_settings ?ctx) (executable (sample_exec 5)) = Some ''/bin/ls''"
    unfolding ctx(3) by (simp add: sample_context_def new_context_def sample_exec_def)
  obtain ctx' where run: "exec_run sample_terminal ?os (sample_exec 5) ?ctx 7 = Some (Inl (Timeout 2), ctx', e1)"
    using exec_run_started [OF path p(1), of sample_terminal] p(2) by (simp add: exec_result_def)
  from exec_outcome_has_its_cause [OF path run] obtain waited s' where
    cause: "Inl (Timeout 2) = exec_result ''/bin/ls'' waited" "e1 = after_wait ?os waited s'"
      "2 = exec_timeout (sample_exec 5) \<or> (\<exists>d. ctx_deadline ?ctx = Some d \<and> deadline_at d \<le> os_now ?os (ws_world s'))"
    unfolding sample_os_simps(1) by blast
  have "waited = Inl (Timeout 2)"
    using cause(1) by (auto simp: exec_result_def failed_def split: sum.splits if_splits)
  moreover have "3 \<le> os_now ?os (ws_world s')" using cause(3) ctx(1) by (simp add: sample_exec_def)
  ultimately show ?thesis using run cause(2) by blast
qed

theorem exec_writes_both_streams_witness:
  "\<exists>ctx'. exec_run sample_terminal (sample_os (Some (StoppedBy 9))) (sample_exec 5) sample_context 7 =
      Some (Inl (failed ''/bin/ls was stopped by signal 9''), ctx', 7)
    \<and> ctx_output ctx' = out_text sample_terminal (into_text (kept_of KEPT_HEAD_BYTES KEPT_TAIL_BYTES ''err''))
        (out_text sample_terminal (into_text (kept_of KEPT_HEAD_BYTES KEPT_TAIL_BYTES ''out'')) (new_output False))"
proof -
  have "utf8_valid ''/bin/ls''" by (rule utf8_valid_ascii) auto
  then have "describe_failure ''/bin/ls'' (StoppedBy 9) = ''/bin/ls was stopped by signal 9''"
    by (simp add: describe_failure_def from_utf8_lossy_valid show_nat.simps [of 9] digit_char_def char_of_def bit_0)
  then show ?thesis
    using exec_writes_both_streams [where ctx = sample_context and r = "sample_exec 5" and path = "''/bin/ls''"
        and stream = "\<lambda>i. if i = 0 then ''out'' else ''err''", OF _ _ sample_run_process [of "StoppedBy 9" "''/bin/ls''"],
        of sample_terminal]
    by (simp add: sample_context_def new_context_def sample_exec_def exec_result_def status_success_def)
qed


section \<open>Plugins\<close>






text \<open>An engine whose one component lists one command and one job, and interrupts its calls.\<close>

definition sample_trap :: wasm_error where
  "sample_trap = \<lparr>trap_interrupt = True, exceeded = None, wasm_dyn = DynError ''wasm trap: interrupt'' None\<rparr>"

definition sample_host :: "(bool \<times> int) list \<Rightarrow> (nat, nat) plugin_host" where
  "sample_host ticks = \<lparr>read_plugin_dir = (\<lambda>_. Inr [''b.wasm'', ''a.wasm'', ''notes.txt'']), read_plugin_file = (\<lambda>_. Inr []),
     compile_component = (\<lambda>_. Inr 0), instantiate_component = (\<lambda>_. Inr ()),
     list_commands = (\<lambda>_. Inr [(''go'', ''help'')]), list_schedules = (\<lambda>_. Inr [(''go'', ''@''), (''stray'', ''@'')]),
     call_command = (\<lambda>m name json data cancel e. (Inl sample_trap, snd (run_ticks ticks data), e)), host_now = int\<rparr>"


text \<open>C28: Loading visits the plugin directories in the given order and the \<open>.wasm\<close> files of each in the order of their names; every component becomes a plugin or one error, both in that order, so that one broken component never hides another.\<close>

theorem plugins_load_in_order:
  "load_plugins h directories limits =
     (let results = concat (map (\<lambda>(name, directory).
            case read_plugin_dir h directory of
              Inl error \<Rightarrow> [Inl (LoadFailed name directory (ReadDirectory error))]
            | Inr names \<Rightarrow> map (\<lambda>file. load_component h name (path_join directory file))
                (sort (filter (\<lambda>n. file_extension n = Some ''wasm'') names))) directories)
      in (\<lparr>loader_limits = limits, loaded_plugins = rights results\<rparr>, lefts results))"
  unfolding load_plugins_eq directory_results_def Let_def comp_def by (rule refl)

text \<open>C30: The registry of the program holds the two built-in commands, which no plugin can replace, and for every other name the command of the first loaded plugin that lists it.\<close>

theorem registry_of_program:
  "\<exists>r. registry_with_plugins x loaded = Some r \<and> constructor_for r = (\<lambda>key.
     if key = (BUILTIN_PLUGIN_NAME, ''echo'')
     then Some (\<lambda>json. case echo_from_str x json of Inl e \<Rightarrow> Inl (Serialization e) | Inr c \<Rightarrow> Inr c)
     else if key = (BUILTIN_PLUGIN_NAME, ''exec'')
     then Some (\<lambda>json. case exec_from_str x json of Inl e \<Rightarrow> Inl (Serialization e) | Inr c \<Rightarrow> Inr c)
     else map_of (plugin_entries x loaded) key)"
proof -
  obtain r0 r where r: "new_registry (echo_from_str x) (exec_from_str x) = Some r0" "registry_with_plugins x loaded = Some r"
    "constructor_for r = (\<lambda>k. case constructor_for r0 k of Some f \<Rightarrow> Some f | None \<Rightarrow> map_of (plugin_entries x loaded) k)"
    using registry_with_plugins_entries by blast
  have "constructor_for r0 key = None" if "key \<notin> {(BUILTIN_PLUGIN_NAME, ''echo''), (BUILTIN_PLUGIN_NAME, ''exec'')}" for key
    using new_registry_Some [of "echo_from_str x" "exec_from_str x"] r(1) that by auto
  then show ?thesis
    using r new_registry_builds [OF r(1)] by (intro exI [of _ r] conjI ext) auto
qed





section \<open>Schedules\<close>

text \<open>C33: The runs of a scheduled job have strictly increasing fire times, so that no fire time runs twice, when the clock does not go back and a sleep lasts its duration.\<close>

theorem job_fires_in_order:
  assumes "run_job sc job [] e = Some (logged, e')" "clock_ok sc job"
  shows "sorted_wrt (<) (map fst logged)"
  using run_job_log [OF assms] by (simp add: log_ok_def)

definition sample_scheduler :: "(nat, unit) scheduler" where
  "sample_scheduler = \<lparr>sched_outside = sample_outside, sched_settings = sample_settings, sched_cancelled = (\<lambda>_. False),
     upcoming = (\<lambda>_ e. if e < 2 then Some (int e + 1) else None), utc_now = int, select_sleep = (\<lambda>d e. (False, e + d))\<rparr>"

definition sample_job :: "(nat, unit) scheduled_job" where
  "sample_job = \<lparr>job_command = echo sample_terminal ''hi'', job_name = ''echo'', cron_expression = ''* * * * * *'',
     cron_schedule = (), job_lifecycle = default_lifecycle\<rparr>"

lemma sample_job_run:
  "run_with_lifecycle (sched_outside sample_scheduler) (job_command sample_job) (sched_settings sample_scheduler)
     (job_lifecycle sample_job) (sched_cancelled sample_scheduler) e = Some (Inr (), e)"
  by (simp add: sample_scheduler_def sample_job_def run_default_lifecycle sample_outside_def echo_def)

theorem job_fires_in_order_witness:
  "\<exists>logged e'. run_job sample_scheduler sample_job [] 0 = Some (logged, e') \<and> map fst logged = [1, 2]
    \<and> sorted_wrt (<) (map fst logged)"
proof -
  have step: "run_job sample_scheduler sample_job logged e = run_job sample_scheduler sample_job (logged @ [(int e + 1, Inr ())]) (Suc e)"
    if "e < 2" for logged e
    using run_job_step [OF _ _ sample_job_run] that by (simp add: sample_scheduler_def nat_add_distrib)
  have stop: "run_job sample_scheduler sample_job logged 2 = Some (logged, 2)" for logged
    by (subst run_job.simps) (simp add: sample_scheduler_def)
  have run: "run_job sample_scheduler sample_job [] 0 = Some ([(1, Inr ()), (2, Inr ())], 2)"
    using step [of 0 "[]"] step [of 1 "[(1, Inr ())]"] stop by (simp add: numeral_2_eq_2)
  have "clock_ok sample_scheduler sample_job"
    unfolding clock_ok_def using sample_job_run by (auto simp: sample_scheduler_def split: if_splits)
  then show ?thesis using job_fires_in_order [OF run] run by simp
qed

section \<open>The server\<close>

text \<open>A server on the sample queues, with recovery at the start and a Redis queue in its settings.\<close>

definition sample_server :: "(sample_server, string, nat) server" where
  "sample_server = \<lparr>server_deps = sample_deps, server_packer = sample_packer, server_registry = sample_registry,
     server_settings = sample_settings\<lparr>queue_config := (queue_config sample_settings)
       \<lparr>recover_on_start := True, queue_driver_of := RedisDriver, queue_name := ''Q''\<rparr>\<rparr>,
     server_timing = default_timing, server_dial = (\<lambda>_. Pair (Inr ())), server_cancelled = (\<lambda>_. False),
     server_sleep = (\<lambda>d v. v), server_select = (\<lambda>d v. (False, v)), open_abandoned = (\<lambda>_. None),
     run_command = (\<lambda>cmd e. Some (Inr (), e))\<rparr>"

text \<open>C31: A message that the shutdown interrupts loses two attempts instead of one when the first try to release it fails and the second succeeds: the retried release takes an attempt back a second time.\<close>

theorem retried_release_uncounts_twice:
  assumes "codec_ok (json_codec (server_deps x))"
    and "settle (server_deps x) q d KInterrupted s0 = (Inl (SettleInterrupted d' source), s1)"
    and "server_sleep x SHUTDOWN_SETTLE_DELAY (s1, e) = (s, e')"
    and "queue_inv (server_deps x) stored calm q s" "delivery_lane d = queue_lane_of q"
    and "queue_receipt q (delivery_receipt d)" "delivery_receipt d \<in> receipts (queue_view stored q s)"
  shows "\<exists>s' b. settle_until_done x q KInterrupted 0 (Inl (SettleInterrupted d' source)) (s1, e) =
      Some (LogOutcome Released, (s', e'))
    \<and> from_slice (json_codec (server_deps x)) b = Inr (envelope (uncount_attempt (uncount_attempt d)))
    \<and> queue_view stored q s' = lane_put Pending b (lane_drop (delivery_receipt d) (queue_view stored q s))"
proof -
  obtain b where b: "queue_enc (server_deps x) q (envelope (uncount_attempt (uncount_attempt d))) = Inr b"
    "from_slice (json_codec (server_deps x)) b = Inr (envelope (uncount_attempt (uncount_attempt d)))"
    using codec_enc [OF assms(1)] .
  then show ?thesis using second_release_law [OF assms(2-7) b(1)] by blast
qed

theorem retried_release_uncounts_twice_witness:
  "\<exists>s' b. settle_until_done sample_server sample_file_queue KInterrupted 0
      (fst (settle sample_deps sample_file_queue
        (new_delivery ((sample_envelope 3)\<lparr>attempts := 2\<rparr>) Primary (FileReceipt ''a'')) KInterrupted
        \<lparr>files = claimed_world [([], Fault (io_other ''input/output error'') 0)], server = sample_lists []\<rparr>))
      (\<lparr>files = claimed_world [], server = sample_lists []\<rparr>, 0) = Some (LogOutcome Released, (s', 0))
    \<and> sample_from_slice b = Inr ((sample_envelope 3)\<lparr>attempts := 0\<rparr>)
    \<and> queue_view (\<lambda>s. s) sample_file_queue s' = \<lparr>waiting = [b], running = [], dead = []\<rparr>"
proof -
  let ?d = "new_delivery ((sample_envelope 3)\<lparr>attempts := 2\<rparr>) Primary (FileReceipt ''a'')"
  let ?s0 = "\<lparr>files = claimed_world [([], Fault (io_other ''input/output error'') 0)], server = sample_lists []\<rparr>"
  let ?s1 = "\<lparr>files = claimed_world [], server = sample_lists []\<rparr>"
  let ?error = "QueueIo (io_other ''input/output error'')"
  have first: "settle sample_deps sample_file_queue ?d KInterrupted ?s0 =
      (Inl (SettleInterrupted (uncount_attempt ?d) ?error), ?s1)"
    by (simp add: settle_def queue_release_def queue_move_claimed_def sample_file_queue_def owns_def new_delivery_def
        uncount_attempt_def on_files_def store_move_claimed_def rename_if_present_def file_call_defs claimed_world_def
        Let_def io_other_def sample_store_def)
  have twice: "envelope (uncount_attempt (uncount_attempt ?d)) = (sample_envelope 3)\<lparr>attempts := 0\<rparr>"
    by (simp add: uncount_attempt_def new_delivery_def sat_sub_u32_def)
  have own: "delivery_lane ?d = queue_lane_of sample_file_queue" "queue_receipt sample_file_queue (delivery_receipt ?d)"
    by (simp_all add: new_delivery_def sample_file_queue_def sample_store_def is_hidden_def)
  have there: "delivery_receipt ?d \<in> receipts (queue_view (\<lambda>s. s) sample_file_queue ?s1)"
    unfolding claimed_queue(2) by (simp add: receipts_def new_delivery_def)
  have codec: "codec_ok (json_codec (server_deps sample_server))" using sample_codec_ok by (simp add: sample_server_def)
  have deps: "server_deps sample_server = sample_deps"
    and sleep: "server_sleep sample_server SHUTDOWN_SETTLE_DELAY (?s1, 0) = (?s1, 0)" by (simp_all add: sample_server_def)
  have dropped: "lane_put Pending b (lane_drop (delivery_receipt ?d) \<lparr>waiting = [], running = [(FileReceipt ''a'', ''old'')], dead = []\<rparr>)
      = \<lparr>waiting = [b], running = [], dead = []\<rparr>" for b
    by (simp add: lane_put_def lane_drop_def drop_last_def new_delivery_def)
  show ?thesis
    using retried_release_uncounts_twice [OF codec _ sleep _ own there, unfolded deps, OF first claimed_queue(1)]
    unfolding twice claimed_queue(2) dropped first by (simp add: sample_codec_def)
qed

section \<open>The program\<close>

text \<open>A program without plugins whose commands are those of the command line.\<close>

definition sample_program :: "(sample_server, nat, unit, nat) program" where
  "sample_program = \<lparr>prog_admin = sample_admin, prog_host = sample_host [], prog_os = sample_os None,
     prog_cron = (\<lambda>_. Inr ()), next_fire_text = (\<lambda>_. None), echo_from_str = (\<lambda>json. Inr (echo sample_terminal json)),
     exec_from_str = (\<lambda>json. Inl (DynError ''no'' None)), fields_to_json = (\<lambda>_. ''{}''), start_async = Inr (),
     start_engine = Inr (), start_ticker = Inr (), plugin_list = (\<lambda>_. []), blocking_pool = (\<lambda>cmd e. Some (Inr (Inr (), []), e)),
     fresh_id = 7, start_time = 0\<rparr>"

end
