(* ===== verification/Server.thy ===== *)
theory Server
  imports SharedLane Consumers Scheduling
begin

text \<open>
  A consumer of the server (\<open>src/inengine-core/src/server/consumers.rs\<close>) as a task: it makes one step at
  a time, between two of its await points, so that the steps of several tasks can follow each other
  in any order (\<open>Host\<close>). The steps of a consumer, one after the other, are those of \<open>consumer_run\<close>.
\<close>

section \<open>A consumer, step by step\<close>

text \<open>
  A consumer asks the token before it starts a command (\<open>Working\<close>). Once started, a command that
  does not return keeps the consumer where it is (\<open>Running\<close>), also after the token has fired.
\<close>

datatype consumer_phase =
    Opening
  | Reopening
  | Polling backend
  | Backing backend
  | Working backend delivery
  | Running backend delivery
  | Attempted backend delivery attempt
  | Settling backend attempt nat "settle_error + settle_outcome"
  | Resettling backend attempt nat delivery
  | Stopped

type_synonym consumer_state = "consumer_phase \<times> (attempt \<times> settle_log) list"

fun consumer_step ::
  "('s, 'c, 'e) server \<Rightarrow> queue_lane \<Rightarrow> consumer_state \<Rightarrow> ('s, 'e) server_state \<Rightarrow>
     (consumer_state \<times> ('s, 'e) server_state) option" where
  "consumer_step x lane (Opening, logged) v =
     (case open_abandoned x v of
        Some v' \<Rightarrow> Some ((Stopped, logged), v')
      | None \<Rightarrow>
          (case open_server_queue x lane v of
             (Inr queue, v') \<Rightarrow> Some ((Polling queue, logged), v')
           | (Inl error, v') \<Rightarrow> Some ((Reopening, logged), v')))"
| "consumer_step x lane (Reopening, logged) v =
     (case sleep_or_cancel x (retry_delay (server_timing x)) v of
        (fired, v') \<Rightarrow> Some ((if fired then Stopped else Opening, logged), v'))"
| "consumer_step x lane (Polling queue, logged) v =
     (if server_cancelled x (snd v) then Some ((Stopped, logged), v)
      else case queue_dequeue (server_deps x) queue (dequeue_wait (server_timing x)) (fst v) of
          None \<Rightarrow> None
        | Some (Inr (Some d), s') \<Rightarrow> Some ((Working queue d, logged), (s', snd v))
        | Some (Inr None, s') \<Rightarrow> Some ((Polling queue, logged), (s', snd v))
        | Some (Inl error, s') \<Rightarrow> Some ((Backing queue, logged), (s', snd v)))"
| "consumer_step x lane (Backing queue, logged) v =
     (case sleep_or_cancel x (retry_delay (server_timing x)) v of
        (fired, v') \<Rightarrow> Some ((if fired then Stopped else Polling queue, logged), v'))"
| "consumer_step x lane (Working queue d, logged) v =
     Some ((if server_cancelled x (snd v) then Attempted queue d AttemptInterrupted else Running queue d, logged), v)"
| "consumer_step x lane (Running queue d, logged) v =
     (case run_attempt (server_packer x) d (server_registry x) (server_cancelled x) (run_command x) (snd v) of
        None \<Rightarrow> Some ((Running queue d, logged), v)
      | Some (attempt, e') \<Rightarrow> Some ((Attempted queue d attempt, logged), (fst v, e')))"
| "consumer_step x lane (Attempted queue d attempt, logged) v =
     (case with_stores (settle (server_deps x) queue d (kind_of attempt)) v of
        (settled, v') \<Rightarrow> Some ((Settling queue attempt 0 settled, logged), v'))"
| "consumer_step x lane (Settling queue attempt retries settled, logged) v =
     (case settle_turn x (kind_of attempt) retries settled v of
        (Inl entry, v') \<Rightarrow> Some ((Polling queue, logged @ [(attempt, entry)]), v')
      | (Inr (d, retries'), v') \<Rightarrow> Some ((Resettling queue attempt retries' d, logged), v'))"
| "consumer_step x lane (Resettling queue attempt retries d, logged) v =
     (case with_stores (settle (server_deps x) queue d (kind_of attempt)) v of
        (settled, v') \<Rightarrow> Some ((Settling queue attempt retries settled, logged), v'))"
| "consumer_step x lane (Stopped, logged) v = Some ((Stopped, logged), v)"

primrec consumer_steps ::
  "nat \<Rightarrow> ('s, 'c, 'e) server \<Rightarrow> queue_lane \<Rightarrow> consumer_state \<Rightarrow> ('s, 'e) server_state \<Rightarrow>
     (consumer_state \<times> ('s, 'e) server_state) option" where
  "consumer_steps 0 x lane c v = Some (c, v)"
| "consumer_steps (Suc n) x lane c v =
     Option.bind (consumer_step x lane c v) (\<lambda>(c', v'). consumer_steps n x lane c' v')"

section \<open>The steps are the code's run\<close>

text \<open>What is left of the run of a consumer from a phase on.\<close>

definition then_loop ::
  "('s, 'c, 'e) server \<Rightarrow> backend \<Rightarrow> attempt \<Rightarrow> (attempt \<times> settle_log) list \<Rightarrow>
     (settle_log \<times> ('s, 'e) server_state) option \<Rightarrow> ((attempt \<times> settle_log) list \<times> ('s, 'e) server_state) option" where
  "then_loop x queue attempt logged done =
     Option.bind done (\<lambda>(entry, v'). consumer_loop x queue (logged @ [(attempt, entry)]) v')"

definition after_attempt ::
  "('s, 'c, 'e) server \<Rightarrow> backend \<Rightarrow> delivery \<Rightarrow> attempt \<Rightarrow> (attempt \<times> settle_log) list \<Rightarrow> ('s, 'e) server_state \<Rightarrow>
     ((attempt \<times> settle_log) list \<times> ('s, 'e) server_state) option" where
  "after_attempt x queue d attempt logged v =
     (case with_stores (settle (server_deps x) queue d (kind_of attempt)) v of
        (settled, v') \<Rightarrow> then_loop x queue attempt logged (settle_until_done x queue (kind_of attempt) 0 settled v'))"

definition from_opening ::
  "('s, 'c, 'e) server \<Rightarrow> queue_lane \<Rightarrow> (attempt \<times> settle_log) list \<Rightarrow> ('s, 'e) server_state \<Rightarrow>
     ((attempt \<times> settle_log) list \<times> ('s, 'e) server_state) option" where
  "from_opening x lane logged v =
     (case open_with_retry x lane v of
        None \<Rightarrow> None
      | Some (None, v') \<Rightarrow> Some (logged, v')
      | Some (Some queue, v') \<Rightarrow> consumer_loop x queue logged v')"

fun resume ::
  "('s, 'c, 'e) server \<Rightarrow> queue_lane \<Rightarrow> consumer_state \<Rightarrow> ('s, 'e) server_state \<Rightarrow>
     ((attempt \<times> settle_log) list \<times> ('s, 'e) server_state) option" where
  "resume x lane (Opening, logged) v = from_opening x lane logged v"
| "resume x lane (Reopening, logged) v =
     (case sleep_or_cancel x (retry_delay (server_timing x)) v of
        (fired, v') \<Rightarrow> if fired then Some (logged, v') else from_opening x lane logged v')"
| "resume x lane (Polling queue, logged) v = consumer_loop x queue logged v"
| "resume x lane (Backing queue, logged) v =
     (case sleep_or_cancel x (retry_delay (server_timing x)) v of
        (fired, v') \<Rightarrow> if fired then Some (logged, v') else consumer_loop x queue logged v')"
| "resume x lane (Working queue d, logged) v =
     Option.bind (consumer_process x queue d v) (\<lambda>(entry, v'). consumer_loop x queue (logged @ [entry]) v')"
| "resume x lane (Running queue d, logged) v =
     Option.bind (run_attempt (server_packer x) d (server_registry x) (server_cancelled x) (run_command x) (snd v))
       (\<lambda>(attempt, e'). after_attempt x queue d attempt logged (fst v, e'))"
| "resume x lane (Attempted queue d attempt, logged) v = after_attempt x queue d attempt logged v"
| "resume x lane (Settling queue attempt retries settled, logged) v =
     then_loop x queue attempt logged (settle_until_done x queue (kind_of attempt) retries settled v)"
| "resume x lane (Resettling queue attempt retries d, logged) v =
     (case with_stores (settle (server_deps x) queue d (kind_of attempt)) v of
        (settled, v') \<Rightarrow> then_loop x queue attempt logged (settle_until_done x queue (kind_of attempt) retries settled v'))"
| "resume x lane (Stopped, logged) v = Some (logged, v)"

lemma process_delivery_steps:
  "consumer_process x q d v =
     (case if server_cancelled x (snd v) then Some (AttemptInterrupted, snd v)
           else run_attempt (server_packer x) d (server_registry x) (server_cancelled x) (run_command x) (snd v) of
        None \<Rightarrow> None
      | Some (attempt, e') \<Rightarrow>
          (case with_stores (settle (server_deps x) q d (kind_of attempt)) (fst v, e') of
             (settled, v') \<Rightarrow>
               map_option (apfst (Pair attempt)) (settle_until_done x q (kind_of attempt) 0 settled v')))"
  by (cases v) (auto simp: consumer_process_def process_delivery_def with_stores_def Let_def split: prod.split option.split)

lemma resume_step:
  assumes "consumer_step x lane c v = Some (c', v')"
  shows "resume x lane c v = resume x lane c' v'"
  using assms
proof (cases "(x, lane, c, v)" rule: consumer_step.cases)
  case (1 x lane logged v)
  then show ?thesis using assms
    by (auto simp: from_opening_def open_with_retry.simps [of x lane v] split: option.splits sum.splits prod.splits)
next
  case (3 x lane q logged v)
  then show ?thesis using assms
    by (auto simp: consumer_loop.simps [of x q logged v] split: option.splits sum.splits prod.splits if_splits)
next
  case (5 x lane q d logged v)
  then show ?thesis using assms
    by (auto simp: process_delivery_steps after_attempt_def then_loop_def bind_map_option comp_def case_prod_unfold
        split: if_splits option.splits)
next
  case (6 x lane q d logged v)
  then show ?thesis using assms by (auto split: option.splits)
next
  case (7 x lane q d a logged v)
  then show ?thesis using assms by (auto simp: after_attempt_def split: prod.splits)
next
  case (8 x lane q a n settled logged v)
  then show ?thesis using assms
    by (auto simp: settle_until_done.simps [of x q "kind_of a" n settled v] then_loop_def split: prod.splits sum.splits)
qed (use assms in \<open>auto split: prod.splits if_splits\<close>)

lemma resume_steps: "consumer_steps n x lane c v = Some (c', v') \<Longrightarrow> resume x lane c v = resume x lane c' v'"
  by (induction n arbitrary: c v) (auto simp: resume_step bind_eq_Some_conv)

lemma consumer_steps_add:
  "consumer_steps (m + n) x lane c v =
     Option.bind (consumer_steps m x lane c v) (\<lambda>(c', v'). consumer_steps n x lane c' v')"
proof (induction m arbitrary: c v)
  case (Suc m)
  then show ?case by (cases "consumer_step x lane c v") (simp_all add: case_prod_unfold)
qed simp

definition reaches ::
  "('s, 'c, 'e) server \<Rightarrow> queue_lane \<Rightarrow> consumer_state \<Rightarrow> ('s, 'e) server_state \<Rightarrow> consumer_state \<Rightarrow>
     ('s, 'e) server_state \<Rightarrow> bool" where
  "reaches x lane c v c' v' = (\<exists>n. consumer_steps n x lane c v = Some (c', v'))"

lemma reaches_refl [simp, intro]: "reaches x lane c v c v"
  unfolding reaches_def by (intro exI [of _ 0]) simp

lemma reaches_trans: "reaches x lane c v c1 v1 \<Longrightarrow> reaches x lane c1 v1 c2 v2 \<Longrightarrow> reaches x lane c v c2 v2"
  unfolding reaches_def by (metis (mono_tags, lifting) consumer_steps_add bind.bind_lunit case_prod_conv)

lemma reaches_step: "consumer_step x lane c v = Some (c1, v1) \<Longrightarrow> reaches x lane c1 v1 c2 v2 \<Longrightarrow> reaches x lane c v c2 v2"
  unfolding reaches_def by (elim exE) (rule_tac x = "Suc n" in exI, simp)

lemma settle_until_done_reaches:
  fixes x :: "('s, 'c, 'e) server"
  assumes "settle_until_done x q kind n settled v = Some (entry, v')" "kind = kind_of a"
  shows "reaches x lane (Settling q a n settled, logged) v (Polling q, logged @ [(a, entry)]) v'"
proof -
  let ?P = "\<lambda>x q kind n settled v y. \<forall>a lane logged. kind = kind_of a \<longrightarrow>
    reaches x lane (Settling q a n settled, logged) v (Polling q, logged @ [(a, fst y)]) (snd y)"
  have "?P x q kind n settled v (entry, v')"
  proof (rule settle_until_done.raw_induct [where P = ?P and xa = "(((((x, q), kind), n), settled), v)",
      unfolded prod.case, OF _ assms(1)])
    fix loop and x :: "('s, 'c, 'e) server" and q kind n settled v y
    assume IH: "\<And>x q kind n settled v y. loop x q kind n settled v = Some y \<Longrightarrow> ?P x q kind n settled v y"
      and step: "(case settle_turn x kind n settled v of
        (Inl logged, v') \<Rightarrow> Some (logged, v')
      | (Inr (d, retries'), v') \<Rightarrow>
          (case with_stores (settle (server_deps x) q d kind) v' of
             (settled', v'') \<Rightarrow> loop x q kind retries' settled' v'')) = Some y"
    show "?P x q kind n settled v y"
    proof (intro allI impI)
      fix a lane logged assume kind: "kind = kind_of a"
      obtain t v1 where t: "settle_turn x kind n settled v = (t, v1)" by (rule prod.exhaust)
      show "reaches x lane (Settling q a n settled, logged) v (Polling q, logged @ [(a, fst y)]) (snd y)"
      proof (cases t)
        case (Inl entry)
        then show ?thesis using step t kind by (intro reaches_step [OF _ reaches_refl]) auto
      next
        case (Inr p)
        then obtain d n' where p: "t = Inr (d, n')" by (cases p) simp
        obtain settled' v2 where s: "with_stores (settle (server_deps x) q d kind) v1 = (settled', v2)" by (rule prod.exhaust)
        then have "reaches x lane (Settling q a n' settled', logged) v2 (Polling q, logged @ [(a, fst y)]) (snd y)"
          using IH step t p kind by auto
        moreover have "consumer_step x lane (Settling q a n settled, logged) v = Some ((Resettling q a n' d, logged), v1)"
          using t p kind by simp
        moreover have "consumer_step x lane (Resettling q a n' d, logged) v1 = Some ((Settling q a n' settled', logged), v2)"
          using s kind by simp
        ultimately show ?thesis by (blast intro: reaches_step)
      qed
    qed
  qed
  then show ?thesis using assms(2) by simp
qed

lemma open_with_retry_reaches:
  fixes x :: "('s, 'c, 'e) server"
  assumes "open_with_retry x lane v = Some (queue, v')"
  shows "reaches x lane (Opening, logged) v (case queue of None \<Rightarrow> Stopped | Some q \<Rightarrow> Polling q, logged) v'"
proof -
  let ?P = "\<lambda>x lane v y. reaches x lane (Opening, logged) v
    (case fst y of None \<Rightarrow> Stopped | Some q \<Rightarrow> Polling q, logged) (snd y)"
  have "?P x lane v (queue, v')"
  proof (rule open_with_retry.raw_induct [where P = ?P and xa = "((x, lane), v)", unfolded prod.case, OF _ assms])
    fix loop and x :: "('s, 'c, 'e) server" and lane v y
    assume IH: "\<And>x lane v y. loop x lane v = Some y \<Longrightarrow> ?P x lane v y"
      and step: "(case open_abandoned x v of
        Some v' \<Rightarrow> Some (None, v')
      | None \<Rightarrow>
          (case open_server_queue x lane v of
             (Inr queue, v') \<Rightarrow> Some (Some queue, v')
           | (Inl error, v') \<Rightarrow>
               (case sleep_or_cancel x (retry_delay (server_timing x)) v' of
                  (fired, v'') \<Rightarrow> if fired then Some (None, v'') else loop x lane v''))) = Some y"
    show "?P x lane v y"
    proof (cases "open_abandoned x v = None \<and> (\<exists>error. fst (open_server_queue x lane v) = Inl error)")
      case True
      then obtain error v1 where o: "open_abandoned x v = None" "open_server_queue x lane v = (Inl error, v1)"
        by (cases "open_server_queue x lane v") auto
      obtain fired v2 where f: "sleep_or_cancel x (retry_delay (server_timing x)) v1 = (fired, v2)" by (rule prod.exhaust)
      have "reaches x lane (if fired then Stopped else Opening, logged) v2
          (case fst y of None \<Rightarrow> Stopped | Some q \<Rightarrow> Polling q, logged) (snd y)"
        using step o f IH by (cases fired) auto
      moreover have "consumer_step x lane (Opening, logged) v = Some ((Reopening, logged), v1)"
        "consumer_step x lane (Reopening, logged) v1 = Some ((if fired then Stopped else Opening, logged), v2)"
        using o f by simp_all
      ultimately show ?thesis by (blast intro: reaches_step)
    next
      case False
      then show ?thesis using step
        by (intro reaches_step [OF _ reaches_refl]) (auto split: option.splits sum.splits prod.splits)
    qed
  qed
  then show ?thesis by simp
qed

lemma consumer_loop_reaches:
  fixes x :: "('s, 'c, 'e) server"
  assumes "consumer_loop x q logged v = Some (logged', v')"
  shows "reaches x lane (Polling q, logged) v (Stopped, logged') v'"
proof -
  let ?P = "\<lambda>x q logged v y. reaches x lane (Polling q, logged) v (Stopped, fst y) (snd y)"
  have "?P x q logged v (logged', v')"
  proof (rule consumer_loop.raw_induct [where P = ?P and xa = "(((x, q), logged), v)", unfolded prod.case, OF _ assms])
    fix loop and x :: "('s, 'c, 'e) server" and q logged v y
    assume IH: "\<And>x q logged v y. loop x q logged v = Some y \<Longrightarrow> ?P x q logged v y"
      and step: "(if server_cancelled x (snd v) then Some (logged, v)
      else case queue_dequeue (server_deps x) q (dequeue_wait (server_timing x)) (fst v) of
          None \<Rightarrow> None
        | Some (Inr (Some d), s') \<Rightarrow>
            (case consumer_process x q d (s', snd v) of
               None \<Rightarrow> None
             | Some (entry, v') \<Rightarrow> loop x q (logged @ [entry]) v')
        | Some (Inr None, s') \<Rightarrow> loop x q logged (s', snd v)
        | Some (Inl error, s') \<Rightarrow>
            (case sleep_or_cancel x (retry_delay (server_timing x)) (s', snd v) of
               (fired, v') \<Rightarrow> if fired then Some (logged, v') else loop x q logged v')) = Some y"
    show "?P x q logged v y"
    proof (cases "server_cancelled x (snd v)")
      case True
      then show ?thesis using step by (intro reaches_step [OF _ reaches_refl]) auto
    next
      case running: False
      then obtain r s1 where r: "queue_dequeue (server_deps x) q (dequeue_wait (server_timing x)) (fst v) = Some (r, s1)"
        using step by (auto split: option.splits)
      consider (failed) error where "r = Inl error" | (idle) "r = Inr None" | (claimed) d where "r = Inr (Some d)"
        by (cases r) (auto simp: not_None_eq [symmetric] simp del: not_None_eq)
      then show ?thesis
      proof cases
        case failed
        obtain fired v2 where f: "sleep_or_cancel x (retry_delay (server_timing x)) (s1, snd v) = (fired, v2)" by (rule prod.exhaust)
        have "reaches x lane (if fired then Stopped else Polling q, logged) v2 (Stopped, fst y) (snd y)"
          using step running r failed f IH by (cases fired) auto
        moreover have "consumer_step x lane (Polling q, logged) v = Some ((Backing q, logged), (s1, snd v))"
          "consumer_step x lane (Backing q, logged) (s1, snd v) = Some ((if fired then Stopped else Polling q, logged), v2)"
          using running r failed f by simp_all
        ultimately show ?thesis by (blast intro: reaches_step)
      next
        case idle
        then have "reaches x lane (Polling q, logged) (s1, snd v) (Stopped, fst y) (snd y)"
          using step running r IH by simp
        moreover have "consumer_step x lane (Polling q, logged) v = Some ((Polling q, logged), (s1, snd v))"
          using running r idle by simp
        ultimately show ?thesis by (blast intro: reaches_step)
      next
        case claimed
        obtain a e1 where a: "run_attempt (server_packer x) d (server_registry x) (server_cancelled x) (run_command x) (snd v) =
            Some (a, e1)"
          using step running r claimed by (auto simp: process_delivery_steps split: option.splits)
        obtain settled v2 where s: "with_stores (settle (server_deps x) q d (kind_of a)) (s1, e1) = (settled, v2)" by (rule prod.exhaust)
        obtain entry v3 where ended: "settle_until_done x q (kind_of a) 0 settled v2 = Some (entry, v3)"
          "loop x q (logged @ [(a, entry)]) v3 = Some y"
          using step running r claimed a s
          by (cases "settle_until_done x q (kind_of a) 0 settled v2") (auto simp: process_delivery_steps)
        have steps: "consumer_step x lane (Polling q, logged) v = Some ((Working q d, logged), (s1, snd v))"
          "consumer_step x lane (Working q d, logged) (s1, snd v) = Some ((Running q d, logged), (s1, snd v))"
          "consumer_step x lane (Running q d, logged) (s1, snd v) = Some ((Attempted q d a, logged), (s1, e1))"
          "consumer_step x lane (Attempted q d a, logged) (s1, e1) = Some ((Settling q a 0 settled, logged), v2)"
          using running r claimed a s by simp_all
        have "reaches x lane (Settling q a 0 settled, logged) v2 (Stopped, fst y) (snd y)"
          by (rule reaches_trans [OF settle_until_done_reaches [OF ended(1) refl] IH [OF ended(2)]])
        then show ?thesis by (rule reaches_step [OF steps(1) reaches_step [OF steps(2) reaches_step [OF steps(3) reaches_step [OF steps(4)]]]])
      qed
    qed
  qed
  then show ?thesis by simp
qed

text \<open>The steps of a consumer, which the interleavings are made of, are exactly its run: the run ends with a log and a state when some number of steps ends there.\<close>

theorem consumer_steps_are_its_run:
  "consumer_run x lane v = Some (logged, v') \<longleftrightarrow>
     (\<exists>n. consumer_steps n x lane (Opening, []) v = Some ((Stopped, logged), v'))"
proof
  assume run: "consumer_run x lane v = Some (logged, v')"
  then obtain queue v1 where o: "open_with_retry x lane v = Some (queue, v1)"
    "case queue of None \<Rightarrow> (logged, v') = ([], v1) | Some q \<Rightarrow> consumer_loop x q [] v1 = Some (logged, v')"
    by (auto simp: consumer_run_def split: option.splits)
  have "reaches x lane (Opening, []) v (Stopped, logged) v'"
    using open_with_retry_reaches [OF o(1), of "[]"] o(2) consumer_loop_reaches [of x _ "[]" v1 logged v' lane]
    by (cases queue) (auto intro: reaches_trans)
  then show "\<exists>n. consumer_steps n x lane (Opening, []) v = Some ((Stopped, logged), v')"
    unfolding reaches_def .
next
  assume "\<exists>n. consumer_steps n x lane (Opening, []) v = Some ((Stopped, logged), v')"
  then have "resume x lane (Opening, []) v = Some (logged, v')" using resume_steps by fastforce
  then show "consumer_run x lane v = Some (logged, v')" by (simp add: from_opening_def consumer_run_def)
qed

end
