(* ===== verification/Host.thy ===== *)
theory Host
  imports Server
begin

text \<open>
  The tasks of the server side by side (\<open>src/inengine-core/src/server/host.rs\<close>): one that starts the
  consumers lane after lane, the consumers, and the jobs. An execution is a list of events, each a
  step of one task, the firing of the token, or a publish of another process. The account of the
  messages holds in every order of the events, and after the token has fired every task ends.
\<close>

section \<open>A job, step by step\<close>

text \<open>\<open>Sleeping t d\<close> waits \<open>d\<close> until the fire time \<open>t\<close>.\<close>

datatype job_phase = Planning | Sleeping int nat | Firing int | JobStopped

type_synonym job_state = "job_phase \<times> (int \<times> command_result) list"

fun job_step ::
  "('e, 'k) scheduler \<Rightarrow> ('e, 'k) scheduled_job \<Rightarrow> job_state \<Rightarrow> 'e \<Rightarrow> (job_state \<times> 'e) option" where
  "job_step sc job (Planning, logged) e =
     (case upcoming sc (cron_schedule job) e of
        None \<Rightarrow> Some ((JobStopped, logged), e)
      | Some next_time \<Rightarrow> Some ((Sleeping next_time (nat (next_time - utc_now sc e)), logged), e))"
| "job_step sc job (Sleeping next_time duration, logged) e =
     (case select_sleep sc duration e of
        (fired, e') \<Rightarrow> Some ((if fired then JobStopped else Firing next_time, logged), e'))"
| "job_step sc job (Firing next_time, logged) e =
     (case run_with_lifecycle (sched_outside sc) (job_command job) (sched_settings sc)
             (job_lifecycle job) (sched_cancelled sc) e of
        None \<Rightarrow> None
      | Some (result, e') \<Rightarrow> Some ((Planning, logged @ [(next_time, result)]), e'))"
| "job_step sc job (JobStopped, logged) e = Some ((JobStopped, logged), e)"

section \<open>The task that starts the consumers\<close>

text \<open>
  \<open>QueueConsumers::run\<close> up to its joins: each lane with consumers is opened, recovered or reported,
  and then its consumers are spawned, also when the lane was not opened.
\<close>

datatype spawner =
    Spawning "queue_lane list"
  | RecoverOpening queue_lane "queue_lane list"
  | RecoverWaiting queue_lane "queue_lane list"
  | Reporting backend queue_lane "queue_lane list"
  | Spawned

type_synonym consumer_tasks = "(queue_lane \<times> consumer_state) list"

definition spawn :: "('s, 'c, 'e) server \<Rightarrow> queue_lane \<Rightarrow> consumer_tasks" where
  "spawn x lane = replicate (consumer_count (queue_config (server_settings x)) lane) (lane, (Opening, []))"

fun spawner_step ::
  "('s, 'c, 'e) server \<Rightarrow> spawner \<Rightarrow> ('s, 'e) server_state \<Rightarrow> (spawner \<times> consumer_tasks) \<times> ('s, 'e) server_state" where
  "spawner_step x (Spawning []) v = ((Spawned, []), v)"
| "spawner_step x (Spawning (lane # lanes)) v =
     (if consumer_count (queue_config (server_settings x)) lane = 0 then ((Spawning lanes, []), v)
      else ((RecoverOpening lane lanes, []), v))"
| "spawner_step x (RecoverOpening lane lanes) v =
     (case open_abandoned x v of
        Some v' \<Rightarrow> ((Spawning lanes, spawn x lane), v')
      | None \<Rightarrow>
          (case open_server_queue x lane v of
             (Inr queue, v') \<Rightarrow> ((Reporting queue lane lanes, []), v')
           | (Inl error, v') \<Rightarrow> ((RecoverWaiting lane lanes, []), v')))"
| "spawner_step x (RecoverWaiting lane lanes) v =
     (case sleep_or_cancel x (retry_delay (server_timing x)) v of
        (fired, v') \<Rightarrow>
          (if fired then (Spawning lanes, spawn x lane) else (RecoverOpening lane lanes, []), v'))"
| "spawner_step x (Reporting queue lane lanes) v =
     (case report_in_progress x queue v of (logged, v') \<Rightarrow> ((Spawning lanes, spawn x lane), v'))"
| "spawner_step x Spawned v = ((Spawned, []), v)"

section \<open>The server\<close>

text \<open>\<open>fire_token\<close> is what a signal does to the world: the token has fired after it.\<close>

record ('s, 'c, 'e, 'k) host =
  host_server :: "('s, 'c, 'e) server"
  host_scheduler :: "('e, 'k) scheduler"
  fire_token :: "'e \<Rightarrow> 'e"

record ('s, 'e, 'k) serving =
  serving_state :: "('s, 'e) server_state"
  serving_spawner :: spawner
  serving_consumers :: consumer_tasks
  serving_jobs :: "(('e, 'k) scheduled_job \<times> job_state) list"
  published_ids :: "queue_lane \<Rightarrow> uuid list"
  finished_ids :: "queue_lane \<Rightarrow> uuid list"

text \<open>\<open>Server::run\<close> joins the jobs of the scheduler and the consumers of all lanes.\<close>

definition serve :: "('e, 'k) schedule \<Rightarrow> ('s, 'e) server_state \<Rightarrow> ('s, 'e, 'k) serving" where
  "serve jobs v =
     \<lparr>serving_state = v, serving_spawner = Spawning all_lanes, serving_consumers = [],
      serving_jobs = map (\<lambda>job. (job, (Planning, []))) jobs,
      published_ids = (\<lambda>_. []), finished_ids = (\<lambda>_. [])\<rparr>"

definition server_ended :: "('s, 'e, 'k) serving \<Rightarrow> bool" where
  "server_ended v =
     (serving_spawner v = Spawned \<and> (\<forall>(lane, phase, logged) \<in> set (serving_consumers v). phase = Stopped)
      \<and> (\<forall>(job, phase, logged) \<in> set (serving_jobs v). phase = JobStopped))"

text \<open>The queue of a lane that the settings name.\<close>

definition host_queue :: "('s, 'c, 'e, 'k) host \<Rightarrow> queue_lane \<Rightarrow> backend" where
  "host_queue h lane =
     (let st = queue_config (server_settings (host_server h))
      in opened (queue_driver_of st) (queue_name st) (base_path st) lane)"

datatype serving_event = SpawnerMoves | ConsumerMoves nat | JobMoves nat | TokenFires | Publishes queue_lane command_envelope

text \<open>The message that a step acknowledged.\<close>

fun acknowledged_id :: "consumer_phase \<Rightarrow> consumer_phase \<Rightarrow> uuid list" where
  "acknowledged_id (Attempted queue d attempt) (Settling _ _ _ (Inr Acknowledged)) = [env_id (envelope d)]"
| "acknowledged_id (Resettling queue attempt retries d) (Settling _ _ _ (Inr Acknowledged)) = [env_id (envelope d)]"
| "acknowledged_id _ _ = []"

text \<open>A job or a consumer whose command does not return stays where it is; the other tasks go on.\<close>

fun serving_step ::
  "('s, 'c, 'e, 'k) host \<Rightarrow> serving_event \<Rightarrow> ('s, 'e, 'k) serving \<Rightarrow> ('s, 'e, 'k) serving option" where
  "serving_step h SpawnerMoves v =
     (case spawner_step (host_server h) (serving_spawner v) (serving_state v) of
        ((spawner, new), u) \<Rightarrow>
          Some (v\<lparr>serving_state := u, serving_spawner := spawner, serving_consumers := serving_consumers v @ new\<rparr>))"
| "serving_step h (ConsumerMoves i) v =
     (if i < length (serving_consumers v)
      then (case serving_consumers v ! i of
              (lane, phase, logged) \<Rightarrow>
                map_option (\<lambda>((phase', logged'), u).
                    v\<lparr>serving_state := u,
                      serving_consumers := (serving_consumers v)[i := (lane, phase', logged')],
                      finished_ids := (finished_ids v)(lane := acknowledged_id phase phase' @ finished_ids v lane)\<rparr>)
                  (consumer_step (host_server h) lane (phase, logged) (serving_state v)))
      else Some v)"
| "serving_step h (JobMoves i) v =
     (if i < length (serving_jobs v)
      then (case serving_jobs v ! i of
              (job, state) \<Rightarrow>
                (case job_step (host_scheduler h) job state (snd (serving_state v)) of
                   None \<Rightarrow> Some v
                 | Some (state', e') \<Rightarrow>
                     Some (v\<lparr>serving_state := (fst (serving_state v), e'),
                             serving_jobs := (serving_jobs v)[i := (job, state')]\<rparr>)))
      else Some v)"
| "serving_step h TokenFires v = Some (v\<lparr>serving_state := apsnd (fire_token h) (serving_state v)\<rparr>)"
| "serving_step h (Publishes lane env) v =
     (case queue_publish (server_deps (host_server h)) (host_queue h lane) env (fst (serving_state v)) of
        (Inr _, s') \<Rightarrow>
          Some (v\<lparr>serving_state := (s', snd (serving_state v)),
                  published_ids := (published_ids v)(lane := env_id env # published_ids v lane)\<rparr>)
      | (Inl error, s') \<Rightarrow> Some (v\<lparr>serving_state := (s', snd (serving_state v))\<rparr>))"

primrec serving_run ::
  "('s, 'c, 'e, 'k) host \<Rightarrow> serving_event list \<Rightarrow> ('s, 'e, 'k) serving \<Rightarrow> ('s, 'e, 'k) serving option" where
  "serving_run h [] v = Some v"
| "serving_run h (event # events) v = Option.bind (serving_step h event v) (serving_run h events)"

section \<open>What the account rests on\<close>

text \<open>
  The waits of a task leave the stores to the others; an opening that is cut off by the token
  leaves them alone or goes on to its end in the background.
\<close>

definition waits_apart :: "('s, 'c, 'e) server \<Rightarrow> bool" where
  "waits_apart x =
     ((\<forall>d v. fst (server_sleep x d v) = fst v) \<and> (\<forall>d v. fst (snd (server_select x d v)) = fst v)
      \<and> (\<forall>v v'. open_abandoned x v = Some v' \<longrightarrow>
           fst v' = fst v \<or> (\<exists>lane. fst v' = fst (snd (open_server_queue x lane v)))))"

text \<open>The delivery a consumer has in its hands.\<close>

fun in_hand :: "consumer_phase \<Rightarrow> delivery option" where
  "in_hand (Working queue d) = Some d"
| "in_hand (Running queue d) = Some d"
| "in_hand (Attempted queue d attempt) = Some d"
| "in_hand (Settling queue attempt retries (Inl (SettleInterrupted d source))) = Some d"
| "in_hand (Resettling queue attempt retries d) = Some d"
| "in_hand _ = None"

definition hands :: "queue_lane \<Rightarrow> consumer_tasks \<Rightarrow> delivery option list" where
  "hands lane cs = map (\<lambda>(l, phase, logged). if l = lane then in_hand phase else None) cs"

lemma hands_simps [simp]:
  "hands lane [] = []" "hands lane (cs @ ds) = hands lane cs @ hands lane ds" "length (hands lane cs) = length cs"
  by (simp_all add: hands_def)

lemma hands_update: "i < length cs \<Longrightarrow>
    hands lane (cs[i := (l, phase, logged)]) = (hands lane cs)[i := if l = lane then in_hand phase else None]"
  by (simp add: hands_def map_update)

lemma hands_nth: "i < length cs \<Longrightarrow> cs ! i = (l, phase, logged) \<Longrightarrow>
    hands lane cs ! i = (if l = lane then in_hand phase else None)"
  by (simp add: hands_def)

lemma deliveries_append [simp]: "deliveries (hs @ hs') = deliveries hs + deliveries hs'"
  by (simp add: deliveries_def List.map_filter_def)

lemma hands_spawn [simp]: "deliveries (hands lane (spawn x l)) = {#}"
  by (auto simp: hands_def spawn_def)

lemma hands_none: "lane \<notin> fst ` set cs \<Longrightarrow> deliveries (hands lane cs) = {#}"
  by (induction cs) (auto simp: hands_def deliveries_def List.map_filter_def)

section \<open>The account of every lane\<close>

definition account ::
  "('s, 'c, 'e, 'k) host \<Rightarrow> ('s \<Rightarrow> string \<Rightarrow> bytes list) \<Rightarrow> ('s \<Rightarrow> bool) \<Rightarrow> (queue_lane \<Rightarrow> uuid multiset) \<Rightarrow>
     consumer_tasks \<Rightarrow> (queue_lane \<Rightarrow> uuid list) \<Rightarrow> 's stores \<Rightarrow> bool" where
  "account h stored calm known cs fin s \<longleftrightarrow>
     (\<forall>lane. lane_inv (server_deps (host_server h)) stored calm (host_queue h lane) (known lane) (hands lane cs) (fin lane) s)"

lemma host_queue_apart: "l \<noteq> lane \<Longrightarrow> apart (host_queue h l) (host_queue h lane)"
  by (simp add: host_queue_def Let_def opened_apart)

lemma account_inv: "account h stored calm known cs fin s \<Longrightarrow>
    queue_inv (server_deps (host_server h)) stored calm (host_queue h lane) s"
  using lane_invD(1) by (fastforce simp: account_def)

text \<open>What one lane does keeps the account of the other.\<close>

lemma account_step:
  assumes "account h stored calm known cs fin s"
    and "lane_inv (server_deps (host_server h)) stored calm (host_queue h l) (known' l) (hands l cs') (fin' l) s'"
    and "changes_only stored (host_queue h l) s s'"
    and "\<And>lane. lane \<noteq> l \<Longrightarrow> known' lane = known lane \<and> fin' lane = fin lane
      \<and> deliveries (hands lane cs') = deliveries (hands lane cs)"
  shows "account h stored calm known' cs' fin' s'"
  unfolding account_def
proof
  fix lane
  show "lane_inv (server_deps (host_server h)) stored calm (host_queue h lane) (known' lane) (hands lane cs') (fin' lane) s'"
  proof (cases "lane = l")
    case False
    then have "lane_inv (server_deps (host_server h)) stored calm (host_queue h lane) (known lane) (hands lane cs) (fin lane) s'"
      using lane_inv_apart [OF _ host_queue_apart lane_invD(1) [OF assms(2)] assms(3)] assms(1)
      by (auto simp: account_def)
    then show ?thesis using lane_inv_deliveries assms(4) [OF False] by metis
  qed (use assms(2) in simp)
qed

lemma account_keep:
  assumes "account h stored calm known cs fin s" "changes_only stored (host_queue h l) s s'"
    and "lane_inv (server_deps (host_server h)) stored calm (host_queue h l) (known l) (hands l cs) (fin l) s'"
  shows "account h stored calm known cs fin s'"
  by (rule account_step [where known' = known and cs' = cs and fin' = fin, OF assms(1,3,2)]) simp

lemma account_tasks:
  assumes "account h stored calm known cs fin s" "\<And>lane. deliveries (hands lane cs') = deliveries (hands lane cs)"
  shows "account h stored calm known cs' fin s"
  using assms lane_inv_deliveries by (metis account_def)

text \<open>The step of one consumer replaces what it has in its hands.\<close>

lemma account_consumer:
  assumes "account h stored calm known cs fin s" "i < length cs" "cs ! i = (l, phase, logged)"
    and "lane_inv (server_deps (host_server h)) stored calm (host_queue h l) (known l)
      ((hands l cs)[i := in_hand phase']) (new @ fin l) s'"
    and "changes_only stored (host_queue h l) s s'"
  shows "account h stored calm known (cs[i := (l, phase', logged')]) (fin(l := new @ fin l)) s'"
proof (rule account_step [OF assms(1) _ assms(5)])
  fix lane assume "lane \<noteq> l"
  then have "hands lane (cs[i := (l, phase', logged')]) = hands lane cs"
    using hands_nth [OF assms(2,3), of lane] assms(2) by (auto simp: hands_update list_update_same_conv)
  then show "known lane = known lane \<and> (fin(l := new @ fin l)) lane = fin lane
      \<and> deliveries (hands lane (cs[i := (l, phase', logged')])) = deliveries (hands lane cs)"
    using \<open>lane \<noteq> l\<close> by simp
qed (use assms(2,4) in \<open>simp add: hands_update\<close>)

section \<open>What the steps of the tasks keep\<close>

text \<open>An opening leaves the messages as they are, and takes no time of the world of files.\<close>

lemma open_server_law:
  assumes "queue_inv (server_deps (host_server h)) stored calm (host_queue h lane) (fst v)"
    and "connects stored calm (server_connect (host_server h))"
  shows "\<exists>s'. open_server_queue (host_server h) lane v = (Inr (host_queue h lane), (s', snd v))
    \<and> queue_inv (server_deps (host_server h)) stored calm (host_queue h lane) s'
    \<and> queue_view stored (host_queue h lane) s' = queue_view stored (host_queue h lane) (fst v)
    \<and> changes_only stored (host_queue h lane) (fst v) s' \<and> clock (files s') = clock (files (fst v))"
proof -
  let ?st = "queue_config (server_settings (host_server h))" and ?c = "server_connect (host_server h)"
  have q: "host_queue h lane = opened (queue_driver_of ?st) (queue_name ?st) (base_path ?st) lane"
    by (simp add: host_queue_def Let_def)
  obtain s' where s': "open_queue ?c (queue_driver_of ?st) (queue_name ?st) (base_path ?st) lane (fst v) =
      (Inr (host_queue h lane), s')"
    "queue_inv (server_deps (host_server h)) stored calm (host_queue h lane) s'"
    "queue_view stored (host_queue h lane) s' = queue_view stored (host_queue h lane) (fst v)"
    using open_queue_law [OF assms(1) [unfolded q] assms(2)] unfolding q by blast
  have changes: "changes_only stored (host_queue h lane) (fst v) s'"
    using open_changes [OF assms(1) [unfolded q] assms(2)] s'(1) unfolding q by simp
  have "later (files (fst v)) (files s')"
    using later_open [of "fst v" ?c "queue_driver_of ?st" "queue_name ?st" "base_path ?st" lane] s'(1) by simp
  from still_clock [OF assms(1) this changes] show ?thesis
    using s' changes by (cases v) (simp add: open_server_queue_def Let_def)
qed

lemma account_open:
  assumes "account h stored calm known cs fin (fst v)" "connects stored calm (server_connect (host_server h))"
  shows "\<exists>s'. open_server_queue (host_server h) lane v = (Inr (host_queue h lane), (s', snd v))
    \<and> account h stored calm known cs fin s' \<and> clock (files s') = clock (files (fst v))"
proof -
  obtain s' where s': "open_server_queue (host_server h) lane v = (Inr (host_queue h lane), (s', snd v))"
    "queue_inv (server_deps (host_server h)) stored calm (host_queue h lane) s'"
    "queue_view stored (host_queue h lane) s' = queue_view stored (host_queue h lane) (fst v)"
    "changes_only stored (host_queue h lane) (fst v) s'" "clock (files s') = clock (files (fst v))"
    using open_server_law [OF account_inv [OF assms(1)] assms(2), of lane] by blast
  have "account h stored calm known cs fin s'"
    by (rule account_keep [OF assms(1) s'(4)]) (use assms(1) lane_inv_same [OF _ s'(2,3)] in \<open>auto simp: account_def\<close>)
  then show ?thesis using s'(1,5) by blast
qed

lemma account_abandoned:
  assumes "account h stored calm known cs fin (fst v)" "connects stored calm (server_connect (host_server h))"
    and "waits_apart (host_server h)" "open_abandoned (host_server h) v = Some v'"
  shows "account h stored calm known cs fin (fst v') \<and> clock (files (fst v')) = clock (files (fst v))"
proof -
  consider "fst v' = fst v" | lane where "fst v' = fst (snd (open_server_queue (host_server h) lane v))"
    using assms(3,4) unfolding waits_apart_def by blast
  then show ?thesis using account_open [OF assms(1,2)] assms(1) by cases (metis fst_conv snd_conv)+
qed

lemma open_world: "open_server_queue x lane v = (r, w) \<Longrightarrow> snd w = snd v"
  by (cases v) (auto simp: open_server_queue_def Let_def split: prod.splits)

lemma report_world: "report_in_progress x q v = (logged, w) \<Longrightarrow> snd w = snd v"
  by (auto simp: report_in_progress_def with_stores_def split: prod.splits sum.splits if_splits)

lemma waits_apartD:
  assumes "waits_apart x"
  shows "fst (server_sleep x d v) = fst v" "fst (snd (server_select x d v)) = fst v"
    "fst (snd (sleep_or_cancel x d v)) = fst v"
  using assms unfolding waits_apart_def sleep_or_cancel_def by blast+

lemma account_same_hands:
  assumes "account h stored calm known cs fin s" "i < length cs" "cs ! i = (l, phase, logged)" "in_hand phase' = in_hand phase"
  shows "account h stored calm known (cs[i := (l, phase', logged')]) fin s"
proof (rule account_tasks [OF assms(1)])
  fix lane
  have "hands lane (cs[i := (l, phase', logged')]) = (hands lane cs)[i := hands lane cs ! i]"
    using hands_nth [OF assms(2,3), of lane] assms(2,4) by (simp add: hands_update)
  then show "deliveries (hands lane (cs[i := (l, phase', logged')])) = deliveries (hands lane cs)" by simp
qed

text \<open>Every phase of a consumer works on the queue of its lane, and a settle has succeeded.\<close>

fun phase_ok :: "backend \<Rightarrow> consumer_phase \<Rightarrow> bool" where
  "phase_ok q (Polling queue) = (queue = q)"
| "phase_ok q (Backing queue) = (queue = q)"
| "phase_ok q (Working queue d) = (queue = q)"
| "phase_ok q (Running queue d) = (queue = q)"
| "phase_ok q (Attempted queue d attempt) = (queue = q)"
| "phase_ok q (Settling queue attempt retries settled) = (queue = q \<and> (\<exists>outcome. settled = Inr outcome))"
| "phase_ok q (Resettling queue attempt retries d) = False"
| "phase_ok q _ = True"

lemma account_consumer_step:
  assumes codec: "codec_ok (json_codec (server_deps (host_server h)))" and conn: "connects stored calm (server_connect (host_server h))"
    and waits: "waits_apart (host_server h)" and acc: "account h stored calm known cs fin (fst v)"
    and i: "i < length cs" "cs ! i = (l, phase, logged)" and ok: "phase_ok (host_queue h l) phase"
    and time: "clock (files (fst v)) + int (dequeue_wait (server_timing (host_server h))) \<le> instant_max"
  shows "\<exists>phase' logged' v'. consumer_step (host_server h) l (phase, logged) v = Some ((phase', logged'), v')
    \<and> phase_ok (host_queue h l) phase'
    \<and> account h stored calm known (cs[i := (l, phase', logged')]) (fin(l := acknowledged_id phase phase' @ fin l)) (fst v')
    \<and> clock (files (fst v')) \<le> clock (files (fst v)) + int (dequeue_wait (server_timing (host_server h)))"
proof -
  let ?x = "host_server h" and ?q = "host_queue h l" and ?wait = "dequeue_wait (server_timing (host_server h))"
  let ?inv = "\<lambda>hs fin. lane_inv (server_deps ?x) stored calm ?q (known l) hs fin"
  note same = account_same_hands [OF acc i]
  have here: "?inv (hands l cs) (fin l) (fst v)" using acc by (simp add: account_def)
  have hand: "i < length (hands l cs)" "hands l cs ! i = in_hand phase" using i hands_nth [OF i, of l] by simp_all
  show ?thesis
  proof (cases phase)
    case Opening
    show ?thesis
    proof (cases "open_abandoned ?x v")
      case None
      obtain s' where s': "open_server_queue ?x l v = (Inr ?q, (s', snd v))" "account h stored calm known cs fin s'"
        "clock (files s') = clock (files (fst v))"
        using account_open [OF acc conn] by blast
      then show ?thesis using None Opening account_same_hands [OF s'(2) i, of "Polling ?q"] by simp
    next
      case (Some v')
      note a = account_abandoned [OF acc conn waits Some]
      then show ?thesis using Some Opening account_same_hands [OF conjunct1 [OF a] i, of Stopped] by simp
    qed
  next
    case Reopening
    obtain fired v' where f: "sleep_or_cancel ?x (retry_delay (server_timing ?x)) v = (fired, v')" "fst v' = fst v"
      using waits_apartD(3) [OF waits] by (metis prod.collapse snd_conv)
    then show ?thesis using Reopening same [of Stopped logged] same [of Opening logged] by simp
  next
    case (Polling q)
    then have q: "q = ?q" using ok by simp
    show ?thesis
    proof (cases "server_cancelled ?x (snd v)")
      case running: False
      have "queue_timely ?wait ?q (fst v)" using time by (simp add: queue_timely_def split: backend.split)
      moreover have "hands l cs ! i = None" using hand(2) Polling by simp
      ultimately obtain r s' where s': "queue_dequeue (server_deps ?x) ?q ?wait (fst v) = Some (Inr r, s')"
        "?inv ((hands l cs)[i := r]) (fin l) s'" "changes_only stored ?q (fst v) s'"
        using lane_claim_inv [OF here _ hand(1)] by blast
      have clock: "clock (files s') \<le> clock (files (fst v)) + int ?wait"
        by (rule dequeue_clock [OF account_inv [OF acc] time s'(1)])
      define phase' where "phase' = (case r of None \<Rightarrow> Polling ?q | Some d \<Rightarrow> Working ?q d)"
      have p: "in_hand phase' = r" "phase_ok ?q phase'" "acknowledged_id phase phase' = []"
        by (simp_all add: phase'_def Polling split: option.split)
      have "consumer_step ?x l (phase, logged) v = Some ((phase', logged), (s', snd v))"
        using Polling q running s'(1) by (simp add: phase'_def split: option.split)
      moreover have "account h stored calm known (cs[i := (l, phase', logged)]) (fin(l := [] @ fin l)) s'"
        by (rule account_consumer [OF acc i _ s'(3)]) (use s'(2) p in simp)
      ultimately show ?thesis using p clock by auto
    qed (use Polling same in simp)
  next
    case (Backing q)
    obtain fired v' where f: "sleep_or_cancel ?x (retry_delay (server_timing ?x)) v = (fired, v')" "fst v' = fst v"
      using waits_apartD(3) [OF waits] by (metis prod.collapse snd_conv)
    then show ?thesis using Backing ok same [of Stopped logged] same [of "Polling q" logged] by simp
  next
    case (Working q d)
    then show ?thesis using ok same [of "Attempted q d AttemptInterrupted" logged] same [of "Running q d" logged] by simp
  next
    case (Running q d)
    then show ?thesis using ok same [of "Running q d" logged] same [of "Attempted q d _" logged]
      by (cases v) (auto split: option.split)
  next
    case (Attempted q d a)
    then have q: "q = ?q" and d: "hands l cs ! i = Some d" using ok hand(2) by simp_all
    let ?out = "outcome_of (for_attempt (kind_of a) (envelope d))"
    have act: "?out = Acknowledged \<longleftrightarrow> for_attempt (kind_of a) (envelope d) = Acknowledge"
      by (cases "for_attempt (kind_of a) (envelope d)") simp_all
    obtain s' where s': "settle (server_deps ?x) ?q d (kind_of a) (fst v) = (Inr ?out, s')"
      "?inv ((hands l cs)[i := None]) (if ?out = Acknowledged then env_id (envelope d) # fin l else fin l) s'"
      "changes_only stored ?q (fst v) s'"
      using lane_settle_inv [OF codec here hand(1) d, of "kind_of a"] act by auto
    have "later (files (fst v)) (files s')" using later_settle [of "fst v"] s'(1) by (metis snd_conv)
    note clock = still_clock [OF account_inv [OF acc] this s'(3)]
    let ?new = "acknowledged_id phase (Settling q a 0 (Inr ?out))"
    have new: "?new = (if ?out = Acknowledged then [env_id (envelope d)] else [])"
      by (cases ?out) (simp_all add: Attempted)
    have "account h stored calm known (cs[i := (l, Settling q a 0 (Inr ?out), logged)]) (fin(l := ?new @ fin l)) s'"
      by (rule account_consumer [OF acc i _ s'(3)]) (use s'(2) new in \<open>auto split: if_splits\<close>)
    then show ?thesis using Attempted q s'(1) clock by (simp add: with_stores_def)
  next
    case (Settling q a n settled)
    then obtain outcome where "settled = Inr outcome" using ok by auto
    then show ?thesis using Settling ok same by (simp add: settle_turn_def)
  next
    case (Resettling q a n d)
    then show ?thesis using ok by simp
  next
    case Stopped
    then show ?thesis using same by simp
  qed
qed

text \<open>The lanes that the spawner has not spawned yet.\<close>

fun lanes_left :: "spawner \<Rightarrow> queue_lane list" where
  "lanes_left (Spawning lanes) = lanes"
| "lanes_left (RecoverOpening lane lanes) = lane # lanes"
| "lanes_left (RecoverWaiting lane lanes) = lane # lanes"
| "lanes_left (Reporting queue lane lanes) = lane # lanes"
| "lanes_left Spawned = []"

fun spawner_ok :: "('s, 'c, 'e, 'k) host \<Rightarrow> spawner \<Rightarrow> bool" where
  "spawner_ok h (Reporting queue lane lanes) = (queue = host_queue h lane)"
| "spawner_ok h _ = True"

definition tasks_ok :: "('s, 'c, 'e, 'k) host \<Rightarrow> spawner \<Rightarrow> consumer_tasks \<Rightarrow> bool" where
  "tasks_ok h sp cs \<longleftrightarrow>
     spawner_ok h sp \<and> distinct (lanes_left sp) \<and> (\<forall>(l, phase, logged) \<in> set cs.
       phase_ok (host_queue h l) phase \<and> l \<notin> set (lanes_left sp))"

lemma account_spawn:
  "account h stored calm known (cs @ old) fin s \<Longrightarrow> account h stored calm known ((cs @ spawn x l) @ old) fin s"
  by (erule account_tasks) simp

lemma tasks_spawn:
  assumes "tasks_ok h sp cs" "lanes_left sp = l # ls"
  shows "tasks_ok h (Spawning ls) (cs @ spawn x l)"
  using assms by (fastforce simp: tasks_ok_def spawn_def)

text \<open>A wait or an opening is only cut off by the token.\<close>

definition token_only :: "('s, 'c, 'e, 'k) host \<Rightarrow> bool" where
  "token_only h \<longleftrightarrow>
     (let x = host_server h; fired = server_cancelled x
      in (\<forall>d v. fst (server_select x d v) \<longrightarrow> fired (snd (snd (server_select x d v))))
         \<and> (\<forall>v v'. open_abandoned x v = Some v' \<longrightarrow> fired (snd v')))"

lemma token_onlyD:
  assumes "token_only h"
  shows "sleep_or_cancel (host_server h) d v = (True, u) \<Longrightarrow> server_cancelled (host_server h) (snd u)"
    "open_abandoned (host_server h) v = Some u \<Longrightarrow> server_cancelled (host_server h) (snd u)"
  using assms unfolding token_only_def Let_def sleep_or_cancel_def by (metis fst_conv snd_conv)+

text \<open>
  What an earlier run left in progress counts as the hands of tasks \<open>old\<close> that make no step. A recovery
  of a lane puts it back.
\<close>

definition other_lanes :: "queue_lane \<Rightarrow> consumer_tasks \<Rightarrow> consumer_tasks" where
  "other_lanes l old = filter (\<lambda>c. fst c \<noteq> l) old"

lemma other_lanes_fst [simp]: "fst ` set (other_lanes l old) = fst ` set old - {l}"
  by (auto simp: other_lanes_def)

lemma other_lanes_subset: "mset (other_lanes l old) \<subseteq># mset old"
  by (simp add: other_lanes_def mset_filter multiset_filter_subset)

lemma hands_other: "lane \<noteq> l \<Longrightarrow> deliveries (hands lane (other_lanes l old)) = deliveries (hands lane old)"
  by (induction old) (auto simp: other_lanes_def hands_def deliveries_def List.map_filter_def)

lemma hands_subset: "mset old' \<subseteq># mset old \<Longrightarrow> deliveries (hands lane old') \<subseteq># deliveries (hands lane old)"
  by (simp add: deliveries_def List.map_filter_def hands_def mset_filter image_mset_subseteq_mono multiset_filter_mono)

text \<open>A report moves nothing that a consumer has in its hands: the lane has no consumers yet.\<close>

lemma account_report:
  assumes "account h stored calm known (cs @ old) fin (fst v)" "l \<notin> fst ` set cs" "size (deliveries (hands l old)) \<le> usize_max"
  shows "\<exists>logged s'. report_in_progress (host_server h) (host_queue h l) v = (logged, (s', snd v))
    \<and> account h stored calm known
        (cs @ (if recover_on_start (queue_config (server_settings (host_server h))) then other_lanes l old else old)) fin s'
    \<and> clock (files s') = clock (files (fst v))"
proof -
  let ?x = "server_deps (host_server h)" and ?q = "host_queue h l" and ?cs = "cs @ other_lanes l old"
  note inv = account_inv [OF assms(1)]
  have none: "deliveries (hands l cs) = {#}" "deliveries (hands l (other_lanes l old)) = {#}"
    using hands_none [OF assms(2)] hands_none [of l "other_lanes l old"] by simp_all
  have here: "lane_inv ?x stored calm ?q (known l) (hands l (cs @ old)) (fin l) (fst v)" using assms(1) by (simp add: account_def)
  obtain n s1 where s1: "queue_recover ?x ?q (fst v) = (Inr n, s1)"
    "lane_inv ?x stored calm ?q (known l) (hands l ?cs) (fin l) s1" "changes_only stored ?q (fst v) s1"
    using lane_recover_inv [OF here, of "hands l ?cs"] none assms(3) by auto
  obtain s2 where s2: "queue_lengths_of ?x ?q (fst v) = (Inr (lane_lengths (queue_view stored ?q (fst v))), s2)"
    "queue_inv ?x stored calm ?q s2" "queue_view stored ?q s2 = queue_view stored ?q (fst v)"
    using queue_lengths_law [OF inv] by blast
  have changes2: "changes_only stored ?q (fst v) s2" using lengths_changes [OF inv, of l] s2(1) by simp
  have "account h stored calm known ?cs fin s1"
    by (rule account_step [where known' = known and cs' = ?cs and fin' = fin, OF assms(1) s1(2,3)])
      (use hands_other in simp)
  moreover have "account h stored calm known (cs @ old) fin s2"
    by (rule account_keep [OF assms(1) changes2 lane_inv_same [OF here s2(2,3)]])
  moreover have "clock (files s1) = clock (files (fst v))" "clock (files s2) = clock (files (fst v))"
    using still_clock [OF inv _ s1(3)] still_clock [OF inv _ changes2]
      later_recover [of "fst v" ?x ?q] later_lengths [of "fst v" ?x ?q] s1(1) s2(1) by simp_all
  ultimately show ?thesis using s1(1) s2(1) by (simp add: report_in_progress_def with_stores_def)
qed

text \<open>
  What a step makes of \<open>old\<close>: no more than before is left, and nothing of a lane whose consumers it
  spawned, when lanes are recovered at the start and the token has not fired.
\<close>

definition sheds ::
  "('s, 'c, 'e, 'k) host \<Rightarrow> consumer_tasks \<Rightarrow> consumer_tasks \<Rightarrow> consumer_tasks \<Rightarrow> 'e \<Rightarrow> bool" where
  "sheds h new old old' e \<longleftrightarrow> mset old' \<subseteq># mset old
     \<and> (token_only h \<longrightarrow> recover_on_start (queue_config (server_settings (host_server h))) \<longrightarrow>
          \<not> server_cancelled (host_server h) e \<longrightarrow> fst ` set new \<inter> fst ` set old' = {})"

lemma sheds_same [simp]: "sheds h [] old old e"
  by (simp add: sheds_def)

lemma fst_spawn: "fst ` set (spawn x l) \<subseteq> {l}"
  by (auto simp: spawn_def)

lemma sheds_stopped:
  assumes "token_only h \<Longrightarrow> server_cancelled (host_server h) e"
  shows "sheds h new old old e"
  using assms by (auto simp: sheds_def)

lemma spawned_lane:
  assumes "spawner_step (host_server h) sp v = ((Spawning ls, spawn (host_server h) l), v')" "tasks_ok h sp cs"
    and "lanes_left sp = l # ls" "account h stored calm known (cs @ old') fin (fst v')"
    and "clock (files (fst v')) = clock (files (fst v))" "sheds h (spawn (host_server h) l) old old' (snd v')"
  shows "\<exists>sp' new v' old'. spawner_step (host_server h) sp v = ((sp', new), v') \<and> tasks_ok h sp' (cs @ new)
    \<and> account h stored calm known ((cs @ new) @ old') fin (fst v') \<and> clock (files (fst v')) = clock (files (fst v))
    \<and> sheds h new old old' (snd v')"
  using assms tasks_spawn [OF assms(2,3), of "host_server h"] account_spawn [OF assms(4), of "host_server h" l] by blast

lemma account_spawner_step:
  assumes "connects stored calm (server_connect (host_server h))" "waits_apart (host_server h)"
    and acc: "account h stored calm known (cs @ old) fin (fst v)" and ok: "tasks_ok h sp cs"
    and few: "\<And>lane. size (deliveries (hands lane old)) \<le> usize_max"
  shows "\<exists>sp' new v' old'. spawner_step (host_server h) sp v = ((sp', new), v') \<and> tasks_ok h sp' (cs @ new)
    \<and> account h stored calm known ((cs @ new) @ old') fin (fst v') \<and> clock (files (fst v')) = clock (files (fst v))
    \<and> sheds h new old old' (snd v')"
proof (cases sp)
  case (Spawning ls)
  then show ?thesis using acc ok sheds_same [of h old "snd v"]
    by (cases ls; cases v) (fastforce simp: tasks_ok_def)+
next
  case (RecoverOpening l ls)
  show ?thesis
  proof (cases "open_abandoned (host_server h) v")
    case None
    obtain s' where s': "open_server_queue (host_server h) l v = (Inr (host_queue h l), (s', snd v))"
      "account h stored calm known (cs @ old) fin s'" "clock (files s') = clock (files (fst v))"
      using account_open [OF acc assms(1)] by blast
    then show ?thesis using None RecoverOpening ok sheds_same [of h old "snd v"] by (fastforce simp: tasks_ok_def)
  next
    case (Some v')
    have "sheds h (spawn (host_server h) l) old old (snd v')"
      by (rule sheds_stopped) (use Some in \<open>auto dest: token_onlyD(2)\<close>)
    then show ?thesis
      by (rule spawned_lane [OF _ ok, rotated 4])
        (use RecoverOpening Some account_abandoned [OF acc assms(1,2) Some] in simp_all)
  qed
next
  case (RecoverWaiting l ls)
  obtain fired v' where f: "sleep_or_cancel (host_server h) (retry_delay (server_timing (host_server h))) v = (fired, v')"
    "fst v' = fst v"
    using waits_apartD(3) [OF assms(2)] by (metis prod.collapse snd_conv)
  show ?thesis
  proof (cases fired)
    case True
    have "sheds h (spawn (host_server h) l) old old (snd v')"
      by (rule sheds_stopped) (use f True in \<open>auto dest: token_onlyD(1)\<close>)
    then show ?thesis
      by (rule spawned_lane [OF _ ok, rotated 4]) (use True RecoverWaiting f acc in simp_all)
  next
    case False
    then show ?thesis using RecoverWaiting f acc ok sheds_same [of h old "snd v'"]
      by (fastforce simp: tasks_ok_def)
  qed
next
  case (Reporting q l ls)
  then have q: "q = host_queue h l" "l \<notin> fst ` set cs" using ok by (auto simp: tasks_ok_def)
  let ?old = "if recover_on_start (queue_config (server_settings (host_server h))) then other_lanes l old else old"
  have shed: "sheds h (spawn (host_server h) l) old ?old e" for e
    using other_lanes_subset [of l old] fst_spawn [of "host_server h" l] by (auto simp: sheds_def)
  obtain logged s' where reported: "report_in_progress (host_server h) (host_queue h l) v = (logged, (s', snd v))"
    "account h stored calm known (cs @ ?old) fin s'" "clock (files s') = clock (files (fst v))"
    using account_report [OF acc q(2) few] by blast
  show ?thesis
    by (rule spawned_lane [where v' = "(s', snd v)" and old' = ?old, OF _ ok])
      (use Reporting q(1) reported shed [of "snd v"] in simp_all)
next
  case Spawned
  then show ?thesis using acc ok sheds_same [of h old "snd v"] by fastforce
qed

section \<open>Every order of the events\<close>

definition serving_inv ::
  "('s, 'c, 'e, 'k) host \<Rightarrow> ('s \<Rightarrow> string \<Rightarrow> bytes list) \<Rightarrow> ('s \<Rightarrow> bool) \<Rightarrow> (queue_lane \<Rightarrow> uuid multiset) \<Rightarrow>
     consumer_tasks \<Rightarrow> nat \<Rightarrow> ('s, 'e, 'k) serving \<Rightarrow> bool" where
  "serving_inv h stored calm base old n v \<longleftrightarrow>
     account h stored calm (\<lambda>lane. base lane + mset (published_ids v lane)) (serving_consumers v @ old) (finished_ids v)
       (fst (serving_state v))
     \<and> tasks_ok h (serving_spawner v) (serving_consumers v)
     \<and> clock (files (fst (serving_state v))) + int (n * dequeue_wait (server_timing (host_server h))) \<le> instant_max
     \<and> (\<forall>lane. size (deliveries (hands lane old)) \<le> usize_max)"

lemma serving_inv_lane: "serving_inv h stored calm base old n v \<Longrightarrow>
    lane_inv (server_deps (host_server h)) stored calm (host_queue h lane) (base lane + mset (published_ids v lane))
      (hands lane (serving_consumers v) @ hands lane old) (finished_ids v lane) (fst (serving_state v))"
  by (simp add: serving_inv_def account_def)

text \<open>What the account rests on: the codec, the connection and the waits.\<close>

definition host_ok :: "('s, 'c, 'e, 'k) host \<Rightarrow> ('s \<Rightarrow> string \<Rightarrow> bytes list) \<Rightarrow> ('s \<Rightarrow> bool) \<Rightarrow> bool" where
  "host_ok h stored calm \<longleftrightarrow> codec_ok (json_codec (server_deps (host_server h)))
     \<and> connects stored calm (server_connect (host_server h)) \<and> waits_apart (host_server h)"

lemma serving_consumer_inv:
  assumes "host_ok h stored calm" "serving_inv h stored calm base old (Suc n) v"
  shows "\<exists>v'. serving_step h (ConsumerMoves i) v = Some v' \<and> serving_inv h stored calm base old n v'
    \<and> map fst (serving_consumers v') = map fst (serving_consumers v)"
proof (cases "i < length (serving_consumers v)")
  case i: True
  obtain l phase logged where c: "serving_consumers v ! i = (l, phase, logged)" by (rule prod_cases3)
  note ok = assms(1) [unfolded host_ok_def] and inv = assms(2) [unfolded serving_inv_def]
  have tasks: "tasks_ok h (serving_spawner v) (serving_consumers v)" using inv by simp
  have mem: "(l, phase, logged) \<in> set (serving_consumers v)" using i c by (metis nth_mem)
  then have here: "phase_ok (host_queue h l) phase" "l \<notin> set (lanes_left (serving_spawner v))"
    using tasks by (auto simp: tasks_ok_def)
  let ?wait = "dequeue_wait (server_timing (host_server h))" and ?cs = "serving_consumers v @ old"
  have time: "clock (files (fst (serving_state v))) + int ?wait + int (n * ?wait) \<le> instant_max"
    using inv by (simp add: algebra_simps)
  then have soon: "clock (files (fst (serving_state v))) + int ?wait \<le> instant_max"
    using of_nat_0_le_iff [of "n * ?wait"] by linarith
  have at: "i < length ?cs" "?cs ! i = (l, phase, logged)" using i c by (simp_all add: nth_append)
  obtain phase' logged' v' where step:
    "consumer_step (host_server h) l (phase, logged) (serving_state v) = Some ((phase', logged'), v')"
    "phase_ok (host_queue h l) phase'"
    "account h stored calm (\<lambda>lane. base lane + mset (published_ids v lane))
      (?cs[i := (l, phase', logged')]) ((finished_ids v)(l := acknowledged_id phase phase' @ finished_ids v l)) (fst v')"
    "clock (files (fst v')) \<le> clock (files (fst (serving_state v))) + int ?wait"
    using account_consumer_step [OF _ _ _ _ at here(1) soon] ok inv by blast
  have "tasks_ok h (serving_spawner v) ((serving_consumers v)[i := (l, phase', logged')])"
    using tasks step(2) here(2) set_update_subset_insert [of "serving_consumers v" i] by (fastforce simp: tasks_ok_def)
  moreover have "map fst ((serving_consumers v)[i := (l, phase', logged')]) = map fst (serving_consumers v)"
    using i c by (simp add: map_update list_update_same_conv)
  ultimately show ?thesis using i c step(1,3,4) time inv by (simp add: serving_inv_def list_update_append1)
qed (use assms(2) in \<open>simp add: serving_inv_def algebra_simps\<close>)

text \<open>The consumers that an event added.\<close>

definition added :: "('s, 'e, 'k) serving \<Rightarrow> ('s, 'e, 'k) serving \<Rightarrow> consumer_tasks" where
  "added v v' = drop (length (serving_consumers v)) (serving_consumers v')"

lemma serving_step_inv:
  assumes "host_ok h stored calm" "serving_inv h stored calm base old (Suc n) v"
  shows "\<exists>v' old'. serving_step h event v = Some v' \<and> serving_inv h stored calm base old' n v'
    \<and> map fst (serving_consumers v') = map fst (serving_consumers v) @ map fst (added v v')
    \<and> sheds h (added v v') old old' (snd (serving_state v'))"
proof -
  note ok = assms(1) [unfolded host_ok_def] and inv = assms(2) [unfolded serving_inv_def]
  have time: "clock (files (fst (serving_state v))) + int (n * dequeue_wait (server_timing (host_server h))) \<le> instant_max"
    using inv by (simp add: algebra_simps)
  show ?thesis
  proof (cases event)
    case SpawnerMoves
    have "account h stored calm (\<lambda>lane. base lane + mset (published_ids v lane)) (serving_consumers v @ old) (finished_ids v)
        (fst (serving_state v))" "tasks_ok h (serving_spawner v) (serving_consumers v)"
      "\<And>lane. size (deliveries (hands lane old)) \<le> usize_max"
      using inv by simp_all
    from account_spawner_step [OF _ _ this] ok obtain sp new u old' where u:
      "spawner_step (host_server h) (serving_spawner v) (serving_state v) = ((sp, new), u)"
      "tasks_ok h sp (serving_consumers v @ new)"
      "account h stored calm (\<lambda>lane. base lane + mset (published_ids v lane)) ((serving_consumers v @ new) @ old')
        (finished_ids v) (fst u)"
      "clock (files (fst u)) = clock (files (fst (serving_state v)))" "sheds h new old old' (snd u)"
      by blast
    have "size (deliveries (hands lane old')) \<le> usize_max" for lane
      using size_mset_mono [OF hands_subset [of old' old lane]] u(5) inv by (fastforce simp: sheds_def intro: order_trans)
    then show ?thesis using SpawnerMoves time u
      by (intro exI [of _ "v\<lparr>serving_state := u, serving_spawner := sp, serving_consumers := serving_consumers v @ new\<rparr>"]
          exI [of _ old']) (simp add: serving_inv_def added_def)
  next
    case (Publishes l env)
    obtain s' where s': "queue_publish (server_deps (host_server h)) (host_queue h l) env (fst (serving_state v)) = (Inr (), s')"
      "lane_inv (server_deps (host_server h)) stored calm (host_queue h l)
        (add_mset (env_id env) (base l + mset (published_ids v l))) (hands l (serving_consumers v @ old)) (finished_ids v l) s'"
      "changes_only stored (host_queue h l) (fst (serving_state v)) s'"
      using lane_publish_inv [of "server_deps (host_server h)" stored calm "host_queue h l"] ok inv
      by (fastforce simp: account_def)
    have acc: "account h stored calm (\<lambda>lane. base lane + mset (((published_ids v)(l := env_id env # published_ids v l)) lane))
        (serving_consumers v @ old) (finished_ids v) s'"
      by (rule account_step [OF _ _ s'(3)]) (use inv s'(2) in auto)
    have "queue_inv (server_deps (host_server h)) stored calm (host_queue h l) (fst (serving_state v))"
      using account_inv inv by blast
    then have "clock (files s') = clock (files (fst (serving_state v)))"
      by (rule still_clock [OF _ _ s'(3)])
        (use later_publish [of "fst (serving_state v)" "server_deps (host_server h)" "host_queue h l" env] s'(1) in simp)
    then show ?thesis using Publishes s'(1) acc inv time
      by (intro exI [of _ "v\<lparr>serving_state := (s', snd (serving_state v)),
            published_ids := (published_ids v)(l := env_id env # published_ids v l)\<rparr>"] exI [of _ old])
        (simp add: serving_inv_def added_def)
  next
    case (JobMoves i)
    then show ?thesis using inv time
      by (auto simp: serving_inv_def added_def intro!: exI [of _ old] split: option.split prod.split)
  next
    case TokenFires
    then show ?thesis using inv time by (auto simp: serving_inv_def added_def intro!: exI [of _ old])
  next
    case (ConsumerMoves i)
    obtain v' where v': "serving_step h (ConsumerMoves i) v = Some v'" "serving_inv h stored calm base old n v'"
      "map fst (serving_consumers v') = map fst (serving_consumers v)"
      using serving_consumer_inv [OF assms] by blast
    have "added v v' = []" using arg_cong [OF v'(3), of length] by (simp add: added_def)
    then show ?thesis using ConsumerMoves v' sheds_same [of h old "snd (serving_state v')"] by (intro exI [of _ v'] exI [of _ old]) simp
  qed
qed

lemma serving_run_inv:
  assumes "host_ok h stored calm" "serving_inv h stored calm base old (length events) v"
  shows "\<exists>v' old'. serving_run h events v = Some v' \<and> serving_inv h stored calm base old' 0 v' \<and> mset old' \<subseteq># mset old"
  using assms(2)
proof (induction events arbitrary: v old)
  case (Cons event events)
  obtain v1 old1 where v1: "serving_step h event v = Some v1" "serving_inv h stored calm base old1 (length events) v1"
    "mset old1 \<subseteq># mset old"
    using serving_step_inv [OF assms(1)] Cons.prems by (fastforce simp: sheds_def)
  then show ?case using Cons.IH [OF v1(2)] subset_mset.order_trans by fastforce
qed auto

text \<open>The start of a server, whatever an earlier one left in progress.\<close>

lemma serving_start_inv:
  assumes "\<And>lane. lane_inv (server_deps (host_server h)) stored calm (host_queue h lane) (base lane) (hands lane old) [] s"
    and "\<And>lane. size (deliveries (hands lane old)) \<le> usize_max"
    and "clock (files s) + int (n * dequeue_wait (server_timing (host_server h))) \<le> instant_max"
  shows "serving_inv h stored calm base old n (serve jobs (s, e))"
  using assms by (simp add: serving_inv_def account_def serve_def tasks_ok_def all_lanes_def)

lemma serving_idle_inv:
  assumes "\<forall>lane. queue_inv (server_deps (host_server h)) stored calm (host_queue h lane) s
      \<and> running (queue_view stored (host_queue h lane) s) = []"
    and "clock (files s) + int (n * dequeue_wait (server_timing (host_server h))) \<le> instant_max"
  shows "serving_inv h stored calm (\<lambda>lane.
      ids_in (json_codec (server_deps (host_server h))) (waiting (queue_view stored (host_queue h lane) s))
      + ids_in (json_codec (server_deps (host_server h))) (dead (queue_view stored (host_queue h lane) s))) [] n
    (serve jobs (s, e))"
  by (rule serving_start_inv)
    (use assms in \<open>auto simp: deliveries_def List.map_filter_def intro: lane_inv_start\<close>)

text \<open>When all tasks have ended, no consumer has a message in its hands.\<close>

lemma stopped_hands:
  "\<forall>(l, phase, logged) \<in> set cs. phase = Stopped \<Longrightarrow> deliveries (hands lane cs) = {#}"
  by (induction cs) (auto simp: hands_def deliveries_def List.map_filter_def)

lemma ended_hands: "server_ended v \<Longrightarrow> deliveries (hands lane (serving_consumers v)) = {#}"
  by (rule stopped_hands) (simp add: server_ended_def)

end
