(* ===== verification/Shutdown.thy ===== *)
theory Shutdown
  imports Host
begin

text \<open>
  The end of the server after its token has fired: every task has only a bounded number of steps
  left, so the server ends under every schedule that gives each task its turn, whatever the queues
  answer.
\<close>

section \<open>What a fired token does\<close>

text \<open>The token stays fired, and a wait for it or for a time that has not come yet ends at once.\<close>

definition keeps_token :: "('e \<Rightarrow> bool) \<Rightarrow> ('c \<Rightarrow> 'e \<Rightarrow> (command_result \<times> 'e) option) \<Rightarrow> bool" where
  "keeps_token fired run \<longleftrightarrow> (\<forall>command e result e'. run command e = Some (result, e') \<longrightarrow> fired e \<longrightarrow> fired e')"

definition token_lasts :: "('s, 'c, 'e, 'k) host \<Rightarrow> bool" where
  "token_lasts h \<longleftrightarrow>
     (let x = host_server h; sc = host_scheduler h; fired = server_cancelled x
      in (\<forall>d v. fired (snd v) \<longrightarrow> fired (snd (server_sleep x d v)))
         \<and> (\<forall>d v. fired (snd v) \<longrightarrow> fired (snd (snd (server_select x d v))) \<and> (0 < d \<longrightarrow> fst (server_select x d v)))
         \<and> (\<forall>v v'. fired (snd v) \<longrightarrow> open_abandoned x v = Some v' \<longrightarrow> fired (snd v'))
         \<and> (\<forall>d e. fired e \<longrightarrow> fired (snd (select_sleep sc d e)) \<and> (0 < d \<longrightarrow> fst (select_sleep sc d e)))
         \<and> (\<forall>e. fired e \<longrightarrow> fired (fire_token h e))
         \<and> keeps_token fired (run_command x)
         \<and> 0 < retry_delay (server_timing x))"

text \<open>The command of a job returns, and the next fire time is not now.\<close>

definition job_returns :: "('s, 'c, 'e, 'k) host \<Rightarrow> ('e, 'k) scheduled_job \<Rightarrow> bool" where
  "job_returns h job \<longleftrightarrow>
     (let sc = host_scheduler h
      in (\<forall>e t. upcoming sc (cron_schedule job) e = Some t \<longrightarrow> utc_now sc e < t)
         \<and> (\<forall>e. \<exists>result e'. run_with_lifecycle (sched_outside sc) (job_command job) (sched_settings sc)
               (job_lifecycle job) (sched_cancelled sc) e = Some (result, e')
             \<and> (server_cancelled (host_server h) e \<longrightarrow> server_cancelled (host_server h) e')))"

text \<open>When the token has fired, every command that a message can name returns.\<close>

definition commands_return :: "('s, 'c, 'e, 'k) host \<Rightarrow> bool" where
  "commands_return h \<longleftrightarrow>
     (let x = host_server h
      in \<forall>env command e. to_command (server_packer x) env (server_registry x) = Inr command \<longrightarrow>
           server_cancelled x e \<longrightarrow> (\<exists>result e'. run_command x command e = Some (result, e')))"

lemma token_lastsD:
  assumes "token_lasts h" "server_cancelled (host_server h) (snd v)"
  shows "server_cancelled (host_server h) (snd (server_sleep (host_server h) d v))"
    and "server_cancelled (host_server h) (snd (snd (sleep_or_cancel (host_server h) d v)))"
    and "fst (sleep_or_cancel (host_server h) (retry_delay (server_timing (host_server h))) v)"
    and "open_abandoned (host_server h) v = Some v' \<Longrightarrow> server_cancelled (host_server h) (snd v')"
  using assms by (simp_all add: token_lasts_def Let_def sleep_or_cancel_def del: split_paired_All)

lemma token_firesD: "token_lasts h \<Longrightarrow> server_cancelled (host_server h) e \<Longrightarrow> server_cancelled (host_server h) (fire_token h e)"
  by (simp add: token_lasts_def Let_def del: split_paired_All)

lemma token_commandD:
  assumes "token_lasts h" "server_cancelled (host_server h) e" "run_command (host_server h) command e = Some (r, e')"
  shows "server_cancelled (host_server h) e'"
  using assms unfolding token_lasts_def keeps_token_def Let_def by blast

lemma token_attemptD:
  assumes "token_lasts h" "server_cancelled (host_server h) e"
    and "run_attempt k d registry cancelled (run_command (host_server h)) e = Some (a, e')"
  shows "server_cancelled (host_server h) e'"
  using assms(3) token_commandD [OF assms(1,2)] assms(2) by (auto simp: run_attempt_def split: sum.splits option.splits)

lemma token_sleepD:
  assumes "token_lasts h" "server_cancelled (host_server h) (snd v)"
    and "sleep_or_cancel (host_server h) (retry_delay (server_timing (host_server h))) v = (fired, v')"
  shows "fired" "server_cancelled (host_server h) (snd v')"
  using token_lastsD(2,3) [OF assms(1,2)] assms(3) by (metis fst_conv snd_conv)+

section \<open>The steps a task has left\<close>

fun phase_rank :: "consumer_phase \<Rightarrow> nat" where
  "phase_rank Opening = 2"
| "phase_rank Reopening = 1"
| "phase_rank (Polling queue) = 1"
| "phase_rank (Backing queue) = 1"
| "phase_rank (Working queue d) = 11"
| "phase_rank (Running queue d) = 10"
| "phase_rank (Attempted queue d attempt) = 9"
| "phase_rank (Settling queue attempt retries settled) = 2 * (SHUTDOWN_SETTLE_RETRIES - retries) + 2"
| "phase_rank (Resettling queue attempt retries d) = 2 * (SHUTDOWN_SETTLE_RETRIES - retries) + 3"
| "phase_rank Stopped = 0"

text \<open>A lane that is still to be started counts the steps of the consumers that it will have.\<close>

definition lane_rank :: "('s, 'c, 'e) server \<Rightarrow> queue_lane \<Rightarrow> nat" where
  "lane_rank x lane = 2 * consumer_count (queue_config (server_settings x)) lane"

definition lanes_rank :: "('s, 'c, 'e) server \<Rightarrow> queue_lane list \<Rightarrow> nat" where
  "lanes_rank x lanes = sum_list (map (\<lambda>lane. lane_rank x lane + 4) lanes) + 1"

lemma lanes_rank_simps [simp]:
  "lanes_rank x [] = 1" "lanes_rank x (lane # lanes) = lane_rank x lane + 4 + lanes_rank x lanes"
  by (simp_all add: lanes_rank_def)

fun spawner_rank :: "('s, 'c, 'e) server \<Rightarrow> spawner \<Rightarrow> nat" where
  "spawner_rank x (Spawning lanes) = lanes_rank x lanes"
| "spawner_rank x (RecoverOpening lane lanes) = lane_rank x lane + 3 + lanes_rank x lanes"
| "spawner_rank x (RecoverWaiting lane lanes) = lane_rank x lane + 2 + lanes_rank x lanes"
| "spawner_rank x (Reporting queue lane lanes) = lane_rank x lane + 2 + lanes_rank x lanes"
| "spawner_rank x Spawned = 0"

fun job_rank :: "job_phase \<Rightarrow> nat" where
  "job_rank Planning = 2"
| "job_rank (Sleeping t d) = 1"
| "job_rank (Firing t) = 3"
| "job_rank JobStopped = 0"

definition consumers_rank :: "consumer_tasks \<Rightarrow> nat" where
  "consumers_rank cs = sum_list (map (\<lambda>(lane, phase, logged). phase_rank phase) cs)"

definition jobs_rank :: "(('e, 'k) scheduled_job \<times> job_state) list \<Rightarrow> nat" where
  "jobs_rank js = sum_list (map (\<lambda>(job, phase, logged). job_rank phase) js)"

definition serving_rank :: "('s, 'c, 'e, 'k) host \<Rightarrow> ('s, 'e, 'k) serving \<Rightarrow> nat" where
  "serving_rank h v =
     spawner_rank (host_server h) (serving_spawner v) + consumers_rank (serving_consumers v) + jobs_rank (serving_jobs v)"

lemma consumers_rank_simps [simp]:
  "consumers_rank (cs @ ds) = consumers_rank cs + consumers_rank ds" "consumers_rank [] = 0"
  "consumers_rank (spawn x lane) = lane_rank x lane"
  by (simp_all add: consumers_rank_def spawn_def lane_rank_def sum_list_replicate)

lemma sum_list_lower:
  fixes f :: "'a \<Rightarrow> nat"
  assumes "i < length xs" "f y < f (xs ! i)"
  shows "sum_list (map f (xs[i := y])) < sum_list (map f xs)"
  using assms
proof (induction xs arbitrary: i)
  case (Cons x xs)
  then show ?case by (cases i) auto
qed simp

lemma settle_turn_lasts:
  assumes "token_lasts h" "server_cancelled (host_server h) (snd v)"
  shows "server_cancelled (host_server h) (snd (snd (settle_turn (host_server h) kind n settled v)))"
proof -
  let ?x = "host_server h"
  obtain fired u where u: "sleep_or_cancel ?x (retry_delay (server_timing ?x)) v = (fired, u)" by (rule prod.exhaust)
  show ?thesis
    using assms(2) u token_sleepD(2) [OF assms u] token_lastsD(1) [OF assms]
    by (auto simp: settle_turn_def split: sum.split settle_error.split)
qed

lemma consumer_step_lasts:
  assumes "token_lasts h" "server_cancelled (host_server h) (snd v)"
    and "consumer_step (host_server h) lane (phase, logged) v = Some ((phase', logged'), v')"
  shows "server_cancelled (host_server h) (snd v')"
proof -
  let ?x = "host_server h"
  obtain fired u where u: "sleep_or_cancel ?x (retry_delay (server_timing ?x)) v = (fired, u)" by (rule prod.exhaust)
  note f = token_sleepD [OF assms(1,2) u] and lasts = token_lastsD [OF assms(1,2)]
  have "snd (snd (open_server_queue ?x lane v)) = snd v" by (cases v) (simp add: open_server_queue_def Let_def split: prod.split)
  then show ?thesis
    using assms(2,3) u f(2) lasts(4) token_attemptD [OF assms(1,2)] settle_turn_lasts [OF assms(1,2)]
    by (cases phase) (auto simp: with_stores_def split: option.splits prod.splits sum.splits if_splits; metis snd_conv)+
qed

lemma running_ends:
  assumes "commands_return h" "server_cancelled (host_server h) e"
  shows "\<exists>a e'. run_attempt (server_packer (host_server h)) d (server_registry (host_server h))
    (server_cancelled (host_server h)) (run_command (host_server h)) e = Some (a, e')"
  using assms by (intro run_attempt_ends) (simp add: commands_return_def Let_def)

lemma consumer_step_rank:
  assumes "token_lasts h" "commands_return h" "server_cancelled (host_server h) (snd v)" "phase \<noteq> Stopped"
  shows "\<exists>phase' logged' v'. consumer_step (host_server h) lane (phase, logged) v = Some ((phase', logged'), v')
    \<and> phase_rank phase' < phase_rank phase \<and> server_cancelled (host_server h) (snd v')"
proof -
  let ?x = "host_server h"
  obtain fired u where u: "sleep_or_cancel ?x (retry_delay (server_timing ?x)) v = (fired, u)" by (rule prod.exhaust)
  note f = token_sleepD [OF assms(1,3) u] and lasts = token_lastsD [OF assms(1,3)]
  show ?thesis
  proof (cases phase)
    case Opening
    have "snd (snd (open_server_queue ?x lane v)) = snd v" by (cases v) (simp add: open_server_queue_def Let_def split: prod.split)
    then show ?thesis using Opening assms(3) lasts(4)
      by (cases "open_server_queue ?x lane v"; cases "fst (open_server_queue ?x lane v)")
        (auto split: option.split)
  next
    case (Settling q a n settled)
    have "settle_turn ?x (kind_of a) n settled v = (Inr (d, n'), u') \<Longrightarrow>
        n < SHUTDOWN_SETTLE_RETRIES \<and> n' = Suc n" for d n' u'
      using f(1) u by (auto simp: settle_turn_def split: sum.splits settle_error.splits if_splits)
    moreover note settle_turn_lasts [OF assms(1,3), of "kind_of a" n settled]
    ultimately show ?thesis using Settling
      by (cases "settle_turn ?x (kind_of a) n settled v"; cases "fst (settle_turn ?x (kind_of a) n settled v)") fastforce+
  next
    case (Running q d)
    then show ?thesis using running_ends [OF assms(2,3), of d] token_attemptD [OF assms(1,3)] by force
  qed (use assms(3,4) u f in \<open>auto simp: with_stores_def SHUTDOWN_SETTLE_RETRIES_def split: prod.split\<close>)
qed

lemma spawner_step_rank:
  assumes "token_lasts h" "server_cancelled (host_server h) (snd v)" "sp \<noteq> Spawned"
    and "spawner_step (host_server h) sp v = ((sp', new), v')"
  shows "spawner_rank (host_server h) sp' + consumers_rank new < spawner_rank (host_server h) sp"
    and "server_cancelled (host_server h) (snd v')"
proof -
  let ?x = "host_server h"
  obtain fired u where u: "sleep_or_cancel ?x (retry_delay (server_timing ?x)) v = (fired, u)" by (rule prod.exhaust)
  note f = token_sleepD [OF assms(1,2) u] and lasts = token_lastsD [OF assms(1,2)]
  show "spawner_rank ?x sp' + consumers_rank new < spawner_rank ?x sp"
    using assms(3,4) u f(1)
    by (cases "(?x, sp, v)" rule: spawner_step.cases) (auto split: if_splits option.splits prod.splits sum.splits)
  show "server_cancelled ?x (snd v')"
    using assms(2-4) u f(2)
    by (cases "(?x, sp, v)" rule: spawner_step.cases)
      (auto split: if_splits option.splits prod.splits sum.splits dest: lasts(4) open_world report_world)
qed

lemma job_step_rank:
  assumes "token_lasts h" "job_returns h job" "server_cancelled (host_server h) e" "phase \<noteq> JobStopped"
    and "\<And>t d. phase = Sleeping t d \<Longrightarrow> 0 < d"
  shows "\<exists>phase' logged' e'. job_step (host_scheduler h) job (phase, logged) e = Some ((phase', logged'), e')
    \<and> job_rank phase' < job_rank phase \<and> server_cancelled (host_server h) e' \<and> (\<forall>t d. phase' = Sleeping t d \<longrightarrow> 0 < d)"
proof (cases phase)
  case Planning
  have "0 < nat (t - utc_now (host_scheduler h) e)" if "upcoming (host_scheduler h) (cron_schedule job) e = Some t" for t
    using assms(2) that by (simp add: job_returns_def Let_def)
  then show ?thesis using Planning assms(3) by (simp split: option.split)
next
  case (Sleeping t d)
  then have "fst (select_sleep (host_scheduler h) d e)" "server_cancelled (host_server h) (snd (select_sleep (host_scheduler h) d e))"
    using assms(1,3,5) by (simp_all add: token_lasts_def Let_def del: split_paired_All)
  then show ?thesis using Sleeping by (cases "select_sleep (host_scheduler h) d e") simp
next
  case (Firing t)
  then show ?thesis using assms(2,3) unfolding job_returns_def Let_def by force
qed (use assms(4) in simp)

section \<open>One step of the server\<close>

fun moves :: "serving_event \<Rightarrow> ('s, 'e, 'k) serving \<Rightarrow> bool" where
  "moves SpawnerMoves v = (serving_spawner v \<noteq> Spawned)"
| "moves (ConsumerMoves i) v = (i < length (serving_consumers v) \<and> fst (snd (serving_consumers v ! i)) \<noteq> Stopped)"
| "moves (JobMoves i) v = (i < length (serving_jobs v) \<and> fst (snd (serving_jobs v ! i)) \<noteq> JobStopped)"
| "moves _ v = False"

lemma ended_iff: "server_ended v \<longleftrightarrow> (\<forall>event. \<not> moves event v)"
proof
  assume ended: "server_ended v"
  then have "i < length (serving_consumers v) \<Longrightarrow> fst (snd (serving_consumers v ! i)) = Stopped"
    "i < length (serving_jobs v) \<Longrightarrow> fst (snd (serving_jobs v ! i)) = JobStopped" for i
    by (force simp: server_ended_def dest: nth_mem)+
  then show "\<forall>event. \<not> moves event v" using ended
    by (intro allI, rule_tac y = event in serving_event.exhaust) (auto simp: server_ended_def)
next
  assume "\<forall>event. \<not> moves event v"
  then have "\<not> moves SpawnerMoves v" "\<And>i. \<not> moves (ConsumerMoves i) v" "\<And>i. \<not> moves (JobMoves i) v" by blast+
  then show "server_ended v" by (fastforce simp: server_ended_def in_set_conv_nth)
qed

definition same_tasks :: "('s, 'e, 'k) serving \<Rightarrow> ('s, 'e, 'k) serving \<Rightarrow> bool" where
  "same_tasks v v' \<longleftrightarrow> serving_spawner v' = serving_spawner v \<and> serving_consumers v' = serving_consumers v
     \<and> serving_jobs v' = serving_jobs v"

lemma same_tasks_moves: "same_tasks v v' \<Longrightarrow> moves event v' = moves event v"
  by (cases event) (simp_all add: same_tasks_def)

text \<open>The jobs return, and a job sleeps for a time that has not come yet.\<close>

definition jobs_ok :: "('s, 'c, 'e, 'k) host \<Rightarrow> (('e, 'k) scheduled_job \<times> job_state) list \<Rightarrow> bool" where
  "jobs_ok h js \<longleftrightarrow> (\<forall>(job, phase, logged) \<in> set js. job_returns h job \<and> (\<forall>t d. phase = Sleeping t d \<longrightarrow> 0 < d))"

definition stopping :: "('s, 'c, 'e, 'k) host \<Rightarrow> ('s, 'e, 'k) serving \<Rightarrow> bool" where
  "stopping h v \<longleftrightarrow> server_cancelled (host_server h) (snd (serving_state v)) \<and> jobs_ok h (serving_jobs v)"

text \<open>A live task that moves has fewer steps left; an event that moves no live task changes no task.\<close>

lemma stopping_step:
  assumes "token_lasts h" "commands_return h" "stopping h v"
  shows "\<exists>v'. serving_step h event v = Some v' \<and> stopping h v'
    \<and> (serving_rank h v' < serving_rank h v \<or> same_tasks v v' \<and> \<not> moves event v)"
proof (cases event)
  case SpawnerMoves
  obtain sp new u where u: "spawner_step (host_server h) (serving_spawner v) (serving_state v) = ((sp, new), u)"
    by (metis prod.collapse)
  show ?thesis
  proof (cases "serving_spawner v = Spawned")
    case False
    then show ?thesis using SpawnerMoves u assms(3) spawner_step_rank [OF assms(1) _ False u]
      by (simp add: stopping_def serving_rank_def)
  qed (use SpawnerMoves assms(3) u in \<open>auto simp: stopping_def same_tasks_def\<close>)
next
  case (ConsumerMoves i)
  show ?thesis
  proof (cases "moves event v")
    case True
    then have i: "i < length (serving_consumers v)" using ConsumerMoves by simp
    obtain l phase logged where c: "serving_consumers v ! i = (l, phase, logged)" by (rule prod_cases3)
    then obtain phase' logged' u where u:
      "consumer_step (host_server h) l (phase, logged) (serving_state v) = Some ((phase', logged'), u)"
      "phase_rank phase' < phase_rank phase" "server_cancelled (host_server h) (snd u)"
      using consumer_step_rank [OF assms(1,2), of "serving_state v" phase l logged] assms(3) True ConsumerMoves
      by (auto simp: stopping_def)
    have "consumers_rank ((serving_consumers v)[i := (l, phase', logged')]) < consumers_rank (serving_consumers v)"
      unfolding consumers_rank_def by (rule sum_list_lower [OF i]) (simp add: c u(2))
    then show ?thesis using ConsumerMoves i c u assms(3) by (simp add: stopping_def serving_rank_def)
  next
    case False
    then show ?thesis using ConsumerMoves assms(3)
      by (cases "serving_consumers v ! i") (auto simp: stopping_def same_tasks_def list_update_same_conv)
  qed
next
  case (JobMoves i)
  show ?thesis
  proof (cases "moves event v")
    case True
    then have i: "i < length (serving_jobs v)" using JobMoves by simp
    obtain job phase logged where c: "serving_jobs v ! i = (job, phase, logged)" by (rule prod_cases3)
    have "(job, phase, logged) \<in> set (serving_jobs v)" using i c by (metis nth_mem)
    then have ok: "job_returns h job" "phase = Sleeping t d \<Longrightarrow> 0 < d" for t d
      using assms(3) by (auto simp: stopping_def jobs_ok_def)
    obtain phase' logged' e' where u:
      "job_step (host_scheduler h) job (phase, logged) (snd (serving_state v)) = Some ((phase', logged'), e')"
      "job_rank phase' < job_rank phase" "server_cancelled (host_server h) e'" "\<forall>t d. phase' = Sleeping t d \<longrightarrow> 0 < d"
      using job_step_rank [OF assms(1) ok(1), of "snd (serving_state v)" phase logged] ok(2) assms(3) True JobMoves c
      by (auto simp: stopping_def)
    have "jobs_rank ((serving_jobs v)[i := (job, phase', logged')]) < jobs_rank (serving_jobs v)"
      unfolding jobs_rank_def by (rule sum_list_lower [OF i]) (simp add: c u(2))
    moreover have "jobs_ok h ((serving_jobs v)[i := (job, phase', logged')])"
      using assms(3) ok(1) u(4) set_update_subset_insert [of "serving_jobs v" i] by (fastforce simp: stopping_def jobs_ok_def)
    ultimately show ?thesis using JobMoves i c u by (simp add: stopping_def serving_rank_def)
  next
    case False
    then show ?thesis using JobMoves assms(3) list_update_id [of "serving_jobs v" i]
      by (cases "serving_jobs v ! i") (auto simp: stopping_def same_tasks_def)
  qed
next
  case TokenFires
  then show ?thesis using assms(3) token_firesD [OF assms(1)] by (auto simp: stopping_def same_tasks_def)
next
  case (Publishes l env)
  then show ?thesis using assms(3) by (auto simp: stopping_def same_tasks_def split: prod.split sum.split)
qed

section \<open>Fair schedules\<close>

text \<open>Every task has its turn again and again.\<close>

definition fair :: "(nat \<Rightarrow> serving_event) \<Rightarrow> bool" where
  "fair \<sigma> \<longleftrightarrow>
     (\<forall>n i. (\<exists>m \<ge> n. \<sigma> m = SpawnerMoves) \<and> (\<exists>m \<ge> n. \<sigma> m = ConsumerMoves i) \<and> (\<exists>m \<ge> n. \<sigma> m = JobMoves i))"

lemma fair_turn: "fair \<sigma> \<Longrightarrow> moves event v \<Longrightarrow> \<exists>m \<ge> n. \<sigma> m = event"
  by (cases event) (auto simp: fair_def)

lemma serving_run_append: "serving_run h (es @ fs) v = Option.bind (serving_run h es v) (serving_run h fs)"
proof (induction es arbitrary: v)
  case (Cons e es)
  then show ?case by (cases "serving_step h e v") simp_all
qed simp

text \<open>Up to the turn of a live task, some task has moved.\<close>

lemma stopping_turn:
  assumes "token_lasts h" "commands_return h" "stopping h v" "moves (\<sigma> m) v" "n \<le> m"
  shows "\<exists>k v'. serving_run h (map \<sigma> [n..<k]) v = Some v' \<and> n \<le> k \<and> stopping h v' \<and> serving_rank h v' < serving_rank h v"
  using assms(3-5)
proof (induction "m - n" arbitrary: n v)
  case 0
  then have "n = m" by simp
  then show ?case using stopping_step [OF assms(1,2) 0(2), of "\<sigma> m"] 0(3)
    by (intro exI [of _ "Suc n"]) (auto simp: upt_rec)
next
  case (Suc j)
  obtain v1 where v1: "serving_step h (\<sigma> n) v = Some v1" "stopping h v1"
    "serving_rank h v1 < serving_rank h v \<or> same_tasks v v1"
    using stopping_step [OF assms(1,2) Suc(3)] by blast
  show ?case
  proof (cases "serving_rank h v1 < serving_rank h v")
    case True
    then show ?thesis using v1(1,2) by (intro exI [of _ "Suc n"]) (auto simp: upt_rec)
  next
    case False
    then have same: "same_tasks v v1" using v1(3) by simp
    have "j = m - Suc n" "Suc n \<le> m" using Suc(2) by simp_all
    from Suc(1) [OF this(1) v1(2) _ this(2)] Suc(4) same_tasks_moves [OF same] obtain k v' where
      "serving_run h (map \<sigma> [Suc n..<k]) v1 = Some v'" "Suc n \<le> k" "stopping h v'" "serving_rank h v' < serving_rank h v1"
      by blast
    moreover have "serving_rank h v1 = serving_rank h v" using same by (simp add: same_tasks_def serving_rank_def)
    ultimately show ?thesis using v1(1) by (intro exI [of _ k] exI [of _ v']) (simp add: upt_conv_Cons)
  qed
qed

lemma stopping_ends:
  assumes "token_lasts h" "commands_return h" "stopping h v" "fair \<sigma>"
  shows "\<exists>k v'. serving_run h (map \<sigma> [n..<k]) v = Some v' \<and> n \<le> k \<and> server_ended v'"
  using assms(3)
proof (induction "serving_rank h v" arbitrary: n v rule: less_induct)
  case less
  show ?case
  proof (cases "server_ended v")
    case True
    then show ?thesis by (intro exI [of _ n]) simp
  next
    case False
    then obtain event m where "moves event v" "n \<le> m" "\<sigma> m = event" using fair_turn [OF assms(4)] ended_iff by blast
    then obtain k v1 where v1: "serving_run h (map \<sigma> [n..<k]) v = Some v1" "n \<le> k" "stopping h v1"
      "serving_rank h v1 < serving_rank h v"
      using stopping_turn [OF assms(1,2) less(2)] by blast
    from less(1) [OF v1(4,3), of k] obtain k' v' where
      "serving_run h (map \<sigma> [k..<k']) v1 = Some v'" "k \<le> k'" "server_ended v'" by blast
    moreover from this v1(2) have "[n..<k'] = [n..<k] @ [k..<k']" by (metis le_Suc_ex upt_add_eq_append)
    ultimately show ?thesis using v1(1,2) by (intro exI [of _ k'] exI [of _ v']) (simp add: serving_run_append)
  qed
qed

section \<open>The jobs of a running server\<close>

lemma jobs_ok_step:
  assumes "serving_step h event v = Some v'" "jobs_ok h (serving_jobs v)"
  shows "jobs_ok h (serving_jobs v')"
proof (cases "\<exists>i. event = JobMoves i \<and> i < length (serving_jobs v)")
  case True
  then obtain i where i: "event = JobMoves i" "i < length (serving_jobs v)" by blast
  obtain job phase logged where c: "serving_jobs v ! i = (job, phase, logged)" by (rule prod_cases3)
  have "(job, phase, logged) \<in> set (serving_jobs v)" using i c by (metis nth_mem)
  then have ok: "job_returns h job" using assms(2) by (auto simp: jobs_ok_def)
  have later: "0 < d" if "job_step (host_scheduler h) job (phase, logged) e = Some ((Sleeping t d, logged'), e')" for logged' e e' t d
    using that ok by (cases phase) (auto simp: job_returns_def Let_def split: option.splits prod.splits if_splits)
  show ?thesis
  proof (cases "job_step (host_scheduler h) job (phase, logged) (snd (serving_state v))")
    case (Some r)
    obtain phase' logged' e' where r: "r = ((phase', logged'), e')" by (metis prod.collapse)
    then have "serving_jobs v' = (serving_jobs v)[i := (job, phase', logged')]" using assms(1) i c Some by auto
    then show ?thesis
      using assms(2) ok later Some r set_update_subset_insert [of "serving_jobs v" i] by (fastforce simp: jobs_ok_def)
  qed (use assms i c in auto)
next
  case False
  then have "serving_jobs v' = serving_jobs v"
    using assms(1) by (cases event) (auto split: prod.splits sum.splits if_splits)
  then show ?thesis using assms(2) by simp
qed

lemma jobs_ok_run: "serving_run h events v = Some v' \<Longrightarrow> jobs_ok h (serving_jobs v) \<Longrightarrow> jobs_ok h (serving_jobs v')"
  by (induction events arbitrary: v) (auto simp: bind_eq_Some_conv dest: jobs_ok_step)

lemma jobs_ok_start: "\<forall>job \<in> set jobs. job_returns h job \<Longrightarrow> jobs_ok h (serving_jobs (serve jobs v))"
  by (auto simp: jobs_ok_def serve_def)

section \<open>Service until the token fires\<close>

lemma serving_step_lasts:
  assumes "token_lasts h" "jobs_ok h (serving_jobs v)" "server_cancelled (host_server h) (snd (serving_state v))"
    and "serving_step h event v = Some v'"
  shows "server_cancelled (host_server h) (snd (serving_state v'))"
proof (cases event)
  case SpawnerMoves
  obtain sp new u where u: "spawner_step (host_server h) (serving_spawner v) (serving_state v) = ((sp, new), u)"
    by (metis prod.collapse)
  then show ?thesis
    using SpawnerMoves assms(3,4) spawner_step_rank(2) [OF assms(1,3) _ u] by (cases "serving_spawner v = Spawned") auto
next
  case (ConsumerMoves i)
  then show ?thesis
    using assms(3,4) consumer_step_lasts [OF assms(1,3)] by (auto split: prod.splits if_splits)
next
  case (JobMoves i)
  show ?thesis
  proof (cases "i < length (serving_jobs v) \<and> fst (snd (serving_jobs v ! i)) \<noteq> JobStopped")
    case True
    obtain job phase logged where c: "serving_jobs v ! i = (job, phase, logged)" by (rule prod_cases3)
    have "(job, phase, logged) \<in> set (serving_jobs v)" using True c by (metis nth_mem)
    then have "job_returns h job" "phase = Sleeping t d \<Longrightarrow> 0 < d" for t d
      using assms(2) by (auto simp: jobs_ok_def)
    from job_step_rank [OF assms(1) this(1) assms(3), of phase logged] this(2) show ?thesis
      using JobMoves True c assms(4) by auto
  next
    case False
    then show ?thesis using JobMoves assms(3,4) by (cases "serving_jobs v ! i") (auto split: if_splits)
  qed
next
  case TokenFires
  then show ?thesis using token_firesD [OF assms(1,3)] assms(4) by auto
next
  case (Publishes l env)
  then show ?thesis using assms(3,4) by (auto split: prod.splits sum.splits)
qed

lemma consumer_step_stops:
  assumes "token_only h" "phase \<noteq> Stopped" "consumer_step (host_server h) l (phase, logged) v = Some ((Stopped, logged'), v')"
  shows "server_cancelled (host_server h) (snd v')"
proof -
  have "server_cancelled (host_server h) (snd u)" if "sleep_or_cancel (host_server h) d v = (True, u)" for d u
    using token_onlyD(1) [OF assms(1)] that by blast
  moreover have "server_cancelled (host_server h) (snd u)" if "open_abandoned (host_server h) v = Some u" for u
    using token_onlyD(2) [OF assms(1)] that by blast
  ultimately show ?thesis
    using assms(2,3) by (cases phase) (auto split: option.splits sum.splits prod.splits if_splits)
qed

definition in_service :: "('s, 'c, 'e, 'k) host \<Rightarrow> ('s, 'e, 'k) serving \<Rightarrow> bool" where
  "in_service h v \<longleftrightarrow> jobs_ok h (serving_jobs v)
     \<and> (server_cancelled (host_server h) (snd (serving_state v)) \<or> Stopped \<notin> (\<lambda>c. fst (snd c)) ` set (serving_consumers v))"

lemma in_service_step:
  assumes "token_lasts h" "token_only h" "in_service h v" "serving_step h event v = Some v'"
  shows "in_service h v'"
proof (cases "server_cancelled (host_server h) (snd (serving_state v))")
  case True
  then show ?thesis
    using serving_step_lasts [OF assms(1) _ _ assms(4)] jobs_ok_step [OF assms(4)] assms(3) by (simp add: in_service_def)
next
  case False
  then have live: "Stopped \<notin> (\<lambda>c. fst (snd c)) ` set (serving_consumers v)" using assms(3) by (simp add: in_service_def)
  have "server_cancelled (host_server h) (snd (serving_state v')) \<or> Stopped \<notin> (\<lambda>c. fst (snd c)) ` set (serving_consumers v')"
  proof (cases event)
    case SpawnerMoves
    obtain sp new u where u: "spawner_step (host_server h) (serving_spawner v) (serving_state v) = ((sp, new), u)"
      by (metis prod.collapse)
    then have "Stopped \<notin> (\<lambda>c. fst (snd c)) ` set new"
      by (cases "(host_server h, serving_spawner v, serving_state v)" rule: spawner_step.cases)
        (auto simp: spawn_def split: if_splits option.splits sum.splits prod.splits)
    moreover have "serving_consumers v' = serving_consumers v @ new" using SpawnerMoves assms(4) u by auto
    ultimately show ?thesis using live by auto
  next
    case (ConsumerMoves i)
    show ?thesis
    proof (cases "i < length (serving_consumers v)")
      case i: True
      obtain l phase logged where c: "serving_consumers v ! i = (l, phase, logged)" by (rule prod_cases3)
      have "(l, phase, logged) \<in> set (serving_consumers v)" using i c by (metis nth_mem)
      then have going: "phase \<noteq> Stopped" using live by force
      obtain phase' logged' u where u:
        "consumer_step (host_server h) l (phase, logged) (serving_state v) = Some ((phase', logged'), u)"
        "serving_consumers v' = (serving_consumers v)[i := (l, phase', logged')]" "serving_state v' = u"
        using ConsumerMoves i c assms(4) by auto
      show ?thesis
      proof (cases "phase' = Stopped")
        case True
        then show ?thesis using consumer_step_stops [OF assms(2) going] u by auto
      next
        case False
        then show ?thesis using live set_update_subset_insert [of "serving_consumers v" i] unfolding u(2) by fastforce
      qed
    qed (use ConsumerMoves assms(4) live in simp)
  qed (use assms(4) live in \<open>auto split: prod.splits sum.splits option.splits if_splits\<close>)
  then show ?thesis using jobs_ok_step [OF assms(4)] assms(3) by (simp add: in_service_def)
qed

lemma in_service_run:
  assumes "token_lasts h" "token_only h"
  shows "serving_run h events v = Some v' \<Longrightarrow> in_service h v \<Longrightarrow> in_service h v'"
  by (induction events arbitrary: v) (auto simp: bind_eq_Some_conv dest: in_service_step [OF assms])

lemma in_service_start: "\<forall>job \<in> set jobs. job_returns h job \<Longrightarrow> in_service h (serve jobs v)"
  using jobs_ok_start by (fastforce simp: in_service_def serve_def)

end
