(* ===== verification/RunServer.thy ===== *)
theory RunServer
  imports Shutdown CommandLine
begin

text \<open>
  The server as the program runs it (\<open>run_server\<close> of \<open>src/inengine/src/main.rs\<close>): the plugins give the
  registry and the schedule, the signals fire the token, and the program ends when the server has.
\<close>

text \<open>
  What the operating system and tokio give the server, its waits, clocks, connection and token, is
  the host \<open>h\<close>; the program puts its settings and registry in, and its consumers run each command
  inside the default lifecycle, with what \<open>h\<close> gives the jobs.
\<close>

definition program_host ::
  "('s, 'm, 'k, 'e) program \<Rightarrow> ('s, 'e command, 'e, 'k) host \<Rightarrow> settings \<Rightarrow> 'e command command_registry \<Rightarrow>
     ('s, 'e command, 'e, 'k) host" where
  "program_host x h st registry =
     h\<lparr>host_server := (host_server h)\<lparr>server_deps := queue_deps (prog_admin x), server_packer := packer_deps (prog_admin x),
          server_registry := registry, server_settings := st, server_timing := default_timing,
          run_command := lifecycle_run (sched_outside (host_scheduler h)) st (server_cancelled (host_server h))\<rparr>,
       host_scheduler := (host_scheduler h)\<lparr>sched_settings := st\<rparr>\<rparr>"

definition program_jobs :: "('s, 'm, 'k, 'e) program \<Rightarrow> settings \<Rightarrow> ('e, 'k) schedule" where
  "program_jobs x st = fst (schedule_with_plugins x (fst (load_plugins_of x st)))"

text \<open>\<open>events\<close> is the order in which the tasks, the signals and other publishers act; \<open>None\<close> is a server that has not ended.\<close>

definition run_server ::
  "('s, 'm, 'k, 'e) program \<Rightarrow> ('s, 'e command, 'e, 'k) host \<Rightarrow> serving_event list \<Rightarrow> settings \<Rightarrow> 's stores \<times> 'e \<Rightarrow>
     ((io_error + unit) \<times> 's stores \<times> 'e) option" where
  "run_server x h events st v =
     (case registry_with_plugins x (fst (load_plugins_of x st)) of
        None \<Rightarrow> None
      | Some registry \<Rightarrow>
          run_async x (\<lambda>v.
              case serving_run (program_host x h st registry) events (serve (program_jobs x st) v) of
                None \<Rightarrow> None
              | Some u \<Rightarrow> if server_ended u then Some ((), serving_state u) else None) v)"

text \<open>What is left when the token has fired is bounded: a fair order of the rest ends the server.\<close>

lemma server_stops:
  assumes "token_lasts h" "commands_return h" "\<forall>job \<in> set jobs. job_returns h job"
    and "serving_run h events (serve jobs v) = Some u" "server_cancelled (host_server h) (snd (serving_state u))"
    and "fair \<sigma>"
  shows "\<exists>k u'. serving_run h (events @ map \<sigma> [0..<k]) (serve jobs v) = Some u' \<and> server_ended u'"
proof -
  have "stopping h u" using jobs_ok_run [OF assms(4) jobs_ok_start [OF assms(3)]] assms(5) by (simp add: stopping_def)
  from stopping_ends [OF assms(1,2) this assms(6), of 0] show ?thesis using assms(4) by (auto simp: serving_run_append)
qed

lemma run_server_ended:
  assumes "registry_with_plugins x (fst (load_plugins_of x st)) = Some registry" "start_async x = Inr ()"
    and "serving_run (program_host x h st registry) events (serve (program_jobs x st) v) = Some u" "server_ended u"
  shows "run_server x h events st v = Some (Inr (), serving_state u)"
  using assms by (simp add: run_server_def run_async_def)

end
