(* ===== verification/Tasks.thy ===== *)
theory Tasks
  imports Host
begin

text \<open>
  The steps of a job and of the task that starts the consumers, taken alone, are the runs of
  \<open>run_job\<close> (\<open>scheduling/scheduler.rs\<close>) and of the start of \<open>QueueConsumers::run\<close>
  (\<open>server/consumers.rs\<close>). The steps of a consumer are in \<open>Server\<close>.
\<close>

section \<open>A job\<close>

inductive job_reaches ::
  "('e, 'k) scheduler \<Rightarrow> ('e, 'k) scheduled_job \<Rightarrow> job_state \<Rightarrow> 'e \<Rightarrow> job_state \<Rightarrow> 'e \<Rightarrow> bool"
  for sc job where
  job_here: "job_reaches sc job c e c e"
| job_then: "job_step sc job c e = Some (c1, e1) \<Longrightarrow> job_reaches sc job c1 e1 c2 e2 \<Longrightarrow> job_reaches sc job c e c2 e2"

lemma job_reaches_trans:
  "job_reaches sc job c e c1 e1 \<Longrightarrow> job_reaches sc job c1 e1 c2 e2 \<Longrightarrow> job_reaches sc job c e c2 e2"
  by (induction rule: job_reaches.induct) (auto intro: job_then)

text \<open>What is left of the run of a job.\<close>

definition after_firing ::
  "('e, 'k) scheduler \<Rightarrow> ('e, 'k) scheduled_job \<Rightarrow> int \<Rightarrow> (int \<times> command_result) list \<Rightarrow> 'e \<Rightarrow>
     ((int \<times> command_result) list \<times> 'e) option" where
  "after_firing sc job t logged e =
     (case run_with_lifecycle (sched_outside sc) (job_command job) (sched_settings sc)
             (job_lifecycle job) (sched_cancelled sc) e of
        None \<Rightarrow> None
      | Some (result, e') \<Rightarrow> run_job sc job (logged @ [(t, result)]) e')"

fun job_resume ::
  "('e, 'k) scheduler \<Rightarrow> ('e, 'k) scheduled_job \<Rightarrow> job_state \<Rightarrow> 'e \<Rightarrow> ((int \<times> command_result) list \<times> 'e) option" where
  "job_resume sc job (Planning, logged) e = run_job sc job logged e"
| "job_resume sc job (Sleeping t d, logged) e =
     (case select_sleep sc d e of (fired, e1) \<Rightarrow> if fired then Some (logged, e1) else after_firing sc job t logged e1)"
| "job_resume sc job (Firing t, logged) e = after_firing sc job t logged e"
| "job_resume sc job (JobStopped, logged) e = Some (logged, e)"

lemma job_resume_step:
  assumes "job_step sc job c e = Some (c', e')"
  shows "job_resume sc job c e = job_resume sc job c' e'"
proof (cases "(sc, job, c, e)" rule: job_step.cases)
  case (1 sc job logged e)
  then show ?thesis using assms
    by (auto simp: run_job.simps [of sc job logged e] after_firing_def split: option.splits prod.splits)
qed (use assms in \<open>auto simp: after_firing_def split: prod.splits option.splits\<close>)

lemma job_resume_reaches: "job_reaches sc job c e c' e' \<Longrightarrow> job_resume sc job c e = job_resume sc job c' e'"
  by (induction rule: job_reaches.induct) (simp_all add: job_resume_step)

lemma run_job_reaches:
  fixes sc :: "('e, 'k) scheduler"
  assumes "run_job sc job logged e = Some (logged', e')"
  shows "job_reaches sc job (Planning, logged) e (JobStopped, logged') e'"
proof -
  let ?P = "\<lambda>sc job logged e y. job_reaches sc job (Planning, logged) e (JobStopped, fst y) (snd y)"
  have "?P sc job logged e (logged', e')"
  proof (rule run_job.raw_induct [where P = ?P, OF _ assms])
    fix loop and sc :: "('e, 'k) scheduler" and job logged e y
    assume IH: "\<And>job logged e b y. loop job logged e b = Some y \<Longrightarrow> ?P job logged e b y"
      and step: "(case upcoming sc (cron_schedule job) e of
        None \<Rightarrow> Some (logged, e)
      | Some next_time \<Rightarrow>
          (case select_sleep sc (nat (next_time - utc_now sc e)) e of
             (fired, e1) \<Rightarrow>
               if fired then Some (logged, e1)
               else (case run_with_lifecycle (sched_outside sc) (job_command job) (sched_settings sc)
                           (job_lifecycle job) (sched_cancelled sc) e1 of
                   None \<Rightarrow> None
                 | Some (result, e2) \<Rightarrow> loop sc job (logged @ [(next_time, result)]) e2))) = Some y"
    show "?P sc job logged e y"
    proof (cases "upcoming sc (cron_schedule job) e")
      case None
      then show ?thesis using step by (auto intro!: job_then [OF _ job_here])
    next
      case (Some t)
      obtain fired e1 where f: "select_sleep sc (nat (t - utc_now sc e)) e = (fired, e1)" by (rule prod.exhaust)
      have sleeps: "job_step sc job (Planning, logged) e = Some ((Sleeping t (nat (t - utc_now sc e)), logged), e)"
        "job_step sc job (Sleeping t (nat (t - utc_now sc e)), logged) e = Some ((if fired then JobStopped else Firing t, logged), e1)"
        using Some f by simp_all
      show ?thesis
      proof (cases fired)
        case True
        then show ?thesis using step Some f sleeps by (auto intro!: job_then [OF sleeps(1)] job_then [OF sleeps(2)] job_here)
      next
        case False
        then obtain r e2 where r: "run_with_lifecycle (sched_outside sc) (job_command job) (sched_settings sc)
             (job_lifecycle job) (sched_cancelled sc) e1 = Some (r, e2)" "loop sc job (logged @ [(t, r)]) e2 = Some y"
          using step Some f by (auto split: option.splits prod.splits)
        have "job_step sc job (Firing t, logged) e1 = Some ((Planning, logged @ [(t, r)]), e2)" using r(1) by simp
        from job_then [OF this IH [OF r(2)]] show ?thesis using job_then [OF sleeps(1) job_then [OF sleeps(2)]] False by simp
      qed
    qed
  qed
  then show ?thesis by simp
qed

lemma job_steps_are_its_run:
  "run_job sc job [] e = Some (logged, e') \<longleftrightarrow> job_reaches sc job (Planning, []) e (JobStopped, logged) e'"
  using run_job_reaches job_resume_reaches by fastforce

section \<open>The task that starts the consumers\<close>

inductive spawner_reaches ::
  "('s, 'c, 'e) server \<Rightarrow> spawner \<times> consumer_tasks \<Rightarrow> ('s, 'e) server_state \<Rightarrow> spawner \<times> consumer_tasks \<Rightarrow>
     ('s, 'e) server_state \<Rightarrow> bool"
  for x where
  spawner_here: "spawner_reaches x c v c v"
| spawner_then: "spawner_step x sp v = ((sp1, new), v1) \<Longrightarrow> spawner_reaches x (sp1, cs @ new) v1 c2 v2 \<Longrightarrow>
    spawner_reaches x (sp, cs) v c2 v2"

lemma spawner_reaches_trans:
  "spawner_reaches x c v c1 v1 \<Longrightarrow> spawner_reaches x c1 v1 c2 v2 \<Longrightarrow> spawner_reaches x c v c2 v2"
  by (induction rule: spawner_reaches.induct) (auto intro: spawner_then)

lemma spawner_one: "spawner_step x sp v = ((sp1, new), v1) \<Longrightarrow> spawner_reaches x (sp, cs) v (sp1, cs @ new) v1"
  by (rule spawner_then [OF _ spawner_here])

lemma open_with_retry_spawner:
  fixes x :: "('s, 'c, 'e) server"
  assumes "open_with_retry x lane v = Some (queue, v')"
  shows "spawner_reaches x (RecoverOpening lane lanes, cs) v
    (case queue of None \<Rightarrow> (Spawning lanes, cs @ spawn x lane) | Some q \<Rightarrow> (Reporting q lane lanes, cs)) v'"
proof -
  let ?P = "\<lambda>x lane v y. spawner_reaches x (RecoverOpening lane lanes, cs) v
    (case fst y of None \<Rightarrow> (Spawning lanes, cs @ spawn x lane) | Some q \<Rightarrow> (Reporting q lane lanes, cs)) (snd y)"
  have "?P x lane v (queue, v')"
  proof (rule open_with_retry.raw_induct [where P = ?P and xa = "((x, lane), v)", unfolded prod.case, OF _ assms])
    fix loop and x :: "('s, 'c, 'e) server" and lane v y
    assume IH: "\<And>x lane v y. loop x lane v = Some y \<Longrightarrow> ?P x lane v y"
      and step: "(case open_abandoned x v of
        Some v' \<Rightarrow> Some (None, v')
      | None \<Rightarrow>
          (case open_server_queue x lane v of
             (Inr queue, v') \<Rightarrow> Some (Some queue, v')
           | (Inl error, v') \<Rightarrow>
               (case sleep_or_cancel x (retry_delay (server_timing x)) v' of
                  (fired, v'') \<Rightarrow> if fired then Some (None, v'') else loop x lane v''))) = Some y"
    note one = spawner_one [of x "RecoverOpening lane lanes" v _ _ _ cs]
    show "?P x lane v y"
    proof (cases "open_abandoned x v = None \<and> (\<exists>error. fst (open_server_queue x lane v) = Inl error)")
      case True
      then obtain error v1 where o: "open_abandoned x v = None" "open_server_queue x lane v = (Inl error, v1)"
        by (cases "open_server_queue x lane v") auto
      obtain fired v2 where f: "sleep_or_cancel x (retry_delay (server_timing x)) v1 = (fired, v2)" by (rule prod.exhaust)
      have first: "spawner_reaches x (RecoverOpening lane lanes, cs) v (RecoverWaiting lane lanes, cs) v1"
        using one [of "RecoverWaiting lane lanes" "[]" v1] o by simp
      show ?thesis
      proof (cases fired)
        case True
        then show ?thesis
          using step o f spawner_reaches_trans [OF first spawner_one [of x _ v1 "Spawning lanes" "spawn x lane" v2]] by auto
      next
        case False
        have "spawner_reaches x (RecoverWaiting lane lanes, cs) v1 (RecoverOpening lane lanes, cs) v2"
          using spawner_one [of x "RecoverWaiting lane lanes" v1 "RecoverOpening lane lanes" "[]" v2 cs] f False by simp
        note again = spawner_reaches_trans [OF first this]
        have "loop x lane v2 = Some y" using step o f False by simp
        from spawner_reaches_trans [OF again IH [OF this]] show ?thesis .
      qed
    next
      case False
      then show ?thesis using step one [of "Spawning lanes" "spawn x lane"] one [of _ "[]"]
        by (auto split: option.splits sum.splits prod.splits)
    qed
  qed
  then show ?thesis by simp
qed

lemma start_consumers_spawner:
  assumes "start_consumers x lanes v = Some (logs, spawned, v')"
  shows "spawner_reaches x (Spawning lanes, cs) v (Spawned, cs @ map (\<lambda>(lane, i). (lane, (Opening, []))) spawned) v'"
  using assms
proof (induction lanes arbitrary: logs spawned v cs)
  case Nil
  then show ?case using spawner_one [of x "Spawning []" v Spawned "[]" v cs] by simp
next
  case (Cons lane lanes)
  let ?count = "consumer_count (queue_config (server_settings x)) lane"
  show ?case
  proof (cases "?count = 0")
    case True
    then have first: "spawner_reaches x (Spawning (lane # lanes), cs) v (Spawning lanes, cs) v"
      using spawner_one [of x "Spawning (lane # lanes)" v "Spawning lanes" "[]" v cs] by simp
    have "start_consumers x lanes v = Some (logs, spawned, v')" using Cons.prems True by simp
    from spawner_reaches_trans [OF first Cons.IH [OF this]] show ?thesis .
  next
    case False
    then obtain logged v1 logs2 spawned2 where r: "recover_or_report_in_progress x lane v = Some (logged, v1)"
      "start_consumers x lanes v1 = Some (logs2, spawned2, v')" "spawned = map (Pair lane) [0..<?count] @ spawned2"
      using Cons.prems by (auto simp: Let_def bind_eq_Some_conv)
    obtain opened v0 where o: "open_with_retry x lane v = Some (opened, v0)"
      "(logged, v1) = (case opened of None \<Rightarrow> (NotOpened, v0) | Some queue \<Rightarrow> report_in_progress x queue v0)"
      using r(1) by (auto simp: recover_or_report_in_progress_def)
    have "spawner_reaches x (Spawning (lane # lanes), cs) v (RecoverOpening lane lanes, cs) v"
      using spawner_one [of x "Spawning (lane # lanes)" v "RecoverOpening lane lanes" "[]" v cs] False by simp
    moreover note open_with_retry_spawner [OF o(1), of lanes cs]
    moreover have "spawner_reaches x (case opened of None \<Rightarrow> (Spawning lanes, cs @ spawn x lane) | Some q \<Rightarrow> (Reporting q lane lanes, cs)) v0
        (Spawning lanes, cs @ spawn x lane) v1"
    proof (cases opened)
      case (Some q)
      then have "report_in_progress x q v0 = (logged, v1)" using o(2) by simp
      then show ?thesis using Some spawner_one [of x "Reporting q lane lanes" v0 "Spawning lanes" "spawn x lane" v1 cs] by simp
    qed (use o(2) in \<open>simp add: spawner_here\<close>)
    ultimately have first: "spawner_reaches x (Spawning (lane # lanes), cs) v (Spawning lanes, cs @ spawn x lane) v1"
      by (blast intro: spawner_reaches_trans)
    have "spawn x lane = map (\<lambda>(lane, i). (lane, (Opening, []))) (map (Pair lane) [0..<?count])"
      by (simp add: spawn_def comp_def map_replicate_const)
    then have "cs @ map (\<lambda>(lane, i). (lane, (Opening, []))) spawned =
        (cs @ spawn x lane) @ map (\<lambda>(lane, i). (lane, (Opening, []))) spawned2"
      by (simp add: r(3))
    then show ?thesis using spawner_reaches_trans [OF first Cons.IH [OF r(2)]] by simp
  qed
qed

text \<open>What \<open>consumers_start\<close> spawns is what the task spawns.\<close>

lemma spawner_steps_are_the_start:
  "consumers_start x v = Some (logs, spawned, v') \<Longrightarrow>
     spawner_reaches x (Spawning all_lanes, []) v (Spawned, map (\<lambda>(lane, i). (lane, (Opening, []))) spawned) v'"
  using start_consumers_spawner [of x all_lanes v logs spawned v' "[]"] by (simp add: consumers_start_def)

end
