(* ===== verification/Recovery.thy ===== *)
theory Recovery
  imports Shutdown
begin

text \<open>
  What an earlier run of the server left in progress: the start of a server on any lanes, and, with
  \<open>recover_on_start\<close>, the recovery of a lane before its consumers start.
\<close>

section \<open>The start\<close>

text \<open>
  Where a server may start: nothing disturbs the queues of its lanes, and what is in progress there
  is readable, as everything that a dequeue claims is.
\<close>

definition startable :: "('s, 'c, 'e, 'k) host \<Rightarrow> ('s \<Rightarrow> string \<Rightarrow> bytes list) \<Rightarrow> ('s \<Rightarrow> bool) \<Rightarrow> 's stores \<Rightarrow> bool" where
  "startable h stored calm s \<longleftrightarrow>
     (\<forall>lane. let L = queue_view stored (host_queue h lane) s
             in queue_inv (server_deps (host_server h)) stored calm (host_queue h lane) s
                \<and> length (running L) \<le> usize_max
                \<and> (\<forall>(k, b) \<in> set (running L). \<not> unreadable (json_codec (server_deps (host_server h))) b))"

text \<open>The messages of a lane, by identifier: waiting, in progress and failed.\<close>

definition lane_ids :: "('s, 'c, 'e, 'k) host \<Rightarrow> ('s \<Rightarrow> string \<Rightarrow> bytes list) \<Rightarrow> 's stores \<Rightarrow> queue_lane \<Rightarrow> uuid multiset" where
  "lane_ids h stored s lane =
     (let c = json_codec (server_deps (host_server h)); L = queue_view stored (host_queue h lane) s
      in ids_in c (waiting L) + ids_in c (map snd (running L)) + ids_in c (dead L))"

text \<open>What is in progress at the start, as the hands of tasks that make no step.\<close>

definition held_by_nobody :: "codec \<Rightarrow> backend \<Rightarrow> queue_lane \<Rightarrow> (receipt \<times> bytes) list \<Rightarrow> consumer_tasks" where
  "held_by_nobody c q lane rs =
     map (\<lambda>(k, b). (lane, Working q (new_delivery (projr (from_slice c b)) lane k), [])) rs"

definition left_behind :: "('s, 'c, 'e, 'k) host \<Rightarrow> ('s \<Rightarrow> string \<Rightarrow> bytes list) \<Rightarrow> 's stores \<Rightarrow> consumer_tasks" where
  "left_behind h stored s = concat (map (\<lambda>lane. held_by_nobody (json_codec (server_deps (host_server h)))
     (host_queue h lane) lane (running (queue_view stored (host_queue h lane) s))) all_lanes)"

lemma deliveries_cons [simp]:
  "deliveries [] = {#}" "deliveries (None # hs) = deliveries hs" "deliveries (Some d # hs) = add_mset d (deliveries hs)"
  by (simp_all add: deliveries_def List.map_filter_def)

lemma hands_of_nobody: "deliveries (hands lane (held_by_nobody c q l rs)) =
    (if l = lane then mset (map (\<lambda>(k, b). new_delivery (projr (from_slice c b)) lane k) rs) else {#})"
  by (induction rs) (auto simp: held_by_nobody_def hands_def)

lemma hands_left: "deliveries (hands lane (left_behind h stored s)) =
    mset (map (\<lambda>(k, b). new_delivery (projr (from_slice (json_codec (server_deps (host_server h))) b)) lane k)
      (running (queue_view stored (host_queue h lane) s)))"
  by (cases lane) (simp_all add: left_behind_def all_lanes_def hands_of_nobody)

lemma host_queue_lane: "queue_lane_of (host_queue h lane) = lane"
  by (simp add: host_queue_def Let_def)

lemma running_receipt:
  assumes "(k, b) \<in> set (running (queue_view stored q s))"
  shows "queue_receipt q k"
proof (cases q)
  case (FileBackend st)
  let ?v = "stage_vis st (files s) InProgress"
  obtain n where "k = FileReceipt n" "(n, b) \<in> set (view_of ?v)"
    using assms FileBackend by (auto simp: queue_view_def file_view_def lane_of_def map_receipts_def)
  moreover from this have "n \<in> files_of ?v" using view_of_keys [OF finite_stage_vis, of st "files s" InProgress] by force
  ultimately show ?thesis using FileBackend by (auto simp: files_of_def stage_vis_def vis_def split: if_splits)
qed (use assms in \<open>auto simp: queue_view_def redis_view_def lane_of_lists_def map_receipts_def\<close>)

lemma id_readable: "\<not> unreadable c b \<Longrightarrow> id_of c b = Some (env_id (projr (from_slice c b)))"
  by (auto simp: unreadable_def id_of_def split: sum.splits)

lemma ids_readable: "(\<And>k b. (k, b) \<in> set rs \<Longrightarrow> \<not> unreadable c b) \<Longrightarrow>
    {#env_id (envelope d). d \<in># mset (map (\<lambda>(k, b). new_delivery (projr (from_slice c b)) lane k) rs)#} = ids_in c (map snd rs)"
  by (induction rs) (fastforce simp: new_delivery_def id_readable)+

lemma lane_inv_left:
  assumes "startable h stored calm s"
  shows "lane_inv (server_deps (host_server h)) stored calm (host_queue h lane) (lane_ids h stored s lane)
    (hands lane (left_behind h stored s)) [] s"
proof -
  let ?c = "json_codec (server_deps (host_server h))" and ?q = "host_queue h lane"
  let ?L = "queue_view stored ?q s"
  have inv: "queue_inv (server_deps (host_server h)) stored calm ?q s"
    and readable: "\<And>k b. (k, b) \<in> set (running ?L) \<Longrightarrow> \<not> unreadable ?c b"
    using assms by (auto simp: startable_def Let_def)
  have "\<forall>d \<in># deliveries (hands lane (left_behind h stored s)).
      delivery_lane d = queue_lane_of ?q \<and> queue_receipt ?q (delivery_receipt d)"
    using running_receipt by (auto simp: hands_left new_delivery_def host_queue_lane)
  moreover have "tracks ?c ?L (hands lane (left_behind h stored s))"
    using readable by (auto simp: tracks_def hands_left new_delivery_def image_mset.compositionality id_readable intro!: image_mset_cong)
  moreover have "ids_held (hands lane (left_behind h stored s)) = ids_in ?c (map snd (running ?L))"
    using readable ids_readable unfolding ids_held_def hands_left by blast
  ultimately show ?thesis using inv by (simp add: lane_inv_def lane_ids_def Let_def)
qed

lemma serving_left_inv:
  assumes "startable h stored calm s"
    and "clock (files s) + int (n * dequeue_wait (server_timing (host_server h))) \<le> instant_max"
  shows "serving_inv h stored calm (lane_ids h stored s) (left_behind h stored s) n (serve jobs (s, e))"
  by (rule serving_start_inv [OF lane_inv_left [OF assms(1)] _ assms(2)])
    (use assms(1) in \<open>simp add: hands_left startable_def Let_def\<close>)

section \<open>Recovery before the consumers of a lane\<close>

definition recovered :: "('s, 'c, 'e, 'k) host \<Rightarrow> consumer_tasks \<Rightarrow> ('s, 'e, 'k) serving \<Rightarrow> bool" where
  "recovered h old v \<longleftrightarrow> server_cancelled (host_server h) (snd (serving_state v))
     \<or> fst ` set (serving_consumers v) \<inter> fst ` set old = {}"

lemma recovered_step:
  assumes "host_ok h stored calm" "serving_inv h stored calm base old (Suc n) v"
    and "token_lasts h" "token_only h" "recover_on_start (queue_config (server_settings (host_server h)))"
    and "jobs_ok h (serving_jobs v)" "recovered h old v" "serving_step h event v = Some v'"
  shows "\<exists>old'. serving_inv h stored calm base old' n v' \<and> recovered h old' v' \<and> mset old' \<subseteq># mset old"
proof -
  obtain old' where old': "serving_inv h stored calm base old' n v'"
    "map fst (serving_consumers v') = map fst (serving_consumers v) @ map fst (added v v')"
    "sheds h (added v v') old old' (snd (serving_state v'))"
    using serving_step_inv [OF assms(1,2), of event] assms(8) by auto
  have less: "mset old' \<subseteq># mset old" using old'(3) by (simp add: sheds_def)
  have "recovered h old' v'"
  proof (cases "server_cancelled (host_server h) (snd (serving_state v'))")
    case False
    then have "\<not> server_cancelled (host_server h) (snd (serving_state v))"
      using serving_step_lasts [OF assms(3,6) _ assms(8)] by blast
    then have "fst ` set (serving_consumers v) \<inter> fst ` set old' = {}"
      using assms(7) set_mset_mono [OF less] by (auto simp: recovered_def)
    moreover have "fst ` set (added v v') \<inter> fst ` set old' = {}"
      using old'(3) False assms(4,5) by (simp add: sheds_def)
    moreover have "fst ` set (serving_consumers v') = fst ` set (serving_consumers v) \<union> fst ` set (added v v')"
      using arg_cong [OF old'(2), of set] by simp
    ultimately show ?thesis by (auto simp: recovered_def)
  qed (simp add: recovered_def)
  then show ?thesis using old'(1) less by blast
qed

lemma recovered_run:
  assumes "host_ok h stored calm" "token_lasts h" "token_only h"
    and "recover_on_start (queue_config (server_settings (host_server h)))"
  shows "serving_inv h stored calm base old (length events) v \<Longrightarrow> jobs_ok h (serving_jobs v) \<Longrightarrow> recovered h old v
    \<Longrightarrow> serving_run h events v = Some v'
    \<Longrightarrow> \<exists>old'. serving_inv h stored calm base old' 0 v' \<and> recovered h old' v'"
proof (induction events arbitrary: v old)
  case (Cons event events)
  obtain v1 where v1: "serving_step h event v = Some v1" "serving_run h events v1 = Some v'"
    using Cons.prems(4) by (auto simp: bind_eq_Some_conv)
  obtain old1 where "serving_inv h stored calm base old1 (length events) v1" "recovered h old1 v1"
    using recovered_step [OF assms(1) _ assms(2-4) Cons.prems(2,3) v1(1)] Cons.prems(1) by auto
  then show ?case using Cons.IH [OF _ jobs_ok_step [OF v1(1) Cons.prems(2)]] v1(2) by blast
qed auto

lemma hands_recovered:
  assumes "recovered h old v" "\<not> server_cancelled (host_server h) (snd (serving_state v))"
    and "lane \<in> fst ` set (serving_consumers v)"
  shows "deliveries (hands lane old) = {#}"
  using assms hands_none [of lane old] by (auto simp: recovered_def)

end
