(* ===== verification/HostProperties.thy ===== *)
theory HostProperties
  imports ServerProperties RunServer Tasks Recovery "HOL-Library.Countable"
begin

text \<open>
  The properties of the whole server: its account of the messages in every order of its steps, and
  its end after the token has fired.
\<close>

section \<open>A running server\<close>

text \<open>Settings with a Redis queue and one consumer on each lane.\<close>

definition sample_serving_settings :: settings where
  "sample_serving_settings = sample_settings\<lparr>queue_config := (queue_config sample_settings)
     \<lparr>recover_on_start := False, queue_driver_of := RedisDriver, queue_name := ''Q'',
       primary_queue_consumers := 1, secondary_queue_consumers := 1\<rparr>\<rparr>"

text \<open>A server over the sample Redis server; the token has fired when the world is not 0.\<close>

definition sample_serving :: "'c command_registry \<Rightarrow> (sample_server, 'c, nat, unit) host" where
  "sample_serving r =
     \<lparr>host_server = \<lparr>server_deps = sample_deps, server_packer = sample_packer, server_registry = r,
        server_settings = sample_serving_settings, server_timing = default_timing, server_dial = (\<lambda>_. Pair (Inr ())),
        server_cancelled = (\<lambda>e. 0 < e), server_sleep = (\<lambda>d v. v), server_select = (\<lambda>d v. (0 < snd v, v)),
        open_abandoned = (\<lambda>v. if 0 < snd v then Some v else None), run_command = (\<lambda>cmd e. Some (Inr (), e))\<rparr>,
      host_scheduler = sample_scheduler\<lparr>sched_cancelled := (\<lambda>e. 0 < e), upcoming := (\<lambda>_ _. Some 1), utc_now := (\<lambda>_. 0),
        select_sleep := (\<lambda>d e. (0 < e, e))\<rparr>,
      fire_token = Suc\<rparr>"

abbreviation sample_hosting :: "(sample_server, string, nat, unit) host" where
  "sample_hosting \<equiv> sample_serving sample_registry"

definition sample_start :: "sample_server stores" where
  "sample_start = \<lparr>files = sample_world [], server = sample_lists [sample_to_vec (sample_envelope 3)]\<rparr>"

lemma sample_serving_queue: "host_queue (sample_serving r) lane = opened RedisDriver ''Q'' (base_path (queue_config sample_settings)) lane"
  by (simp add: host_queue_def sample_serving_def sample_serving_settings_def Let_def)

lemma sample_serving_ok: "host_ok (sample_serving r) (\<lambda>s. s) (\<lambda>_. True)"
  using sample_codec_ok
  by (simp add: host_ok_def sample_serving_def sample_serving_settings_def server_connect_def connects_def waits_apart_def)

lemma sample_serving_inv:
  "queue_inv (server_deps (host_server (sample_serving r))) (\<lambda>s. s) (\<lambda>_. True) (host_queue (sample_serving r) lane) sample_start
   \<and> running (queue_view (\<lambda>s. s) (host_queue (sample_serving r) lane) sample_start) = []"
  unfolding sample_serving_queue
  using sample_redis_ok
  by (cases lane) (simp_all add: queue_inv_def opened_def redis_inv_def all_stages_def stage_key_def open_redis_def
    redis_stage_key_def sample_serving_def sample_serving_settings_def queue_view_def redis_view_def lane_of_lists_def
    map_receipts_def sample_start_def sample_lists_def)

lemma sample_time:
  "n \<le> 100 \<Longrightarrow>
    clock (files sample_start) + int (n * dequeue_wait (server_timing (host_server (sample_serving r)))) \<le> instant_max"
  by (simp add: sample_start_def sample_world_def sample_serving_def sample_serving_settings_def default_timing_def DEQUEUE_WAIT_def
    instant_max_def)

text \<open>C2: From a start with nothing in progress and with no call on the queue that fails, however the tasks of a server, its signals and other publishers follow each other, in every state what is in progress on a lane is exactly what its consumers have in their hands, and every readable message that was stored or published is, exactly once, waiting, in hand, failed or acknowledged, on either driver.\<close>

theorem server_neither_loses_nor_doubles:
  assumes "host_ok h stored calm"
    and "\<forall>lane. queue_inv (server_deps (host_server h)) stored calm (host_queue h lane) s
      \<and> running (queue_view stored (host_queue h lane) s) = []"
    and "clock (files s) + int (length events * dequeue_wait (server_timing (host_server h))) \<le> instant_max"
  shows "\<exists>v. serving_run h events (serve jobs (s, e)) = Some v
    \<and> (\<forall>lane. mset (map fst (running (queue_view stored (host_queue h lane) (fst (serving_state v))))) =
          {#delivery_receipt d. d \<in># deliveries (hands lane (serving_consumers v))#}
      \<and> ids_in (json_codec (server_deps (host_server h))) (waiting (queue_view stored (host_queue h lane) s))
          + ids_in (json_codec (server_deps (host_server h))) (dead (queue_view stored (host_queue h lane) s))
          + mset (published_ids v lane) =
        ids_in (json_codec (server_deps (host_server h))) (waiting (queue_view stored (host_queue h lane) (fst (serving_state v))))
          + ids_held (hands lane (serving_consumers v))
          + ids_in (json_codec (server_deps (host_server h))) (dead (queue_view stored (host_queue h lane) (fst (serving_state v))))
          + mset (finished_ids v lane))"
proof -
  obtain v where v: "serving_run h events (serve jobs (s, e)) = Some v" "serving_inv h stored calm (\<lambda>lane.
      ids_in (json_codec (server_deps (host_server h))) (waiting (queue_view stored (host_queue h lane) s))
      + ids_in (json_codec (server_deps (host_server h))) (dead (queue_view stored (host_queue h lane) s))) [] 0 v"
    using serving_run_inv [OF assms(1) serving_idle_inv [OF assms(2,3)]] by fastforce
  note lane = serving_inv_lane [OF v(2)]
  from v(1) tracks_receipts [OF lane_invD(4) [OF lane]] lane_invD(5) [OF lane] show ?thesis
    unfolding hands_simps append_Nil2 by blast
qed

theorem server_neither_loses_nor_doubles_witness:
  "\<exists>v. serving_run sample_hosting
      [SpawnerMoves, SpawnerMoves, SpawnerMoves, ConsumerMoves 0, ConsumerMoves 0, Publishes Secondary (sample_envelope 5),
        SpawnerMoves, ConsumerMoves 0, SpawnerMoves, TokenFires, SpawnerMoves, ConsumerMoves 0, JobMoves 0, ConsumerMoves 1]
      (serve [sample_job] (sample_start, 0)) = Some v
    \<and> mset (map fst (running (queue_view (\<lambda>s. s) (host_queue sample_hosting Primary) (fst (serving_state v))))) =
        {#delivery_receipt d. d \<in># deliveries (hands Primary (serving_consumers v))#}"
proof -
  let ?events = "[SpawnerMoves, SpawnerMoves, SpawnerMoves, ConsumerMoves 0, ConsumerMoves 0, Publishes Secondary (sample_envelope 5),
    SpawnerMoves, ConsumerMoves 0, SpawnerMoves, TokenFires, SpawnerMoves, ConsumerMoves 0, JobMoves 0, ConsumerMoves 1]"
  have time: "clock (files sample_start) + int (length ?events * dequeue_wait (server_timing (host_server sample_hosting)))
      \<le> instant_max"
    by (rule sample_time) simp
  from server_neither_loses_nor_doubles [OF sample_serving_ok allI [OF sample_serving_inv] time, of "[sample_job]" 0]
  show ?thesis by blast
qed

text \<open>C15: A server of which no call on the queue fails holds on to nothing: in whatever order its tasks moved, when all of them have ended, what is in progress on a lane was in progress there already when the server started, under the same receipt, on either driver.\<close>

theorem ended_server_leaves_only_what_it_found:
  assumes "host_ok h stored calm" "startable h stored calm s"
    and "clock (files s) + int (length events * dequeue_wait (server_timing (host_server h))) \<le> instant_max"
    and "serving_run h events (serve jobs (s, e)) = Some v" "server_ended v"
  shows "mset (map fst (running (queue_view stored (host_queue h lane) (fst (serving_state v)))))
    \<subseteq># mset (map fst (running (queue_view stored (host_queue h lane) s)))"
proof -
  obtain old where old: "serving_inv h stored calm (lane_ids h stored s) old 0 v" "mset old \<subseteq># mset (left_behind h stored s)"
    using serving_run_inv [OF assms(1) serving_left_inv [OF assms(2,3)], of jobs e] assms(4) by auto
  have "mset (map fst (running (queue_view stored (host_queue h lane) (fst (serving_state v))))) =
      {#delivery_receipt d. d \<in># deliveries (hands lane old)#}"
    using tracks_receipts [OF lane_invD(4) [OF serving_inv_lane [OF old(1)]]] ended_hands [OF assms(5)] by simp
  moreover have "mset (map fst (running (queue_view stored (host_queue h lane) s))) =
      {#delivery_receipt d. d \<in># deliveries (hands lane (left_behind h stored s))#}"
    by (rule tracks_receipts [OF lane_invD(4) [OF lane_inv_left [OF assms(2)]]])
  ultimately show ?thesis using image_mset_subseteq_mono [OF hands_subset [OF old(2)]] by simp
qed

text \<open>A lane with one message in progress, as a crash leaves it.\<close>

definition sample_crashed :: "sample_server stores" where
  "sample_crashed = \<lparr>files = sample_world [],
     server = (sample_lists [])(''Q:Primary:InProgress'' := [sample_to_vec (sample_envelope 3)])\<rparr>"

lemma sample_crashed_running: "running (queue_view (\<lambda>s. s) (host_queue (sample_serving r) lane) sample_crashed) =
    (if lane = Primary then [(RedisReceipt (sample_to_vec (sample_envelope 3)), sample_to_vec (sample_envelope 3))] else [])"
  unfolding sample_serving_queue
  by (cases lane) (simp_all add: opened_def open_redis_def redis_stage_key_def queue_view_def redis_view_def lane_of_lists_def
    map_receipts_def sample_crashed_def sample_lists_def)

lemma sample_crashed_startable: "startable (sample_serving r) (\<lambda>s. s) (\<lambda>_. True) sample_crashed"
proof -
  have "\<not> unreadable sample_codec (sample_to_vec (sample_envelope 3))"
    using sample_round_trip [of "sample_envelope 3" "[]"] by (simp add: unreadable_def sample_codec_def)
  moreover have "queue_inv sample_deps (\<lambda>s. s) (\<lambda>_. True) (host_queue (sample_serving r) lane) sample_crashed" for lane
    unfolding sample_serving_queue
    using sample_redis_ok
    by (cases lane) (simp_all add: queue_inv_def opened_def redis_inv_def all_stages_def stage_key_def open_redis_def
      redis_stage_key_def sample_crashed_def sample_lists_def)
  moreover have "server_deps (host_server (sample_serving r)) = sample_deps" by (simp add: sample_serving_def)
  ultimately show ?thesis by (simp add: startable_def Let_def sample_crashed_running usize_max_def)
qed

lemma sample_opens:
  "open_abandoned (host_server (sample_serving r)) (s, e) = (if 0 < e then Some (s, e) else None)"
  "open_server_queue (host_server (sample_serving r)) lane (s, e) = (Inr (host_queue (sample_serving r) lane), (s, e))"
  unfolding sample_serving_queue
  by (simp_all add: opened_def server_connect_def open_server_queue_def open_queue_def on_server_def bindE_def map_errE_def retE_def
    sample_serving_def sample_serving_settings_def)

lemma sample_counts: "consumer_count (queue_config (server_settings (host_server (sample_serving r)))) lane = 1"
  by (cases lane) (simp_all add: consumer_count_def sample_serving_def sample_serving_settings_def)

lemma sample_job_steps:
  "upcoming (host_scheduler (sample_serving r)) k e = Some 1" "utc_now (host_scheduler (sample_serving r)) e = 0"
  "select_sleep (host_scheduler (sample_serving r)) d e = (0 < e, e)"
  by (simp_all add: sample_serving_def)

lemma sample_fires: "fire_token (sample_serving r) = Suc"
  by (simp add: sample_serving_def)

lemmas sample_serving_moves = sample_opens sample_counts sample_job_steps sample_fires

text \<open>The token fires while the first lane opens.\<close>

theorem ended_server_leaves_only_what_it_found_witness:
  "\<exists>v. serving_run sample_hosting
      [SpawnerMoves, TokenFires, SpawnerMoves, SpawnerMoves, SpawnerMoves, SpawnerMoves, ConsumerMoves 0, ConsumerMoves 1,
        JobMoves 0, JobMoves 0, Publishes Secondary (sample_envelope 5)] (serve [sample_job] (sample_crashed, 0)) = Some v
    \<and> server_ended v \<and> mset (map fst (running (queue_view (\<lambda>s. s) (host_queue sample_hosting Primary) (fst (serving_state v)))))
        \<subseteq># {#RedisReceipt (sample_to_vec (sample_envelope 3))#}
    \<and> running (queue_view (\<lambda>s. s) (host_queue sample_hosting Secondary) (fst (serving_state v))) = []"
proof -
  let ?moves = "[SpawnerMoves, TokenFires, SpawnerMoves, SpawnerMoves, SpawnerMoves, SpawnerMoves, ConsumerMoves 0,
    ConsumerMoves 1, JobMoves 0, JobMoves 0]"
  let ?events = "?moves @ [Publishes Secondary (sample_envelope 5)]" and ?v = "serve [sample_job] (sample_crashed, 0 :: nat)"
  have "clock (files sample_start) + int (length ?events * dequeue_wait (server_timing (host_server sample_hosting)))
      \<le> instant_max"
    by (rule sample_time) simp
  then have time: "clock (files sample_crashed) + int (length ?events * dequeue_wait (server_timing (host_server sample_hosting)))
      \<le> instant_max"
    by (simp add: sample_start_def sample_crashed_def)
  obtain v where v: "serving_run sample_hosting ?events ?v = Some v"
    using serving_run_inv [OF sample_serving_ok serving_left_inv [OF sample_crashed_startable time]] by blast
  obtain u where u: "serving_run sample_hosting ?moves ?v = Some u" "server_ended u"
    by (simp add: serve_def all_lanes_def spawn_def sample_serving_moves server_ended_def)
  then have "serving_step sample_hosting (Publishes Secondary (sample_envelope 5)) u = Some v"
    using v unfolding serving_run_append by (cases "serving_step sample_hosting (Publishes Secondary (sample_envelope 5)) u") simp_all
  then have "same_tasks u v" by (auto simp: same_tasks_def split: prod.splits sum.splits)
  then have "server_ended v" using u(2) by (simp add: server_ended_def same_tasks_def)
  moreover have "serving_run sample_hosting ?events ?v = Some v" by (rule v)
  moreover note left = ended_server_leaves_only_what_it_found [OF sample_serving_ok sample_crashed_startable time v \<open>server_ended v\<close>]
  have "mset (map fst (running (queue_view (\<lambda>s. s) (host_queue sample_hosting Primary) (fst (serving_state v)))))
      \<subseteq># {#RedisReceipt (sample_to_vec (sample_envelope 3))#}"
    using left [of Primary] by (simp add: sample_crashed_running)
  moreover have "running (queue_view (\<lambda>s. s) (host_queue sample_hosting Secondary) (fst (serving_state v))) = []"
    using left [of Secondary] by (simp add: sample_crashed_running)
  ultimately show ?thesis unfolding append_Cons append_Nil by blast
qed

lemma sample_token: "token_lasts (sample_serving r)" "token_only (sample_serving r)" "job_returns (sample_serving r) sample_job"
  by (auto simp: token_lasts_def keeps_token_def token_only_def job_returns_def sample_serving_def sample_serving_settings_def sample_scheduler_def
    default_timing_def RETRY_DELAY_def sample_job_def run_default_lifecycle sample_outside_def echo_def Let_def)






text \<open>C3: Once the token has fired, the program that runs the server exits with success under every order of the remaining steps that gives each task its turn, whatever the queues answer, provided that the commands that messages name and those of the jobs return: a command that does not return keeps the program alive.\<close>

theorem program_ends_after_the_token:
  assumes "registry_with_plugins x (fst (load_plugins_of x st)) = Some registry" "start_async x = Inr ()"
    and "token_lasts (program_host x h st registry)" "commands_return (program_host x h st registry)"
    and "\<forall>job \<in> set (program_jobs x st). job_returns (program_host x h st registry) job"
    and "serving_run (program_host x h st registry) events (serve (program_jobs x st) v) = Some u"
    and "server_cancelled (host_server h) (snd (serving_state u))" "fair \<sigma>" "cli_server args"
  shows "\<exists>k pe v'. main_run x w tty help color (run_server x h (events @ map \<sigma> [0..<k])) (Inr (Some st, report)) args v =
      Some (pe, v') \<and> end_code pe = ExitSuccess \<and> end_stdout pe = []"
proof -
  have "server_cancelled (host_server (program_host x h st registry)) (snd (serving_state u))"
    using assms(7) by (simp add: program_host_def)
  from server_stops [OF assms(3,4,5,6) this assms(8)] obtain k u' where
    "serving_run (program_host x h st registry) (events @ map \<sigma> [0..<k]) (serve (program_jobs x st) v) = Some u'"
    "server_ended u'"
    by blast
  from run_server_ended [OF assms(1,2) this] show ?thesis
    using assms(9) by (intro exI [of _ k]) (simp add: main_run_def Let_def)
qed

definition sample_turns :: "nat \<Rightarrow> serving_event" where
  "sample_turns n = (case prod_decode n of (i, k) \<Rightarrow> [SpawnerMoves, ConsumerMoves i, JobMoves i] ! (k mod 3))"

lemma sample_turns_fair: "fair sample_turns"
proof -
  have "\<exists>m \<ge> n. sample_turns m = [SpawnerMoves, ConsumerMoves i, JobMoves i] ! j" if "j < 3" for n i j
  proof (intro exI conjI)
    show "n \<le> prod_encode (i, 3 * n + j)" using le_prod_encode_2 [of "3 * n + j" i] by linarith
    show "sample_turns (prod_encode (i, 3 * n + j)) = [SpawnerMoves, ConsumerMoves i, JobMoves i] ! j"
      using that by (simp add: sample_turns_def)
  qed
  from this [of 0] this [of 1] this [of 2] show ?thesis by (simp add: fair_def numeral_2_eq_2)
qed

lemma token_lasts_program:
  assumes "token_lasts h" "keeps_token (server_cancelled (host_server h)) run"
  shows "token_lasts (h\<lparr>host_server := (host_server h)\<lparr>run_command := run\<rparr>,
    host_scheduler := (host_scheduler h)\<lparr>sched_settings := st\<rparr>\<rparr>)"
  using assms by (simp add: token_lasts_def Let_def del: split_paired_All)

lemma sample_command_ends:
  "\<exists>r e'. lifecycle_run sample_outside st cancel cmd e = Some (r, e')"
  "keeps_token (\<lambda>e. 0 < e) (lifecycle_run sample_outside st cancel)"
  by (auto simp: keeps_token_def lifecycle_run_def run_default_lifecycle sample_outside_def split: prod.splits)

text \<open>The sample program has no plugins. Its first consumer opens its lane and polls once before the token fires.\<close>

theorem program_ends_after_the_token_witness:
  "\<exists>registry k pe v'. main_run sample_program sample_writer False ''help'' False
      (run_server sample_program (sample_serving registry)
        ([SpawnerMoves, SpawnerMoves, SpawnerMoves, ConsumerMoves 0, ConsumerMoves 0, TokenFires] @ map sample_turns [0..<k]))
      (Inr (Some sample_serving_settings, []))
      \<lparr>cli_server = True, cli_config = ''inengine.toml'', cli_subcommand = None\<rparr> (sample_start, 0) = Some (pe, v')
    \<and> end_code pe = ExitSuccess"
proof -
  let ?events = "[SpawnerMoves, SpawnerMoves, SpawnerMoves, ConsumerMoves 0, ConsumerMoves 0]"
  obtain registry where registry:
    "registry_with_plugins sample_program (fst (load_plugins_of sample_program sample_serving_settings)) = Some registry"
    using registry_with_plugins_entries by blast
  have host: "program_host sample_program (sample_serving registry) sample_serving_settings registry = (sample_serving registry)
      \<lparr>host_server := (host_server (sample_serving registry))
          \<lparr>run_command := lifecycle_run sample_outside sample_serving_settings (\<lambda>e. 0 < e)\<rparr>,
        host_scheduler := (host_scheduler (sample_serving registry))\<lparr>sched_settings := sample_serving_settings\<rparr>\<rparr>" (is "?host = _")
    by (simp add: program_host_def sample_serving_def sample_program_def sample_admin_def sample_scheduler_def)
  have jobs: "program_jobs sample_program sample_serving_settings = []"
    by (simp add: program_jobs_def schedule_with_plugins_def load_plugins_of_def from_settings_def sample_program_def
      new_schedule_def)
  have time: "clock (files sample_start) + int (length ?events * dequeue_wait (server_timing (host_server ?host))) \<le> instant_max"
    using sample_time [of "length ?events" registry] unfolding host by (simp del: of_nat_mult)
  have ok: "host_ok ?host (\<lambda>s. s) (\<lambda>_. True)"
    "queue_inv (server_deps (host_server ?host)) (\<lambda>s. s) (\<lambda>_. True) (host_queue ?host lane) sample_start
     \<and> running (queue_view (\<lambda>s. s) (host_queue ?host lane) sample_start) = []" for lane
    using sample_serving_ok [of registry] sample_serving_inv [of registry lane]
    unfolding host
    by (simp_all add: host_ok_def host_queue_def server_connect_def waits_apart_def open_server_queue_def Let_def)
  obtain u where u: "serving_run ?host ?events (serve [] (sample_start, 0)) = Some u"
    using serving_run_inv [OF ok(1) serving_idle_inv [OF allI [OF ok(2)] time]] by blast
  obtain u' where run: "serving_run ?host (?events @ [TokenFires]) (serve [] (sample_start, 0)) = Some u'"
    "server_cancelled (host_server (sample_serving registry)) (snd (serving_state u'))"
    unfolding serving_run_append u unfolding host
    by (simp add: sample_serving_def apsnd_def map_prod_def split: prod.splits)
  have lasts: "token_lasts ?host"
    unfolding host
    by (rule token_lasts_program [OF sample_token(1)])
      (use sample_command_ends(2) in \<open>simp add: sample_serving_def\<close>)
  have returns: "commands_return ?host"
    using sample_command_ends(1) unfolding host by (simp add: commands_return_def Let_def)
  have start: "start_async sample_program = Inr ()" by (simp add: sample_program_def)
  let ?args = "\<lparr>cli_server = True, cli_config = ''inengine.toml'', cli_subcommand = None\<rparr>"
  obtain k pe v' where "main_run sample_program sample_writer False ''help'' False
      (run_server sample_program (sample_serving registry) ((?events @ [TokenFires]) @ map sample_turns [0..<k]))
      (Inr (Some sample_serving_settings, [])) ?args (sample_start, 0) = Some (pe, v')" "end_code pe = ExitSuccess"
    using program_ends_after_the_token [OF registry start lasts returns, unfolded jobs, OF _ run sample_turns_fair,
        of ?args sample_writer False "''help''" False "[]"] by auto
  then show ?thesis by (intro exI [of _ registry] exI [of _ k] exI [of _ pe] exI [of _ v']) simp
qed

text \<open>C16: While the token has not fired no consumer stops, whatever fails: an opening, a dequeue or a settle that fails is tried again.\<close>

theorem consumers_serve_until_the_token:
  assumes "token_lasts h" "token_only h" "\<forall>job \<in> set jobs. job_returns h job"
    and "serving_run h events (serve jobs (s, e)) = Some v" "\<not> server_cancelled (host_server h) (snd (serving_state v))"
    and "(lane, phase, logged) \<in> set (serving_consumers v)"
  shows "phase \<noteq> Stopped"
  using in_service_run [OF assms(1,2,4) in_service_start [OF assms(3)]] assms(5,6) by (force simp: in_service_def)

theorem consumers_serve_until_the_token_witness:
  "\<exists>v queue. serving_run sample_hosting [SpawnerMoves, SpawnerMoves, SpawnerMoves, ConsumerMoves 0]
      (serve [sample_job] (sample_start, 0)) = Some v
    \<and> serving_consumers v = [(Primary, Polling queue, [])] \<and> Polling queue \<noteq> Stopped"
proof -
  let ?v = "serve [sample_job] (sample_start, 0)" and ?q = "host_queue sample_hosting Primary"
  obtain logged w where w: "report_in_progress (host_server sample_hosting) ?q (sample_start, 0) = (logged, w)"
    by (rule prod.exhaust)
  then obtain s' where report: "report_in_progress (host_server sample_hosting) ?q (sample_start, 0) = (logged, (s', 0))"
    using report_world [OF w] by (cases w) simp
  obtain v queue where v: "serving_run sample_hosting [SpawnerMoves, SpawnerMoves, SpawnerMoves, ConsumerMoves 0] ?v = Some v"
    "serving_consumers v = [(Primary, Polling queue, [])]" "snd (serving_state v) = 0"
    by (simp add: serve_def all_lanes_def spawn_def sample_serving_moves report)
  have "\<forall>job \<in> set [sample_job]. job_returns sample_hosting job" using sample_token(3) by simp
  moreover have "\<not> server_cancelled (host_server sample_hosting) (snd (serving_state v))"
    using v(3) by (simp add: sample_serving_def)
  ultimately show ?thesis
    using consumers_serve_until_the_token [OF sample_token(1,2) _ v(1), of Primary "Polling queue" "[]"] v by auto
qed

end
