(* ===== verification/Drain.thy ===== *)
theory Drain
  imports SharedLane
begin

text \<open>
  \<open>consume\<close> on a lane with any messages (\<open>Consume::run\<close> of
  \<open>src/inengine-core/src/queue_admin/messaging.rs\<close>): a bound on the number of its rounds, and what it
  leaves on the lane when its limit is not below that bound.
\<close>

section \<open>How many rounds a message takes\<close>

definition rounds :: "codec \<Rightarrow> bytes \<Rightarrow> nat" where
  "rounds c b =
     (case from_slice c b of
        Inl _ \<Rightarrow> 0
      | Inr env \<Rightarrow> max 1 (Suc (unat (max_retries env)) - unat (attempts env)))"

definition lane_rounds :: "codec \<Rightarrow> bytes list \<Rightarrow> nat" where
  "lane_rounds c bs = sum_list (map (rounds c) bs)"

text \<open>The counter of a message at its largest value wraps around when it is claimed.\<close>

definition counter_fits :: "codec \<Rightarrow> bytes \<Rightarrow> bool" where
  "counter_fits c b =
     (case from_slice c b of
        Inl _ \<Rightarrow> True
      | Inr env \<Rightarrow> unat (attempts env) < 4294967295 \<and> unat (max_retries env) < 4294967295)"

lemma lane_rounds_simps [simp]:
  "lane_rounds c [] = 0" "lane_rounds c (b # bs) = rounds c b + lane_rounds c bs"
  "lane_rounds c (as @ bs) = lane_rounds c as + lane_rounds c bs"
  by (simp_all add: lane_rounds_def)

lemma rounds_unreadable: "\<forall>b \<in> set bs. unreadable c b \<Longrightarrow> lane_rounds c bs = 0"
  by (induction bs) (auto simp: rounds_def unreadable_def split: sum.splits)

lemma rounds_readable: "from_slice c b = Inr env \<Longrightarrow> 0 < rounds c b"
  by (simp add: rounds_def)

lemma rounds_retry:
  assumes "from_slice c b = Inr env" "from_slice c b' = Inr (count_attempt env)"
    and "has_retries_left (count_attempt env)" "counter_fits c b"
  shows "Suc (rounds c b') = rounds c b" "counter_fits c b'"
proof -
  have "unat (attempts (count_attempt env)) = Suc (unat (attempts env))"
    using assms(1,4) by (intro count_attempt_unat) (simp add: counter_fits_def)
  then show "Suc (rounds c b') = rounds c b" "counter_fits c b'"
    using assms by (auto simp: rounds_def counter_fits_def has_retries_left_unat)
qed

section \<open>The rounds of a run\<close>

text \<open>
  \<open>consume_rounds\<close> lists what a run of the loop processes: each element comes from the delivery that
  its round dequeued. The state is the stores, the world and the output.
\<close>

inductive consume_rounds ::
  "'s admin_deps \<Rightarrow> 'c command_registry \<Rightarrow> ('c, 'e) blocking_run \<Rightarrow> backend \<Rightarrow> 's stores \<times> 'e \<times> output_state
     \<Rightarrow> processed_delivery list \<Rightarrow> 's stores \<times> 'e \<times> output_state \<Rightarrow> bool"
  for x registry blocking q where
  no_round: "consume_rounds x registry blocking q v [] v"
| round_then: "queue_dequeue (queue_deps x) q 0 s = Some (Inr (Some d), s1) \<Longrightarrow>
    process_delivery (queue_deps x) (packer_deps x) q d registry (\<lambda>_. False)
      (consume_closure (admin_terminal x) blocking) (s1, e, out) = Some (p, s2, e2, out2) \<Longrightarrow>
    processed_settled p = Inr outcome \<Longrightarrow>
    consume_rounds x registry blocking q (s2, e2, round_output x p outcome out2) ps v \<Longrightarrow>
    consume_rounds x registry blocking q (s, e, out) (p # ps) v"

inductive_cases consume_rounds_Nil: "consume_rounds x registry blocking q v [] v'"

text \<open>The messages that some rounds settled with an outcome, and the tally of the rounds.\<close>

definition settled_as :: "settle_outcome \<Rightarrow> processed_delivery list \<Rightarrow> uuid list" where
  "settled_as outcome ps = map processed_id (filter (\<lambda>p. processed_settled p = Inr outcome) ps)"

fun tally_rounds :: "processed_delivery list \<Rightarrow> consume_tally \<Rightarrow> consume_tally" where
  "tally_rounds [] tally = tally"
| "tally_rounds (p # ps) tally =
     tally_rounds ps (case processed_settled p of Inr outcome \<Rightarrow> record_outcome outcome tally | Inl _ \<Rightarrow> tally)"

lemma settled_as_simps [simp]:
  "settled_as outcome [] = []"
  "settled_as outcome (p # ps) = (if processed_settled p = Inr outcome then [processed_id p] else []) @ settled_as outcome ps"
  by (simp_all add: settled_as_def)

text \<open>The loop goes through its rounds.\<close>

lemma consume_loop_rounds:
  "consume_rounds x registry blocking q v ps v' \<Longrightarrow> length ps \<le> limit \<Longrightarrow>
     (case v of (s, e, out) \<Rightarrow> consume_loop x registry blocking q limit (tally, out, s, e)) =
     (case v' of (s, e, out) \<Rightarrow> consume_loop x registry blocking q (limit - length ps) (tally_rounds ps tally, out, s, e))"
proof (induction arbitrary: limit tally rule: consume_rounds.induct)
  case (round_then s d s1 e out p s2 e2 out2 outcome ps v)
  from consume_loop_round [OF round_then.hyps(1-3), of limit] round_then.IH [of "limit - 1"] round_then.prems round_then.hyps(3)
  show ?case by simp
qed simp

lemma incomplete_rounds:
  "incomplete (tally_rounds ps tally) = 0 \<longleftrightarrow>
     incomplete tally = 0 \<and> (\<forall>p \<in> set ps. \<forall>outcome. processed_settled p = Inr outcome \<longrightarrow> outcome = Acknowledged)"
proof (induction ps arbitrary: tally)
  case (Cons p ps)
  then show ?case
    by (cases "processed_settled p"; cases "projr (processed_settled p)") (auto simp: incomplete_def)
qed simp

text \<open>A round of \<open>consume\<close> settles, and it acknowledges exactly the messages whose command succeeded.\<close>

definition properly_settled :: "processed_delivery \<Rightarrow> bool" where
  "properly_settled p \<longleftrightarrow>
     (case processed_settled p of
        Inl _ \<Rightarrow> False
      | Inr outcome \<Rightarrow> outcome \<noteq> Released \<and> (outcome = Acknowledged \<longleftrightarrow> processed_attempt p = AttemptSucceeded))"

section \<open>What a run of consume leaves\<close>

text \<open>
  \<open>drains c L ps L'\<close>: from lane \<open>L\<close> to lane \<open>L'\<close> the rounds \<open>ps\<close> acknowledged every waiting message
  or moved it behind the failed ones, where the unreadable ones went too.
\<close>

definition drains :: "codec \<Rightarrow> receipt lane \<Rightarrow> processed_delivery list \<Rightarrow> receipt lane \<Rightarrow> bool" where
  "drains c L ps L' \<longleftrightarrow>
     (\<exists>ys. L' = L\<lparr>waiting := [], dead := dead L @ ys\<rparr>
       \<and> ids_in c (waiting L) = mset (settled_as Acknowledged ps) + mset (settled_as MovedToFailed ps)
       \<and> ids_in c ys = mset (settled_as MovedToFailed ps)
       \<and> length (waiting L) = length (settled_as Acknowledged ps) + length ys)
     \<and> (\<forall>p \<in> set ps. properly_settled p) \<and> length ps \<le> lane_rounds c (waiting L)"

lemma drains_unreadable:
  "waiting (lane_skip c L) = [] \<Longrightarrow> drains c L [] (lane_skip c L)"
  using ids_in_unreadable [of "waiting L" c]
  by (auto simp: drains_def lane_skip_def intro!: exI [of _ "waiting L"] dest: set_dropWhileD)

text \<open>One round in front of a run.\<close>

lemma skip_split:
  assumes "waiting (lane_skip c L) = b # bs"
  obtains us where "waiting L = us @ b # bs" "\<forall>u \<in> set us. unreadable c u" "dead (lane_skip c L) = dead L @ us"
    "running (lane_skip c L) = running L"
proof -
  let ?us = "takeWhile (unreadable c) (waiting L)"
  have "waiting L = ?us @ b # bs"
    using assms takeWhile_dropWhile_id [of "unreadable c" "waiting L"] by (simp add: lane_skip_def)
  then show thesis by (rule that) (auto simp: lane_skip_def dest: set_takeWhileD)
qed

lemma drains_round:
  assumes head: "waiting (lane_skip c L) = b # bs" and env: "from_slice c b = Inr env"
    and env': "from_slice c b' = Inr (count_attempt env)" and fits: "counter_fits c b"
    and a: "a \<noteq> Release" "a = Retry \<Longrightarrow> has_retries_left (count_attempt env)"
    and p: "processed_id p = env_id env" "processed_settled p = Inr (outcome_of a)" "properly_settled p"
    and rest: "drains c (lane_settle a b' ((lane_skip c L)\<lparr>waiting := bs\<rparr>)) ps L'"
  shows "drains c L (p # ps) L'"
proof -
  obtain us where us: "waiting L = us @ b # bs" "\<forall>u \<in> set us. unreadable c u"
    "dead (lane_skip c L) = dead L @ us" "running (lane_skip c L) = running L"
    using skip_split [OF head] .
  have ids: "ids_in c us = {#}" "lane_rounds c us = 0" "id_of c b = Some (env_id env)"
    "id_of c b' = Some (env_id env)" "0 < rounds c b" "lane_skip c L = L\<lparr>waiting := b # bs, dead := dead L @ us\<rparr>"
    using us ids_in_unreadable rounds_unreadable env env' rounds_readable head
    by (simp_all add: id_of_def lane.equality)
  let ?acked = "settled_as Acknowledged ps" and ?moved = "settled_as MovedToFailed ps"
  show ?thesis
  proof (cases a)
    case Acknowledge
    then obtain ys where "L' = L\<lparr>waiting := [], dead := dead L @ us @ ys\<rparr>" "ids_in c bs = mset ?acked + mset ?moved"
      "ids_in c ys = mset ?moved" "length bs = length ?acked + length ys"
      using rest by (auto simp: drains_def lane_settle_def ids(6))
    then show ?thesis
      using rest Acknowledge us(1) ids p
      by (auto simp: drains_def lane_settle_def intro!: exI [of _ "us @ ys"])
  next
    case Retry
    then obtain ys where "L' = L\<lparr>waiting := [], dead := dead L @ us @ ys\<rparr>"
      "add_mset (env_id env) (ids_in c bs) = mset ?acked + mset ?moved"
      "ids_in c ys = mset ?moved" "Suc (length bs) = length ?acked + length ys"
      using rest by (auto simp: drains_def lane_settle_def lane_put_def ids)
    moreover have "Suc (rounds c b') = rounds c b" using rounds_retry [OF env env' a(2) [OF Retry] fits] by simp
    ultimately show ?thesis
      using rest Retry us(1) ids p
      by (auto simp: drains_def lane_settle_def lane_put_def intro!: exI [of _ "us @ ys"])
  next
    case MoveToFailed
    then obtain ys where "L' = L\<lparr>waiting := [], dead := dead L @ us @ b' # ys\<rparr>"
      "ids_in c bs = mset ?acked + mset ?moved" "ids_in c ys = mset ?moved" "length bs = length ?acked + length ys"
      using rest by (auto simp: drains_def lane_settle_def lane_put_def ids)
    then show ?thesis
      using rest MoveToFailed us(1) ids p
      by (auto simp: drains_def lane_settle_def lane_put_def intro!: exI [of _ "us @ b' # ys"])
  qed (use a(1) in simp)
qed

section \<open>Consume ends\<close>

text \<open>Every command that a message can name returns.\<close>

definition runs_return :: "packer \<Rightarrow> 'c command_registry \<Rightarrow> ('c, 'e) blocking_run \<Rightarrow> bool" where
  "runs_return k registry blocking \<longleftrightarrow>
     (\<forall>env cmd e. to_command k env registry = Inr cmd \<longrightarrow> (\<exists>r e'. blocking cmd e = Some (r, e')))"

lemma closure_returns: "blocking cmd e = Some (r, e') \<Longrightarrow> \<exists>res v. consume_closure t blocking cmd (e, out) = Some (res, v)"
  by (cases r) (auto simp: consume_closure_def split: prod.split)

lemma attempt_returns:
  assumes "runs_return k registry blocking"
  shows "\<exists>a e' out'. run_attempt k d registry cancelled (consume_closure t blocking) (e, out) = Some (a, e', out')"
proof -
  have "\<exists>r v. consume_closure t blocking cmd (e, out) = Some (r, v)" if "to_command k (envelope d) registry = Inr cmd" for cmd
    using assms that closure_returns unfolding runs_return_def by metis
  from run_attempt_ends [of k d registry "consume_closure t blocking" "(e, out)" cancelled, OF this]
  show ?thesis by auto
qed

lemma consume_drains:
  assumes codec: "codec_ok (json_codec (queue_deps x))" and returns: "runs_return (packer_deps x) registry blocking"
  shows "queue_inv (queue_deps x) stored calm q s \<Longrightarrow> queue_timely 0 q s
    \<Longrightarrow> \<forall>b \<in> set (waiting (queue_view stored q s)). counter_fits (json_codec (queue_deps x)) b
    \<Longrightarrow> lane_rounds (json_codec (queue_deps x)) (waiting (queue_view stored q s)) < limit
    \<Longrightarrow> \<exists>ps s1 e' out' s'. consume_rounds x registry blocking q (s, e, out) ps (s1, e', out')
        \<and> queue_dequeue (queue_deps x) q 0 s1 = Some (Inr None, s')
        \<and> queue_inv (queue_deps x) stored calm q s'
        \<and> drains (json_codec (queue_deps x)) (queue_view stored q s) ps (queue_view stored q s')"
proof (induction limit arbitrary: s out e)
  case (Suc limit)
  let ?V = "queue_view stored q" and ?c = "json_codec (queue_deps x)"
  show ?case
  proof (cases "waiting (lane_skip ?c (?V s))")
    case Nil
    obtain s' where "queue_dequeue (queue_deps x) q 0 s = Some (Inr None, s')"
      "queue_inv (queue_deps x) stored calm q s'" "?V s' = lane_skip ?c (?V s)"
      using lane_of_queue.dequeue_none [OF Suc.prems(1,2) Nil] by blast
    then show ?thesis using drains_unreadable [OF Nil] no_round by (metis (no_types))
  next
    case (Cons b bs)
    obtain us where us: "waiting (?V s) = us @ b # bs" "\<forall>u \<in> set us. unreadable ?c u"
      by (rule skip_split [OF Cons])
    have "\<not> unreadable ?c b"
      using Cons hd_dropWhile [of "unreadable ?c" "waiting (?V s)"] by (simp add: lane_skip_def)
    then obtain env where env: "from_slice ?c b = Inr env" by (cases "from_slice ?c b") (auto simp: unreadable_def)
    have fits: "counter_fits ?c b" using Suc.prems(3) us(1) by simp
    let ?run = "\<lambda>rc. run_attempt (packer_deps x) (new_delivery (count_attempt env) (queue_lane_of q) rc)
      registry (\<lambda>_. False) (consume_closure (admin_terminal x) blocking) (e, out)"
    obtain a e1 out1 where a: "?run undefined = Some (a, e1, out1)" using attempt_returns [OF returns] by blast
    have any: "?run rc = Some (a, e1, out1)" for rc by (rule trans [OF run_attempt_receipt a])
    let ?act = "for_attempt (kind_of a) (count_attempt env)"
    let ?p = "\<lparr>processed_id = env_id env, processed_attempt = a, processed_settled = Inr (outcome_of ?act)\<rparr>"
    have kind: "kind_of a \<noteq> KInterrupted" by (rule run_attempt_running [OF a])
    then have act: "?act \<noteq> Release" "?act = Retry \<Longrightarrow> has_retries_left (count_attempt env)" "properly_settled ?p"
      by (cases a; simp add: properly_settled_def split: if_splits)+
    obtain d s1 s2 b' where s1: "queue_dequeue (queue_deps x) q 0 s = Some (Inr (Some d), s1)"
      "process_delivery (queue_deps x) (packer_deps x) q d registry (\<lambda>_. False)
        (consume_closure (admin_terminal x) blocking) (s1, e, out) = Some (?p, s2, e1, out1)"
      "queue_inv (queue_deps x) stored calm q s2" "queue_timely 0 q s2" "from_slice ?c b' = Inr (count_attempt env)"
      "?V s2 = lane_settle ?act b' ((lane_skip ?c (?V s))\<lparr>waiting := bs\<rparr>)"
      by (rule consume_attempt [OF codec Suc.prems(1,2) Cons env any kind]) (rule that)
    have less: "lane_rounds ?c (waiting (?V s2)) < limit" "\<forall>b \<in> set (waiting (?V s2)). counter_fits ?c b"
      using Suc.prems(3,4) us rounds_readable [OF env] rounds_unreadable [OF us(2)] act
        rounds_retry [OF env s1(5) _ fits]
      unfolding s1(6) by (cases ?act; auto simp: lane_settle_def lane_put_def)+
    from Suc.IH [OF s1(3,4) less(2,1), of e1 "round_output x ?p (outcome_of ?act) out1"] obtain ps s3 e' out' s' where ps:
      "consume_rounds x registry blocking q (s2, e1, round_output x ?p (outcome_of ?act) out1) ps (s3, e', out')"
      "queue_dequeue (queue_deps x) q 0 s3 = Some (Inr None, s')" "queue_inv (queue_deps x) stored calm q s'"
      "drains ?c (?V s2) ps (?V s')"
      by blast
    have "consume_rounds x registry blocking q (s, e, out) (?p # ps) (s3, e', out')"
      by (rule round_then [OF s1(1,2) _ ps(1)]) simp
    moreover have "drains ?c (?V s) (?p # ps) (?V s')"
      by (rule drains_round [OF Cons env s1(5) fits act(1,2) _ _ act(3)]) (use ps(4) s1(6) in simp_all)
    ultimately show ?thesis using ps(2,3) by blast
  qed
qed simp

text \<open>\<open>Consume::run\<close> opens the lane and runs the loop; it succeeds when every round completed its message.\<close>

lemma run_consume_rounds:
  assumes "open_lane x st lane s0 = (Inr q, s)"
    and "consume_rounds x registry blocking q (s, e, out) ps (s1, e', out')"
    and "length ps < (case limit of Some n \<Rightarrow> n | None \<Rightarrow> usize_max)"
    and "queue_dequeue (queue_deps x) q 0 s1 = Some (Inr None, s')" "\<forall>p \<in> set ps. properly_settled p"
  shows "\<exists>r. run_consume x registry blocking limit lane st (out, s0, e) = Some (r, out', s', e')
    \<and> (r = Inr () \<longleftrightarrow> (\<forall>p \<in> set ps. processed_attempt p = AttemptSucceeded))"
proof -
  let ?limit = "case limit of Some n \<Rightarrow> n | None \<Rightarrow> usize_max" and ?t = "tally_rounds ps empty_tally"
  have "consume_loop x registry blocking q ?limit (empty_tally, out, s, e) = Some (Inr (), ?t, out', s', e')"
    using consume_loop_rounds [OF assms(2), of ?limit empty_tally] assms(3,4) by (simp add: consume_loop.simps)
  moreover have "incomplete ?t = 0 \<longleftrightarrow> (\<forall>p \<in> set ps. processed_attempt p = AttemptSucceeded)"
    unfolding incomplete_rounds using assms(5)
    by (fastforce simp: incomplete_def empty_tally_def properly_settled_def split: sum.splits)
  ultimately show ?thesis using assms(1) by (cases "incomplete ?t = 0") (simp_all add: run_consume_def Let_def)
qed

section \<open>The property\<close>

text \<open>C4: \<open>consume\<close> whose limit is above the rounds that the messages of the lane can take ends and leaves nothing waiting, whether their commands succeed or fail, provided that they return. Its rounds (\<open>ps\<close>, each of a delivery that it dequeued) acknowledge a message exactly when its command succeeded, and every readable message was acknowledged in exactly one round or moved to failed in exactly one round and now lies behind the failed ones, with the unreadable ones; what was in progress or failed before is as it was. There are no more rounds than the attempts that the messages have left. It reports success exactly when the command of every round succeeded.\<close>

theorem consume_settles_every_message:
  assumes codec: "codec_ok (json_codec (queue_deps x))" and lane: "open_lane x st lane s0 = (Inr q, s)"
    and inv: "queue_inv (queue_deps x) stored calm q s" "queue_timely 0 q s"
    and counters: "\<forall>b \<in> set (waiting (queue_view stored q s)). counter_fits (json_codec (queue_deps x)) b"
    and limit: "lane_rounds (json_codec (queue_deps x)) (waiting (queue_view stored q s)) <
      (case limit of Some n \<Rightarrow> n | None \<Rightarrow> usize_max)"
    and returns: "runs_return (packer_deps x) registry blocking"
  shows "\<exists>ps r s1 s' e' out' ys. consume_rounds x registry blocking q (s, e, out) ps (s1, e', out')
    \<and> queue_dequeue (queue_deps x) q 0 s1 = Some (Inr None, s')
    \<and> run_consume x registry blocking limit lane st (out, s0, e) = Some (r, out', s', e')
    \<and> (r = Inr () \<longleftrightarrow> (\<forall>p \<in> set ps. processed_attempt p = AttemptSucceeded))
    \<and> (\<forall>p \<in> set ps. \<exists>outcome. processed_settled p = Inr outcome \<and> outcome \<noteq> Released
        \<and> (outcome = Acknowledged \<longleftrightarrow> processed_attempt p = AttemptSucceeded))
    \<and> queue_inv (queue_deps x) stored calm q s'
    \<and> queue_view stored q s' = (queue_view stored q s)\<lparr>waiting := [], dead := dead (queue_view stored q s) @ ys\<rparr>
    \<and> ids_in (json_codec (queue_deps x)) (waiting (queue_view stored q s)) =
        mset (settled_as Acknowledged ps) + mset (settled_as MovedToFailed ps)
    \<and> ids_in (json_codec (queue_deps x)) ys = mset (settled_as MovedToFailed ps)
    \<and> length (waiting (queue_view stored q s)) = length (settled_as Acknowledged ps) + length ys
    \<and> length ps \<le> lane_rounds (json_codec (queue_deps x)) (waiting (queue_view stored q s))"
proof -
  obtain ps s1 e' out' s' where run: "consume_rounds x registry blocking q (s, e, out) ps (s1, e', out')"
    "queue_dequeue (queue_deps x) q 0 s1 = Some (Inr None, s')" "queue_inv (queue_deps x) stored calm q s'"
    "drains (json_codec (queue_deps x)) (queue_view stored q s) ps (queue_view stored q s')"
    using consume_drains [OF codec returns inv counters limit] by blast
  obtain ys where ys: "queue_view stored q s' = (queue_view stored q s)\<lparr>waiting := [], dead := dead (queue_view stored q s) @ ys\<rparr>"
    "ids_in (json_codec (queue_deps x)) (waiting (queue_view stored q s)) =
        mset (settled_as Acknowledged ps) + mset (settled_as MovedToFailed ps)"
    "ids_in (json_codec (queue_deps x)) ys = mset (settled_as MovedToFailed ps)"
    "length (waiting (queue_view stored q s)) = length (settled_as Acknowledged ps) + length ys"
    and few: "length ps \<le> lane_rounds (json_codec (queue_deps x)) (waiting (queue_view stored q s))"
    and settled: "\<forall>p \<in> set ps. properly_settled p"
    using run(4) by (auto simp: drains_def)
  obtain r where r: "run_consume x registry blocking limit lane st (out, s0, e) = Some (r, out', s', e')"
    "r = Inr () \<longleftrightarrow> (\<forall>p \<in> set ps. processed_attempt p = AttemptSucceeded)"
    using run_consume_rounds [OF lane run(1) le_less_trans [OF few limit] run(2) settled] by blast
  have "\<forall>p \<in> set ps. \<exists>outcome. processed_settled p = Inr outcome \<and> outcome \<noteq> Released
      \<and> (outcome = Acknowledged \<longleftrightarrow> processed_attempt p = AttemptSucceeded)"
    using settled by (fastforce simp: properly_settled_def split: sum.splits)
  then show ?thesis using run(1-3) r ys few by blast
qed

definition sample_queue_settings :: queue_settings where
  "sample_queue_settings =
     \<lparr>use_compression = False, primary_queue_consumers = 1, secondary_queue_consumers = 0,
      queue_driver_of = RedisDriver, queue_name = ''Q'', queue_max_retries = 0, recover_on_start = False,
      redis_config = \<lparr>redis_host = ''h'', redis_port = 6379, redis_database = 0, redis_password = ''''\<rparr>, base_path = ''b''\<rparr>"

theorem consume_settles_every_message_witness:
  "\<exists>r out' s' e' ps ys. run_consume sample_admin sample_registry (\<lambda>cmd n. Some (Inr (Inl (failed ''no''), []), Suc n))
      None Primary sample_queue_settings (new_output False, \<lparr>files = sample_world [],
        server = sample_lists [''x'', sample_to_vec (sample_envelope 3)]\<rparr>, 0 :: nat) = Some (r, out', s', e')
    \<and> waiting (queue_view (\<lambda>s. s) sample_redis_queue s') = []
    \<and> dead (queue_view (\<lambda>s. s) sample_redis_queue s') = ys
    \<and> {#7#} = mset (settled_as Acknowledged ps) + mset (settled_as MovedToFailed ps)
    \<and> ids_in sample_codec ys = mset (settled_as MovedToFailed ps) \<and> 2 = length (settled_as Acknowledged ps) + length ys
    \<and> (r = Inr () \<longleftrightarrow> (\<forall>p \<in> set ps. processed_attempt p = AttemptSucceeded))"
proof -
  let ?bs = "[''x'', sample_to_vec (sample_envelope 3)]"
  let ?s = "\<lparr>files = sample_world [], server = sample_lists ?bs\<rparr>"
  note q = sample_redis_stores [where w = "sample_world []" and bs = ?bs]
  have slices: "sample_from_slice ''x'' = Inl (DynError ''expected value'' None)"
    "sample_from_slice (sample_to_vec (sample_envelope 3)) = Inr (sample_envelope 3)"
    using sample_round_trip [of "sample_envelope 3" "[]"] by (simp_all add: sample_from_slice_def)
  have unat3: "unat (3 :: u32) = 3" by simp
  have rounds: "lane_rounds sample_codec ?bs = 4" "\<forall>b \<in> set ?bs. counter_fits sample_codec b"
    using slices unat3
    by (simp_all add: rounds_def counter_fits_def sample_codec_def sample_envelope_def del: unat_numeral)
  have ids: "ids_in sample_codec ?bs = {#7#}"
    using slices by (simp add: ids_in_def List.map_filter_def id_of_def sample_codec_def) (simp add: sample_envelope_def)
  have opened: "open_lane sample_admin sample_queue_settings Primary ?s = (Inr sample_redis_queue, ?s)"
    by (simp add: open_lane_def open_queue_def sample_queue_settings_def map_errE_def bindE_def retE_def
        on_server_def sample_admin_def sample_redis_queue_def sample_driver_def)
  have limit: "lane_rounds (json_codec (queue_deps sample_admin)) (waiting (queue_view (\<lambda>s. s) sample_redis_queue ?s)) <
      (case None of Some n \<Rightarrow> n | None \<Rightarrow> usize_max)"
    using rounds(1) q(2) by (simp add: usize_max_def)
  have codec: "codec_ok (json_codec (queue_deps sample_admin))" using sample_codec_ok by simp
  have inv: "queue_inv (queue_deps sample_admin) (\<lambda>s. s) (\<lambda>_. True) sample_redis_queue ?s" using q(1) by simp
  have counters: "\<forall>b \<in> set (waiting (queue_view (\<lambda>s. s) sample_redis_queue ?s)).
      counter_fits (json_codec (queue_deps sample_admin)) b"
    using rounds(2) q(2) by simp
  have returns: "runs_return (packer_deps sample_admin) sample_registry (\<lambda>cmd n. Some (Inr (Inl (failed ''no''), []), Suc n))"
    by (simp add: runs_return_def)
  show ?thesis
    using consume_settles_every_message [where out = "new_output False" and e = 0, OF codec opened inv q(3) counters limit returns]
    unfolding q(2) by (elim exE conjE) (intro exI conjI, assumption, simp_all add: ids numeral_2_eq_2)
qed

end
