(* ===== verification/FileFaults.thy ===== *)
theory FileFaults
  imports FileSafety Samples
begin

text \<open>
  Publishing, claiming and recovering in the file queue when file calls fail, when the process crashes between
  two calls and when other processes work in the same directories, beside the settles of
  \<open>FileSafety\<close>.
\<close>

section \<open>A publish is all or nothing\<close>

lemma map_sum_Inr [simp]: "map_sum f id r = Inr x \<longleftrightarrow> r = Inr x"
  by (cases r) simp_all

lemma publish_triple:
  assumes K: "depends_on S K" and off: "write_names (pending_dir st) tn \<inter> S = {}" and tn: "\<not> is_hidden tn"
  shows "holds (safe (S \<union> write_names (pending_dir st) tn) (Some tn) (\<lambda>d. K d \<and> unwritten (pending_dir st) tn d))
    (store_publish c st env)
    (\<lambda>r. safe (S \<union> write_names (pending_dir st) tn) None (\<lambda>d. K d \<and>
      (if r = Inr () then \<exists>j. to_vec_pretty c env = Inr j \<and> written (pending_dir st) tn j d
       else node_at d (pending_dir st) tn = None
         \<or> (\<exists>j. to_vec_pretty c env = Inr j \<and> written (pending_dir st) tn j d))))"
    (is "holds (safe ?U _ ?I) _ (\<lambda>r. safe _ _ (?Q r))")
  unfolding store_publish_def
proof (rule holds_serialize)
  fix j assume j: "to_vec_pretty c env = Inr j"
  show "holds (safe ?U (Some tn) ?I) (with_new_name (\<lambda>name. io_to_queue (write_atomic (pending_dir st) name j)))
      (\<lambda>r. safe ?U None (?Q r))"
    by (rule holds_new_name [where I = ?I and S = ?U], assumption)
      (rule holds_map_err, rule holds_weaken [OF write_atomic_triple [OF K off tn]],
        use j in \<open>auto simp: safe_def complete_def split: if_splits sum.splits\<close>)
qed (auto simp: safe_def unwritten_def)

section \<open>What a listing keeps\<close>

text \<open>
  A predicate on the world that holds across the calls of a listing, whatever interferes: then it
  holds across whole listings, and a listing of messages shows no hidden name.
\<close>

locale kept_by_listing =
  fixes T :: "world \<Rightarrow> bool"
  assumes next_entry: "holds T fs_next_entry (\<lambda>r. T)"
    and node: "holds T (fs_node p n) (\<lambda>r. T)"
    and read_dir: "holds T (fs_read_dir p) (\<lambda>r. T)"
begin

lemma collect_messages:
  assumes "\<forall>n \<in> set names. \<not> is_hidden n"
  shows "holds T (collect_messages p es names)
    (\<lambda>r w. T w \<and> (\<forall>ns. r = Inr ns \<longrightarrow> (\<forall>n \<in> set ns. \<not> is_hidden n)))" (is "holds _ _ ?Q")
  using assms
proof (induction es arbitrary: names)
  case Nil
  then show ?case by (simp add: holds_def retE_def)
next
  case (Cons e es)
  have look: "holds T (catchE (fs_node p e) (\<lambda>file_type. case file_type of
      Inr x \<Rightarrow> if is_file x then collect_messages p es (names @ [e]) else collect_messages p es names
    | Inl error \<Rightarrow> if io_kind error = NotFound then collect_messages p es names else failE error)) ?Q"
    if "\<not> is_hidden e"
    by (rule holds_catch [OF node]) (use that Cons.prems in \<open>auto intro!: holds_fail Cons.IH split: sum.split\<close>)
  show ?case
    by (simp only: collect_messages.simps, rule holds_bind [OF next_entry]) (use Cons look in simp_all)
qed

lemma collect_settles: "holds T (collect_settles es names) (\<lambda>r. T)"
proof (induction es arbitrary: names)
  case Nil
  show ?case by (simp add: holds_def retE_def)
next
  case (Cons e es)
  show ?case
    by (simp only: collect_settles.simps, rule holds_bind [OF next_entry]) (simp_all add: Cons.IH split: option.split)
qed

lemma listing:
  "holds T (list_messages p) (\<lambda>r w. T w \<and> (\<forall>ns. r = Inr ns \<longrightarrow> (\<forall>n \<in> set ns. \<not> is_hidden n)))"
  unfolding list_messages_def
  by (rule holds_bind [OF read_dir], rule holds_bind [OF collect_messages]) (auto simp: holds_def retE_def)

lemma listing_keeps: "holds T (list_messages p) (\<lambda>r. T)"
  by (rule holds_weaken [OF listing]) auto

lemma unfinished: "holds T (unfinished_settles p) (\<lambda>r. T)"
  unfolding unfinished_settles_def
  by (rule holds_bind [OF read_dir], rule holds_bind [OF collect_settles]) (auto intro: holds_ret)

end

section \<open>A claim loses and doubles nothing\<close>

text \<open>Where the calls stand in the supply of names \<open>u\<close>: the next name is the \<open>i\<close>-th.\<close>

definition at_name ::
  "(string \<times> string) set \<Rightarrow> (nat \<Rightarrow> string) \<Rightarrow> nat \<Rightarrow> (fsys \<Rightarrow> bool) \<Rightarrow> world \<Rightarrow> bool" where
  "at_name S u i I w = (keeps_off S w \<and> uuids w = u \<and> uuid_next w = i \<and> I (dirs w))"

lemma holds_at_call:
  assumes dep: "depends_on S I"
    and ok: "\<And>t d r d'. I d \<Longrightarrow> f t d = (r, d') \<Longrightarrow> J r d'" and fault: "\<And>e d. I d \<Longrightarrow> J (Inl e) d"
  shows "holds (at_name S u i I) (syscall f) (\<lambda>r. at_name S u i (J r))"
  unfolding holds_def
proof (intro allI impI)
  fix w assume w: "at_name S u i I w"
  obtain r w' where run: "syscall f w = (r, w')" by (rule prod.exhaust)
  obtain d t where d: "agree S (dirs w) d" "keeps_off S w'" "uuids w' = uuids w" "uuid_next w' = uuid_next w"
    "(r, dirs w') = f t d \<or> (\<exists>e. r = Inl e \<and> dirs w' = d)"
    using syscall_cases [OF run [unfolded syscall_def], of S] w unfolding at_name_def by metis
  have "I d" using depends_agree [OF dep _ d(1)] w by (simp add: at_name_def)
  then have "J r (dirs w')" using d(5) ok fault by metis
  then show "at_name S u i (J (fst (syscall f w))) (snd (syscall f w))"
    using run d(2-4) w by (simp add: at_name_def)
qed

text \<open>
  The message with bytes \<open>b\<close>, published under the name \<open>k\<close>, is pending, or in progress, or failed under
  one of the names made since the \<open>m\<close>-th and before the \<open>i\<close>-th.
\<close>

definition placed ::
  "file_store \<Rightarrow> string \<Rightarrow> bytes \<Rightarrow> (nat \<Rightarrow> string) \<Rightarrow> nat \<Rightarrow> nat \<Rightarrow> fsys \<Rightarrow> bool" where
  "placed st k b u m i d =
     (let pend = node_at d (pending_dir st) k; prog = node_at d (in_progress_dir st) k in
      (\<exists>t. pend = Some (RegFile b t)) \<and> prog = None
    \<or> pend = None \<and> (\<exists>t. prog = Some (RegFile b t))
    \<or> pend = None \<and> prog = None \<and>
       (\<exists>j t. m \<le> j \<and> j < i \<and> node_at d (failed_dir st) (u j) = Some (RegFile b t)))"

definition claim_names :: "file_store \<Rightarrow> string \<Rightarrow> (nat \<Rightarrow> string) \<Rightarrow> (string \<times> string) set" where
  "claim_names st k u = {(pending_dir st, k), (in_progress_dir st, k)} \<union> {failed_dir st} \<times> range u"

definition stages_apart :: "file_store \<Rightarrow> bool" where
  "stages_apart st = distinct [pending_dir st, in_progress_dir st, failed_dir st]"

definition tracked ::
  "file_store \<Rightarrow> string \<Rightarrow> bytes \<Rightarrow> (nat \<Rightarrow> string) \<Rightarrow> nat \<Rightarrow> world \<Rightarrow> bool" where
  "tracked st k b u m w \<longleftrightarrow> m \<le> uuid_next w \<and>
     at_name (claim_names st k u) u (uuid_next w) (placed st k b u m (uuid_next w)) w"

lemma depends_placed: "depends_on (claim_names st k u) (placed st k b u m i)"
  by (auto simp: depends_on_def placed_def claim_names_def agree_def Let_def)

lemma trackedI: "at_name (claim_names st k u) u i (placed st k b u m i) w \<Longrightarrow> m \<le> i \<Longrightarrow> tracked st k b u m w"
  by (simp add: tracked_def at_name_def)

text \<open>One call that keeps the message in its places, whatever the names made so far.\<close>

lemma holds_tracked_call:
  assumes "\<And>i t d r d'. placed st k b u m i d \<Longrightarrow> f t d = (r, d') \<Longrightarrow> placed st k b u m i d' \<and> J r d'"
    and "\<And>e d. J (Inl e) d"
  shows "holds (tracked st k b u m) (syscall f) (\<lambda>r w. tracked st k b u m w \<and> J r (dirs w))"
  unfolding holds_def
proof (intro allI impI)
  fix w assume w: "tracked st k b u m w"
  let ?I = "placed st k b u m (uuid_next w)"
  have "holds (at_name (claim_names st k u) u (uuid_next w) ?I) (syscall f)
      (\<lambda>r. at_name (claim_names st k u) u (uuid_next w) (\<lambda>d. ?I d \<and> J r d))"
    by (rule holds_at_call [OF depends_placed]) (use assms in auto)
  then show "tracked st k b u m (snd (syscall f w)) \<and> J (fst (syscall f w)) (dirs (snd (syscall f w)))"
    using w unfolding holds_def tracked_def by (auto simp: at_name_def)
qed

lemma holds_tracked_keep:
  assumes "\<And>i t d r d'. placed st k b u m i d \<Longrightarrow> f t d = (r, d') \<Longrightarrow> placed st k b u m i d'"
  shows "holds (tracked st k b u m) (syscall f) (\<lambda>r. tracked st k b u m)"
  using holds_tracked_call [of st k b u m f "\<lambda>_ _. True"] assms by simp

text \<open>Calls that only look.\<close>

lemma holds_tracked_look:
  assumes "\<And>t d. snd (f t d) = d"
  shows "holds (tracked st k b u m) (syscall f) (\<lambda>r. tracked st k b u m)"
  by (rule holds_tracked_keep) (metis assms snd_conv)

lemma placed_rename_other:
  assumes "stages_apart st" "n \<noteq> k" "placed st k b u m i d"
    and "call_rename (pending_dir st) n (in_progress_dir st) n t d = (r, d')"
  shows "placed st k b u m i d'"
proof -
  have "(pending_dir st, n) \<notin> claim_names st k u" "(in_progress_dir st, n) \<notin> claim_names st k u"
    using assms(1,2) by (auto simp: claim_names_def stages_apart_def)
  from agree_rename [OF this, of d t] assms(4) show ?thesis
    using depends_agree [OF depends_placed assms(3)] by simp
qed

lemma placed_claim:
  assumes "stages_apart st" "placed st k b u m i d"
    and "call_rename (pending_dir st) k (in_progress_dir st) k t d = (r, d')"
  shows "placed st k b u m i d'"
  using assms by (auto simp: placed_def Let_def call_rename_def stages_apart_def split: option.splits if_splits)

lemma placed_fail:
  assumes "stages_apart st" "inj u" "placed st k b u m i d" "m \<le> i"
    and "call_rename (in_progress_dir st) n (failed_dir st) (u i) t d = (r, d')"
  shows "placed st k b u m (Suc i) d'"
proof (cases "n = k")
  case True
  then show ?thesis
    using assms by (auto simp: placed_def Let_def call_rename_def stages_apart_def less_Suc_eq split: option.splits if_splits)
next
  case False
  then show ?thesis
    using assms by (auto simp: placed_def Let_def call_rename_def stages_apart_def less_Suc_eq inj_eq split: option.splits if_splits)
qed

text \<open>The renames of a claim.\<close>

lemma tracked_claim_rename:
  assumes "stages_apart st"
  shows "holds (tracked st k b u m) (rename_if_present (pending_dir st) n (in_progress_dir st) n)
    (\<lambda>r. tracked st k b u m)"
  unfolding rename_if_present_def
proof (rule holds_catch [where R = "\<lambda>_. tracked st k b u m"])
  show "holds (tracked st k b u m) (fs_rename (pending_dir st) n (in_progress_dir st) n) (\<lambda>_. tracked st k b u m)"
    unfolding fs_rename_def
    by (rule holds_tracked_keep) (metis placed_rename_other [OF assms] placed_claim [OF assms])
qed (auto intro: holds_ret holds_fail split: sum.split)

lemma tracked_fail_rename:
  assumes "stages_apart st" "inj u"
  shows "holds (tracked st k b u m) (move_unreadable_to_failed st n) (\<lambda>r. tracked st k b u m)"
  unfolding holds_def
proof (intro allI impI)
  fix w assume w: "tracked st k b u m w"
  define i where "i = uuid_next w"
  let ?S = "claim_names st k u" and ?P = "\<lambda>j. placed st k b u m j"
  have at: "at_name ?S u (Suc i) (?P i) (bump w)" "next_name w = u i" "m \<le> i"
    using w by (auto simp: tracked_def at_name_def bump_def next_name_def i_def keeps_off_def)
  have up: "?P i d \<Longrightarrow> ?P (Suc i) d" for d by (auto simp: placed_def Let_def less_Suc_eq)
  have "holds (at_name ?S u (Suc i) (?P i)) (fs_rename (in_progress_dir st) n (failed_dir st) (u i))
      (\<lambda>r. at_name ?S u (Suc i) (?P (Suc i)))"
    unfolding fs_rename_def
    by (rule holds_at_call [OF depends_placed]) (use placed_fail [OF assms _ at(3)] up in auto)
  then have "holds (at_name ?S u (Suc i) (?P i))
      (catchE (rename_if_present (in_progress_dir st) n (failed_dir st) (u i)) (\<lambda>_. retE ()))
      (\<lambda>r. at_name ?S u (Suc i) (?P (Suc i)))"
    unfolding rename_if_present_def
    by (intro holds_catch [where R = "\<lambda>r. at_name ?S u (Suc i) (?P (Suc i))"])
      (auto intro: holds_ret holds_fail split: sum.split)
  then show "tracked st k b u m (snd (move_unreadable_to_failed st n w))"
    using at by (auto simp: holds_def move_unreadable_to_failed_def intro!: trackedI [of _ _ _ "Suc i"])
qed

text \<open>A read of the message itself finds its bytes where the delivery says it is.\<close>

lemma tracked_read:
  "holds (tracked st k b u m) (fs_read (in_progress_dir st) n)
     (\<lambda>r w. tracked st k b u m w \<and> (\<forall>raw. r = Inr raw \<longrightarrow> n = k \<longrightarrow>
        raw = b \<and> (\<exists>t. node_at (dirs w) (in_progress_dir st) k = Some (RegFile b t))))"
  unfolding fs_read_def
  by (rule holds_tracked_call) (auto simp: call_read_def placed_def Let_def split: option.splits node.splits)

text \<open>What a claim answers: the message it hands out is in progress, with the bytes it was read from.\<close>

definition hands_out ::
  "codec \<Rightarrow> file_store \<Rightarrow> string \<Rightarrow> bytes \<Rightarrow> queue_error + delivery option \<Rightarrow> world \<Rightarrow> bool" where
  "hands_out c st k b r w =
     (case r of
        Inr (Some d) \<Rightarrow> delivery_receipt d = FileReceipt k \<longrightarrow>
          (\<exists>t. node_at (dirs w) (in_progress_dir st) k = Some (RegFile b t))
          \<and> map_sum id count_attempt (from_slice c b) = Inr (envelope d)
      | _ \<Rightarrow> True)"

lemma hands_out_none [simp]: "hands_out c st k b (Inl e) w" "hands_out c st k b (Inr None) w"
  by (simp_all add: hands_out_def)

lemma claim_first_tracked:
  assumes "stages_apart st" "inj u"
  shows "holds (tracked st k b u m) (claim_first c st names)
    (\<lambda>r w. tracked st k b u m w \<and> hands_out c st k b r w)"
proof (induction names)
  case Nil
  show ?case by (simp add: holds_def retE_def)
next
  case (Cons n names)
  let ?T = "tracked st k b u m" and ?Q = "\<lambda>r w. tracked st k b u m w \<and> hands_out c st k b r w"
  note IH = Cons.IH
  have fail: "holds ?T (bindE (move_unreadable_to_failed st n) (\<lambda>_. claim_first c st names)) ?Q"
    by (rule holds_bind [OF tracked_fail_rename [OF assms] IH]) simp
  have "holds ?T (catchE (fs_read (in_progress_dir st) n) (\<lambda>r.
         case r of
           Inr raw \<Rightarrow> (case from_slice c raw of
                Inr env \<Rightarrow> retE (Some (new_delivery (count_attempt env) (store_lane st) (FileReceipt n)))
              | Inl _ \<Rightarrow> bindE (move_unreadable_to_failed st n) (\<lambda>_. claim_first c st names))
         | Inl error \<Rightarrow>
             if io_kind error = NotFound then claim_first c st names
             else bindE (move_unreadable_to_failed st n) (\<lambda>_. claim_first c st names))) ?Q"
  proof (rule holds_catch [OF tracked_read])
    fix r :: "io_error + bytes"
    let ?R = "\<lambda>w. ?T w \<and> (\<forall>raw. r = Inr raw \<longrightarrow> n = k \<longrightarrow>
        raw = b \<and> (\<exists>t. node_at (dirs w) (in_progress_dir st) k = Some (RegFile b t)))"
    have weak: "holds ?R m ?Q" if "holds ?T m ?Q" for m by (rule holds_weaken [OF that]) auto
    show "holds ?R (case r of
           Inr raw \<Rightarrow> (case from_slice c raw of
                Inr env \<Rightarrow> retE (Some (new_delivery (count_attempt env) (store_lane st) (FileReceipt n)))
              | Inl _ \<Rightarrow> bindE (move_unreadable_to_failed st n) (\<lambda>_. claim_first c st names))
         | Inl error \<Rightarrow>
             if io_kind error = NotFound then claim_first c st names
             else bindE (move_unreadable_to_failed st n) (\<lambda>_. claim_first c st names)) ?Q"
    proof (cases r)
      case (Inl error)
      then show ?thesis using fail IH by simp
    next
      case (Inr raw)
      have "holds ?R (retE (Some (new_delivery (count_attempt env) (store_lane st) (FileReceipt n)))) ?Q"
        if "from_slice c raw = Inr env" for env
        by (rule holds_ret) (use that Inr in \<open>auto simp: hands_out_def new_delivery_def\<close>)
      then show ?thesis using weak [OF fail] Inr by (cases "from_slice c raw") simp_all
    qed
  qed
  then show ?case
    by (simp only: claim_first.simps)
      (rule holds_bind [OF holds_map_err [OF tracked_claim_rename [OF assms(1)]]], simp_all add: IH)
qed

interpretation claiming: kept_by_listing "tracked st k b u m"
  for st :: file_store and k :: string and b :: bytes and u :: "nat \<Rightarrow> string" and m :: nat
  by (unfold_locales; unfold fs_next_entry_def fs_node_def fs_read_dir_def; rule holds_tracked_look)
    (simp_all add: call_sync_def call_node_def call_read_dir_def)

lemma claim_oldest_tracked:
  assumes "stages_apart st" "inj u"
  shows "holds (tracked st k b u m) (store_claim_oldest c st)
    (\<lambda>r w. tracked st k b u m w \<and> hands_out c st k b r w)"
  unfolding store_claim_oldest_def
  by (intro holds_bind [where R = "\<lambda>_. tracked st k b u m"] holds_map_err claiming.listing_keeps
      claim_first_tracked assms) simp_all

text \<open>The polling of a dequeue.\<close>

lemma tracked_sleep: "tracked st k b u m w \<Longrightarrow> tracked st k b u m (sleep n w)"
  by (simp add: tracked_def at_name_def sleep_def keeps_off_def)

lemma dequeue_loop_tracked:
  assumes "dequeue_loop c st deadline w = Some (r, w')" "stages_apart st" "inj u" "tracked st k b u m w"
  shows "tracked st k b u m w' \<and> hands_out c st k b r w'"
proof -
  let ?P = "\<lambda>c st deadline w y. stages_apart st \<longrightarrow> tracked st k b u m w \<longrightarrow>
    tracked st k b u m (snd y) \<and> hands_out c st k b (fst y) (snd y)"
  have "?P c st deadline w (r, w')"
  proof (rule dequeue_loop.raw_induct [where P = ?P, OF _ assms(1)])
    fix loop and c st deadline w y
    assume IH: "\<And>c st deadline w y. loop c st deadline w = Some y \<Longrightarrow> ?P c st deadline w y"
      and step: "(case call_store st (store_claim_oldest c) w of
        (Inl e, w') \<Rightarrow> Some (Inl e, w')
      | (Inr (Some d), w') \<Rightarrow> Some (Inr (Some d), w')
      | (Inr None, w') \<Rightarrow>
          (let remaining = remaining_wait deadline (clock w')
           in if remaining = 0 then Some (Inr None, w')
              else loop c st deadline (sleep (min remaining POLL_INTERVAL) w'))) = Some y"
    obtain r1 w1 where w1: "store_claim_oldest c st w = (r1, w1)" by (rule prod.exhaust)
    show "?P c st deadline w y"
    proof (intro impI)
      assume apart: "stages_apart st" and w: "tracked st k b u m w"
      have T: "tracked st k b u m w1 \<and> hands_out c st k b r1 w1"
        by (rule holdsD [OF claim_oldest_tracked [OF apart assms(3)] w w1])
      have "y = (r1, w1) \<or> loop c st deadline (sleep (min (remaining_wait deadline (clock w1)) POLL_INTERVAL) w1) = Some y"
        using step unfolding call_store_eq w1 by (auto simp: Let_def split: sum.splits option.splits if_splits)
      then show "tracked st k b u m (snd y) \<and> hands_out c st k b (fst y) (snd y)"
      proof
        assume "loop c st deadline (sleep (min (remaining_wait deadline (clock w1)) POLL_INTERVAL) w1) = Some y"
        from IH [OF this] show ?thesis using T apart tracked_sleep by blast
      qed (use T in simp)
    qed
  qed
  then show ?thesis using assms(2,4) by simp
qed

section \<open>A recovery loses and doubles nothing\<close>

text \<open>
  The message with bytes \<open>b\<close> and the name \<open>k\<close> is in progress, under its name or its settling name, or
  pending, and in one of these places only.
\<close>

definition recovering :: "file_store \<Rightarrow> string \<Rightarrow> bytes \<Rightarrow> fsys \<Rightarrow> bool" where
  "recovering st k b d =
     (node_at d (pending_dir st) k = None \<and> kept (in_progress_dir st) k b d
    \<or> (\<exists>t. node_at d (pending_dir st) k = Some (RegFile b t)) \<and> node_at d (in_progress_dir st) k = None
       \<and> node_at d (in_progress_dir st) (settling_name k) = None)"

definition recover_names :: "file_store \<Rightarrow> string \<Rightarrow> (string \<times> string) set" where
  "recover_names st k =
     {(pending_dir st, k), (in_progress_dir st, k), (in_progress_dir st, settling_name k)}"

lemma depends_recovering: "depends_on (recover_names st k) (recovering st k b)"
  by (auto simp: depends_on_def recovering_def kept_def recover_names_def agree_def)

lemma recovering_rename:
  assumes "stages_apart st" "\<not> is_hidden k" "from = n \<and> \<not> is_hidden n \<or> from = settling_name n"
    and "recovering st k b d" "call_rename (in_progress_dir st) from (pending_dir st) n t d = (r, d')"
  shows "recovering st k b d'"
proof (cases "n = k")
  case True
  then show ?thesis
    using assms by (auto simp: recovering_def kept_def call_rename_def stages_apart_def split: option.splits if_splits)
next
  case False
  have "(in_progress_dir st, from) \<notin> recover_names st k" "(pending_dir st, n) \<notin> recover_names st k"
    using assms(1-3) False not_hidden_neq_settling by (auto simp: recover_names_def stages_apart_def)
  from agree_rename [OF this, of d t] assms(4,5) show ?thesis
    using depends_agree [OF depends_recovering] by (metis snd_conv)
qed

lemma holds_recovering:
  assumes "\<And>t d r d'. recovering st k b d \<Longrightarrow> f t d = (r, d') \<Longrightarrow> recovering st k b d'"
  shows "holds (safe (recover_names st k) N (recovering st k b)) (syscall f)
    (\<lambda>r. safe (recover_names st k) N (recovering st k b))"
  by (rule holds_syscall [OF depends_recovering]) (use assms in auto)

lemma recovering_move:
  assumes "stages_apart st" "\<not> is_hidden k" "from = n \<and> \<not> is_hidden n \<or> from = settling_name n"
  shows "holds (safe (recover_names st k) N (recovering st k b))
    (io_to_queue (rename_if_present (in_progress_dir st) from (pending_dir st) n))
    (\<lambda>r. safe (recover_names st k) N (recovering st k b))"
  unfolding rename_if_present_def fs_rename_def
  by (rule holds_map_err, rule holds_catch [OF holds_recovering [OF recovering_rename [OF assms]]])
    (auto intro: holds_ret holds_fail split: sum.split)

lemma recovering_messages:
  assumes "stages_apart st" "\<not> is_hidden k"
  shows "\<forall>n \<in> set names. \<not> is_hidden n \<Longrightarrow> holds (safe (recover_names st k) N (recovering st k b))
      (recover_messages st names moved) (\<lambda>r. safe (recover_names st k) N (recovering st k b))"
proof (induction names arbitrary: moved)
  case (Cons n names)
  then show ?case
    by (simp only: recover_messages.simps, intro holds_bind [OF recovering_move [OF assms]]) simp_all
qed (simp add: holds_def retE_def)

lemma recovering_renames:
  assumes "stages_apart st" "\<not> is_hidden k"
  shows "holds (safe (recover_names st k) N (recovering st k b))
      (recover_settles st names moved) (\<lambda>r. safe (recover_names st k) N (recovering st k b))"
proof (induction names arbitrary: moved)
  case (Cons n names)
  then show ?case
    by (simp only: recover_settles.simps, intro holds_bind [OF recovering_move [OF assms]]) simp_all
qed (simp add: holds_def retE_def)

interpretation recovery: kept_by_listing "safe (recover_names st k) N (recovering st k b)"
  for st :: file_store and k :: string and N :: "string option" and b :: bytes
  by (unfold_locales; unfold fs_next_entry_def fs_node_def fs_read_dir_def; rule holds_recovering)
    (simp_all add: call_sync_def call_node_def call_read_dir_def)

lemma recover_triple:
  assumes "stages_apart st" "\<not> is_hidden k"
  shows "holds (safe (recover_names st k) N (recovering st k b)) (store_recover st)
    (\<lambda>r. safe (recover_names st k) N (recovering st k b))"
    (is "holds ?T _ _")
proof -
  have rest: "holds ?T (bindE (recover_messages st names 0) (\<lambda>moved.
      bindE (io_to_queue (unfinished_settles (in_progress_dir st))) (\<lambda>settles. recover_settles st settles moved))) (\<lambda>r. ?T)"
    if "\<forall>n \<in> set names. \<not> is_hidden n" for names
    by (rule holds_bind [OF recovering_messages [OF assms that]], rule holds_bind [OF holds_map_err [OF recovery.unfinished]])
      (simp_all add: recovering_renames [OF assms])
  show ?thesis
    unfolding store_recover_def
  proof (rule holds_bind [where R = "\<lambda>r w. ?T w \<and> (\<forall>ns. r = Inr ns \<longrightarrow> (\<forall>n \<in> set ns. \<not> is_hidden n))"])
    show "holds ?T (io_to_queue (list_messages (in_progress_dir st)))
        (\<lambda>r w. ?T w \<and> (\<forall>ns. r = Inr ns \<longrightarrow> (\<forall>n \<in> set ns. \<not> is_hidden n)))"
      by (rule holds_map_err) (use recovery.listing in simp)
    show "holds (\<lambda>w. ?T w \<and> (\<forall>ns. (Inr x :: queue_error + string list) = Inr ns \<longrightarrow> (\<forall>n \<in> set ns. \<not> is_hidden n)))
        (bindE (recover_messages st x 0) (\<lambda>moved.
          bindE (io_to_queue (unfinished_settles (in_progress_dir st))) (\<lambda>settles. recover_settles st settles moved)))
        (\<lambda>r. ?T)" for x
      using rest [of x] by (cases "\<forall>n \<in> set x. \<not> is_hidden n") (auto simp: holds_def)
  qed simp
qed

section \<open>The properties\<close>

text \<open>C9: A publish of the file queue is all or nothing: whatever file calls fail, wherever the process crashes and whatever other processes do to other names, the new message either does not show in the pending stage or has exactly its bytes; a success means the latter. Any other file is as it was.\<close>

theorem file_publish_is_atomic:
  assumes "\<not> is_hidden (next_name w)" "unwritten (pending_dir st) (next_name w) (dirs w)"
    and "(p, n) \<notin> write_names (pending_dir st) (next_name w)"
    and "keeps_off (insert (p, n) (write_names (pending_dir st) (next_name w))) w"
    and "file_publish c st env w = (r, w')"
  shows "(if r = Inr () then \<exists>j. to_vec_pretty c env = Inr j \<and> written (pending_dir st) (next_name w) j (dirs w')
      else node_at (dirs w') (pending_dir st) (next_name w) = None
        \<or> (\<exists>j. to_vec_pretty c env = Inr j \<and> written (pending_dir st) (next_name w) j (dirs w')))
    \<and> node_at (dirs w') p n = node_at (dirs w) p n"
proof -
  have K: "depends_on {(p, n)} (\<lambda>d. node_at d p n = node_at (dirs w) p n)"
    by (auto simp: depends_on_def agree_def)
  have "store_publish c st env w = (r, w')" using assms(5) by simp
  from holdsD [OF publish_triple [OF K _ assms(1)] _ this] show ?thesis
    using assms(2-4) by (simp add: safe_def)
qed

definition faulty_world :: "bytes \<Rightarrow> (rival list \<times> outcome) list \<Rightarrow> world" where
  "faulty_world b calls = (sample_world b)\<lparr>script := calls\<rparr>"

lemma faulty_world_simps:
  "next_name (faulty_world b calls) = ''aa''" "\<not> is_hidden ''aa''" "script (faulty_world b calls) = calls"
  "uuids (faulty_world b calls) = sample_uuids" "uuid_next (faulty_world b calls) = 1" "clock (faulty_world b calls) = 0"
  "dirs (faulty_world b calls) = dirs (sample_world b)"
  by (simp_all add: faulty_world_def next_name_def sample_world_def sample_uuids_def is_hidden_def numeral_2_eq_2)

theorem file_publish_is_atomic_witness:
  "\<exists>r w'. file_publish sample_codec sample_store (sample_envelope 3) (faulty_world ''old''
      [([RivalWrite ''p'' ''b'' ''x''], Proceed), ([], Proceed), ([], Proceed), ([], Proceed), ([], Crash)]) = (r, w')
    \<and> (if r = Inr () then \<exists>j. to_vec_pretty sample_codec (sample_envelope 3) = Inr j \<and> written ''p'' ''aa'' j (dirs w')
       else node_at (dirs w') ''p'' ''aa'' = None
         \<or> (\<exists>j. to_vec_pretty sample_codec (sample_envelope 3) = Inr j \<and> written ''p'' ''aa'' j (dirs w')))
    \<and> node_at (dirs w') ''p'' ''a'' = Some (RegFile ''old'' 0)"
proof -
  let ?w = "faulty_world ''old'' [([RivalWrite ''p'' ''b'' ''x''], Proceed), ([], Proceed), ([], Proceed), ([], Proceed), ([], Crash)]"
  obtain r w' where run: "file_publish sample_codec sample_store (sample_envelope 3) ?w = (r, w')" by (rule prod.exhaust)
  have names: "write_names ''p'' ''aa'' = {(''p'', ''aa''), (''p'', ''.aa.tmp'')}"
    by (simp add: write_names_def hidden_name_def TEMP_SUFFIX_def)
  have pd: "pending_dir sample_store = ''p''" by (simp add: sample_store_def)
  have "keeps_off (insert (''p'', ''a'') (write_names ''p'' ''aa'')) ?w"
    by (simp add: keeps_off_def faulty_world_simps names)
  moreover have "unwritten ''p'' ''aa'' (dirs ?w)"
    by (simp add: unwritten_def faulty_world_simps sample_node hidden_name_def) (simp add: sample_world_def)
  moreover have "(''p'', ''a'') \<notin> write_names ''p'' ''aa''" by (simp add: names)
  moreover have "node_at (dirs ?w) ''p'' ''a'' = Some (RegFile ''old'' 0)" by (simp add: faulty_world_simps sample_node)
  ultimately show ?thesis
    using file_publish_is_atomic [OF _ _ _ _ run, of "''p''" "''a''", unfolded faulty_world_simps(1) pd]
      faulty_world_simps(2) run by (intro exI [of _ r] exI [of _ w'] conjI) simp_all
qed

text \<open>C8: A dequeue of the file queue never loses a message: whatever file calls fail, wherever the process crashes and whatever other processes do to other names, a message that was pending is afterwards pending, in progress or failed, with its bytes; and when the dequeue hands it out it is in progress and is what was read.\<close>

theorem file_dequeue_never_loses:
  assumes "stages_apart st" "uuid_supply (uuids w)"
    and "keeps_off (claim_names st k (uuids w)) w"
    and "node_at (dirs w) (pending_dir st) k = Some (RegFile b t)" "node_at (dirs w) (in_progress_dir st) k = None"
    and "file_dequeue c st wait w = Some (r, w')"
  shows "placed st k b (uuids w) (uuid_next w) (uuid_next w') (dirs w') \<and> hands_out c st k b r w'"
proof -
  have "inj (uuids w)"
  proof (rule injI)
    fix i j assume "uuids w i = uuids w j"
    then show "i = j" using assms(2) unfolding uuid_supply_def by (metis less_irrefl linorder_neqE_nat)
  qed
  moreover have "tracked st k b (uuids w) (uuid_next w) w"
    using assms(3-5) by (auto simp: tracked_def at_name_def placed_def)
  ultimately show ?thesis
    using dequeue_loop_tracked [OF assms(6) [unfolded file_dequeue_def] assms(1)] by (auto simp: tracked_def at_name_def)
qed

theorem file_dequeue_never_loses_witness:
  "\<exists>r w'. file_dequeue sample_codec sample_store 5 (faulty_world ''old''
      [([RivalWrite ''p'' ''b'' ''x''], Proceed), ([], Proceed), ([], Proceed), ([Elapse 3], Fault not_found 0), ([], Crash)]) =
      Some (r, w')
    \<and> placed sample_store ''a'' ''old'' sample_uuids 1 (uuid_next w') (dirs w')
    \<and> hands_out sample_codec sample_store ''a'' ''old'' r w'"
proof -
  let ?w = "faulty_world ''old''
      [([RivalWrite ''p'' ''b'' ''x''], Proceed), ([], Proceed), ([], Proceed), ([Elapse 3], Fault not_found 0), ([], Crash)]"
  obtain r w' where run: "file_dequeue sample_codec sample_store 5 ?w = Some (r, w')"
    using dequeue_loop_returns [of sample_codec sample_store "5" ?w]
    by (auto simp: file_dequeue_def checked_deadline_def faulty_world_simps instant_max_def)
  have "keeps_off (claim_names sample_store ''a'' sample_uuids) ?w"
    by (auto simp: keeps_off_def faulty_world_simps claim_names_def sample_store_def)
  then show ?thesis
    using file_dequeue_never_loses [OF _ _ _ _ _ run, of "''a''" "''old''" 0] sample_uuid_supply run
    by (auto simp: faulty_world_simps sample_node sample_store_def stages_apart_def)
qed

text \<open>C10: A recovery of the file queue that is itself cut short loses and doubles nothing: whatever file calls fail, wherever the process crashes and whatever other processes do to other names, a message that was in progress, under its name or its settling name, is afterwards there or pending, with its bytes, and in one of these places only.\<close>

theorem file_recover_never_loses:
  assumes "stages_apart st" "\<not> is_hidden k" "keeps_off (recover_names st k) w"
    and "kept (in_progress_dir st) k b (dirs w)" "node_at (dirs w) (pending_dir st) k = None"
    and "file_recover st w = (r, w')"
  shows "kept (in_progress_dir st) k b (dirs w') \<and> node_at (dirs w') (pending_dir st) k = None
    \<or> (\<exists>t. node_at (dirs w') (pending_dir st) k = Some (RegFile b t))
      \<and> node_at (dirs w') (in_progress_dir st) k = None
      \<and> node_at (dirs w') (in_progress_dir st) (settling_name k) = None"
proof -
  have "store_recover st w = (r, w')" using assms(6) by simp
  from holdsD [OF recover_triple [OF assms(1,2), of None b] _ this] show ?thesis
    using assms(3-5) by (auto simp: safe_def recovering_def)
qed

theorem file_recover_never_loses_witness:
  "\<exists>r w'. file_recover sample_store (faulty_world ''old'' [([], Proceed), ([], Crash)]
      \<lparr>dirs := [''p'' \<mapsto> [], ''i'' \<mapsto> [(''.k.settling'', RegFile ''old'' 0), (''l'', RegFile ''new'' 0)], ''f'' \<mapsto> []]\<rparr>) = (r, w')
    \<and> (kept ''i'' ''k'' ''old'' (dirs w') \<and> node_at (dirs w') ''p'' ''k'' = None
      \<or> (\<exists>t. node_at (dirs w') ''p'' ''k'' = Some (RegFile ''old'' t)) \<and> node_at (dirs w') ''i'' ''k'' = None)"
proof -
  let ?w = "faulty_world ''old'' [([], Proceed), ([], Crash)]
      \<lparr>dirs := [''p'' \<mapsto> [], ''i'' \<mapsto> [(''.k.settling'', RegFile ''old'' 0), (''l'', RegFile ''new'' 0)], ''f'' \<mapsto> []]\<rparr>"
  obtain r w' where run: "file_recover sample_store ?w = (r, w')" by (rule prod.exhaust)
  have "kept ''i'' ''k'' ''old'' (dirs ?w)"
    by (simp add: kept_def node_at_def settling_name_def hidden_name_def SETTLING_SUFFIX_def)
  moreover have "keeps_off (recover_names sample_store ''k'') ?w"
    by (simp add: keeps_off_def faulty_world_simps)
  ultimately show ?thesis
    using file_recover_never_loses [OF _ _ _ _ _ run, of "''k''" "''old''"] run
    by (intro exI [of _ r] exI [of _ w'])
      (auto simp: sample_store_def stages_apart_def is_hidden_def node_at_def)
qed

end
