(* ===== verification/RedisFaults.thy ===== *)
theory RedisFaults
  imports QueueProperties "HOL-Library.Multiset"
begin

text \<open>
  The operations of the Redis queue that move messages between its lists, over a connection that
  fails before or after the server ran a command or a script. What is in the three lists together
  stays the same, and a message that is handed out is in progress.
\<close>

section \<open>What the lists of a lane hold\<close>

definition lane_total :: "redis_driver \<Rightarrow> (string \<Rightarrow> bytes list) \<Rightarrow> bytes multiset" where
  "lane_total d m = mset (m (pending_key d)) + mset (m (in_progress_key d)) + mset (m (failed_key d))"

definition keeps_total :: "('s \<Rightarrow> string \<Rightarrow> bytes list) \<Rightarrow> redis_driver \<Rightarrow> ('s \<Rightarrow> 'r \<times> 's) \<Rightarrow> bool" where
  "keeps_total stored d a = (\<forall>s. lane_total d (stored (snd (a s))) = lane_total d (stored s))"

named_theorems total_rules

lemma keeps_totalD: "keeps_total stored d a \<Longrightarrow> a s = (r, s') \<Longrightarrow> lane_total d (stored s') = lane_total d (stored s)"
  by (metis keeps_total_def snd_conv)

lemma keeps_ret [total_rules]: "keeps_total stored d (retE x)"
  by (simp add: keeps_total_def retE_def)

lemma keeps_bind [total_rules]:
  "keeps_total stored d m \<Longrightarrow> (\<And>x. keeps_total stored d (k x)) \<Longrightarrow> keeps_total stored d (bindE m k)"
  by (auto simp: keeps_total_def bindE_def split: prod.split sum.split) (metis snd_conv)+

lemma keeps_catch [total_rules]:
  "keeps_total stored d m \<Longrightarrow> (\<And>x. keeps_total stored d (k x)) \<Longrightarrow> keeps_total stored d (catchE m k)"
  by (auto simp: keeps_total_def catchE_def split: prod.split) (metis snd_conv)

text \<open>A request over the failing connection runs the action at most once.\<close>

lemma keeps_query [total_rules]:
  assumes "flaky_request srv" "keeps_total stored d a"
  shows "keeps_total stored d (query_async srv convert a)"
  unfolding keeps_total_def
proof
  fix s
  have "snd (request srv a s) = s \<or> snd (request srv a s) = snd (a s)"
    using assms(1) unfolding flaky_request_def by (metis snd_conv)
  then show "lane_total d (stored (snd (query_async srv convert a s))) = lane_total d (stored s)"
    using assms(2) by (auto simp: query_async_def keeps_total_def split: prod.splits sum.splits)
qed

text \<open>The keys of the three stages.\<close>

definition stage_keys :: "redis_driver \<Rightarrow> string set" where
  "stage_keys d = {pending_key d, in_progress_key d, failed_key d}"

lemma mset_hd_tl: "xs \<noteq> [] \<Longrightarrow> add_mset (hd xs) (mset (tl xs)) = mset xs"
  by (cases xs) simp_all

lemma mset_last_butlast: "xs \<noteq> [] \<Longrightarrow> add_mset (last xs) (mset (butlast xs)) = mset xs"
  by (cases xs rule: rev_cases) simp_all

lemma total_move:
  assumes "distinct [pending_key d, in_progress_key d, failed_key d]" "k1 \<in> stage_keys d" "k2 \<in> stage_keys d" "k1 \<noteq> k2"
    and "mset (m k1) = add_mset x (mset xs)" "mset ys = add_mset x (mset (m k2))"
  shows "lane_total d (m(k1 := xs, k2 := ys)) = lane_total d m"
  using assms by (auto simp: lane_total_def stage_keys_def)

lemma total_lmove:
  assumes "distinct [pending_key d, in_progress_key d, failed_key d]" "k1 \<in> stage_keys d" "k2 \<in> stage_keys d" "k1 \<noteq> k2"
  shows "lane_total d (snd (redis_lmove k1 k2 e1 e2 m)) = lane_total d m"
proof (cases "m k1 = []")
  case False
  let ?x = "if e1 = ''LEFT'' then hd (m k1) else last (m k1)"
  let ?xs = "if e1 = ''LEFT'' then tl (m k1) else butlast (m k1)"
  have "mset (m k1) = add_mset ?x (mset ?xs)"
    using mset_hd_tl [OF False] mset_last_butlast [OF False] by simp
  moreover have "snd (redis_lmove k1 k2 e1 e2 m) =
      m(k1 := ?xs, k2 := (if e2 = ''LEFT'' then ?x # m k2 else m k2 @ [?x]))"
    using False assms(4) by (simp add: redis_lmove_def Let_def)
  ultimately show ?thesis using total_move [OF assms, of m ?x ?xs] by simp
qed (simp add: redis_lmove_def)

lemma keeps_acts_as:
  "acts_as stored (\<lambda>_. True) a f \<Longrightarrow> (\<And>m. lane_total d (snd (f m)) = lane_total d m) \<Longrightarrow> keeps_total stored d a"
  unfolding acts_as_def keeps_total_def by (metis snd_conv)

section \<open>The commands and scripts\<close>

lemma redis_ok_moves:
  assumes "redis_ok (steady_request srv) stored (\<lambda>_. True)" "e1 \<in> ends" "e2 \<in> ends"
  shows "acts_as stored (\<lambda>_. True) (execute srv ''LMOVE'' [Arg k1, Arg k2, Arg e1, Arg e2]) (redis_lmove k1 k2 e1 e2)"
    and "acts_as stored (\<lambda>_. True) (execute srv ''BLMOVE'' [Arg k1, Arg k2, Arg e1, Arg e2, ArgSeconds t])
      (redis_lmove k1 k2 e1 e2)"
  using assms unfolding redis_ok_def steady_execute by blast+

text \<open>A server as documented behind a connection that may fail, and three lists.\<close>

definition flaky_lane :: "'s redis_server \<Rightarrow> ('s \<Rightarrow> string \<Rightarrow> bytes list) \<Rightarrow> redis_driver \<Rightarrow> bool" where
  "flaky_lane srv stored d =
     (redis_ok (steady_request srv) stored (\<lambda>_. True) \<and> flaky_request srv
      \<and> distinct [pending_key d, in_progress_key d, failed_key d])"

lemma keeps_lmove [total_rules]:
  assumes "flaky_lane srv stored d" "e1 \<in> ends" "e2 \<in> ends" "k1 \<in> stage_keys d" "k2 \<in> stage_keys d" "k1 \<noteq> k2"
  shows "keeps_total stored d (execute srv ''LMOVE'' [Arg k1, Arg k2, Arg e1, Arg e2])"
    and "keeps_total stored d (execute srv ''BLMOVE'' [Arg k1, Arg k2, Arg e1, Arg e2, ArgSeconds t])"
  using assms redis_ok_moves [of srv stored e1 e2 k1 k2]
  by (auto simp: flaky_lane_def intro!: keeps_acts_as total_lmove)

lemma keeps_bulk_loop:
  assumes "flaky_lane srv stored d" "e1 \<in> ends" "e2 \<in> ends" "k1 \<in> stage_keys d" "k2 \<in> stage_keys d" "k1 \<noteq> k2"
  shows "lane_total d (stored (snd (bulk_move_loop srv k1 k2 e1 e2 batch moved s))) = lane_total d (stored s)"
  using assms
proof (induction srv k1 k2 e1 e2 batch moved s rule: bulk_move_loop.induct)
  case (1 srv k1 k2 e1 e2 batch moved s)
  obtain v s' where v: "execute srv ''LMOVE'' [Arg k1, Arg k2, Arg e1, Arg e2] s = (v, s')" by (rule prod.exhaust)
  have "lane_total d (stored s') = lane_total d (stored s)" by (rule keeps_totalD [OF keeps_lmove(1) [OF "1.prems"] v])
  then show ?case
    using "1.IH" [OF _ v [symmetric] _ "1.prems"] v by (subst bulk_move_loop.simps) simp
qed

lemma keeps_bulk_move:
  assumes "flaky_lane srv stored d" "e1 \<in> ends" "e2 \<in> ends" "k1 \<in> stage_keys d" "k2 \<in> stage_keys d" "k1 \<noteq> k2"
  shows "lane_total d (stored (snd (bulk_move srv k1 k2 e1 e2 limit moved s))) = lane_total d (stored s)"
  using assms
proof (induction srv k1 k2 e1 e2 limit moved s rule: bulk_move.induct)
  case (1 srv k1 k2 e1 e2 limit moved s)
  let ?batch = "min (limit - moved) BULK_MOVE_BATCH_SIZE"
  have flaky: "flaky_request srv" using "1.prems"(1) by (simp add: flaky_lane_def)
  have "keeps_total stored d (BULK_MOVE srv k1 k2 ?batch e1 e2)"
    using keeps_bulk_loop [OF "1.prems"] by (simp add: keeps_total_def BULK_MOVE_def)
  note batch = keeps_query [OF flaky this, of reply_usize]
  obtain r s' where r: "query_async srv reply_usize (BULK_MOVE srv k1 k2 ?batch e1 e2) s = (r, s')" by (rule prod.exhaust)
  have "lane_total d (stored s') = lane_total d (stored s)" by (rule keeps_totalD [OF batch r])
  then show ?case
    using "1.IH" [OF _ refl r [symmetric] _ _ "1.prems"] r
    by (subst bulk_move.simps) (auto simp: Let_def split: sum.split)
qed

lemma acts_as_unreadable:
  assumes "flaky_lane srv stored d"
  shows "keeps_total stored d (MOVE_IF_PRESENT srv (in_progress_key d) (failed_key d) v v)"
proof (rule keeps_acts_as)
  show "acts_as stored (\<lambda>_. True) (MOVE_IF_PRESENT srv (in_progress_key d) (failed_key d) v v)
    (\<lambda>m. if v \<in> set (m (in_progress_key d))
         then (RInt 1, (let m' = m(in_progress_key d := remove1 v (m (in_progress_key d)))
                        in m'(failed_key d := v # m' (failed_key d))))
         else (RInt 0, m))"
    using acts_as_move_if_present [of "steady_request srv" stored "\<lambda>_. True" "in_progress_key d" "failed_key d" v v] assms
    by (simp add: flaky_lane_def)
next
  fix m :: "string \<Rightarrow> bytes list"
  show "lane_total d (snd (if v \<in> set (m (in_progress_key d))
         then (RInt 1, (let m' = m(in_progress_key d := remove1 v (m (in_progress_key d)))
                        in m'(failed_key d := v # m' (failed_key d))))
         else (RInt 0, m))) = lane_total d m"
    using assms by (auto simp: flaky_lane_def Let_def stage_keys_def intro!: total_move [where x = v])
qed

lemma keeps_unreadable:
  assumes "flaky_lane srv stored d"
  shows "keeps_total stored d (redis_unreadable srv d v)"
  using assms unfolding redis_unreadable_def move_if_present_def
  by (intro total_rules acts_as_unreadable) (simp_all add: flaky_lane_def)

section \<open>A dequeue\<close>

text \<open>A claim that answers an element moved it into the in-progress list.\<close>

lemma keeps_claim:
  assumes "flaky_lane srv stored d"
  shows "keeps_total stored d (claim_element srv d wait)"
  using assms keeps_lmove [OF assms, where ?k1.0 = "pending_key d" and ?k2.0 = "in_progress_key d"]
  by (auto simp: claim_element_def Let_def flaky_lane_def ends_def stage_keys_def intro!: keeps_query)

lemma claimed_in_progress:
  assumes lane: "flaky_lane srv stored d" and run: "claim_element srv d wait s = (Inr (Some v), s')"
  shows "v \<in> set (stored s' (in_progress_key d))"
proof -
  define a where "a = execute srv (if wait = 0 then ''LMOVE'' else ''BLMOVE'')
    ([Arg (pending_key d), Arg (in_progress_key d), Arg ''RIGHT'', Arg ''LEFT'']
       @ (if wait \<noteq> 0 then [ArgSeconds wait] else []))"
  have acts: "acts_as stored (\<lambda>_. True) a (redis_lmove (pending_key d) (in_progress_key d) ''RIGHT'' ''LEFT'')"
    using redis_ok_moves [where ?k1.0 = "pending_key d" and ?k2.0 = "in_progress_key d" and srv = srv and stored = stored
        and ?e1.0 = "''RIGHT''" and ?e2.0 = "''LEFT''"] lane
    by (auto simp: a_def flaky_lane_def ends_def)
  have query: "query_async srv reply_optional_bytes a s = (Inr (Some v), s')"
    using run by (simp add: claim_element_def Let_def a_def)
  then obtain e where e: "request srv a s = (Inr e, s')" "reply_optional_bytes e = Inr (Some v)"
    by (auto simp: query_async_def split: prod.splits sum.splits)
  have "e = RBulk v" using e(2) by (cases e) simp_all
  moreover have "request srv a s = (Inr (fst (a s)), snd (a s))
      \<or> (\<exists>e. request srv a s = (Inl e, s)) \<or> (\<exists>e. request srv a s = (Inl e, snd (a s)))"
    using lane unfolding flaky_lane_def flaky_request_def by blast
  then have "e = fst (a s)" "s' = snd (a s)" using e(1) by auto
  ultimately have "(RBulk v, stored s') =
      redis_lmove (pending_key d) (in_progress_key d) ''RIGHT'' ''LEFT'' (stored s)"
    using acts [unfolded acts_as_def, THEN spec, of s] by simp
  then show ?thesis by (auto simp: redis_lmove_def Let_def split: if_splits)
qed

definition hands_out_element ::
  "('s \<Rightarrow> string \<Rightarrow> bytes list) \<Rightarrow> redis_driver \<Rightarrow> queue_error + delivery option \<Rightarrow> 's \<Rightarrow> bool" where
  "hands_out_element stored d r s =
     (case r of
        Inr (Some dl) \<Rightarrow> \<exists>v. delivery_receipt dl = RedisReceipt v \<and> v \<in> set (stored s (in_progress_key d))
      | _ \<Rightarrow> True)"

lemma dequeue_loop_keeps:
  assumes "redis_dequeue_loop srv c d deadline s = Some (r, s')" "flaky_lane srv stored d"
  shows "lane_total d (stored s') = lane_total d (stored s) \<and> hands_out_element stored d r s'"
proof -
  let ?P = "\<lambda>srv c d deadline s y. flaky_lane srv stored d \<longrightarrow>
    lane_total d (stored (snd y)) = lane_total d (stored s) \<and> hands_out_element stored d (fst y) (snd y)"
  have "?P srv c d deadline s (r, s')"
  proof (rule redis_dequeue_loop.raw_induct [where P = ?P, OF _ assms(1)])
    fix loop and srv :: "'a redis_server" and c d deadline s y
    assume IH: "\<And>srv c d deadline s y. loop srv c d deadline s = Some y \<Longrightarrow> ?P srv c d deadline s y"
      and step: "(case claim_element srv d (nat (deadline - instant_now srv s)) s of
        (Inl e, s') \<Rightarrow> Some (Inl e, s')
      | (Inr None, s') \<Rightarrow> Some (Inr None, s')
      | (Inr (Some element), s') \<Rightarrow>
          (case from_slice c element of
             Inr env \<Rightarrow>
               Some (Inr (Some (new_delivery (count_attempt env) (redis_lane_id d) (RedisReceipt element))), s')
           | Inl _ \<Rightarrow>
               (case redis_unreadable srv d element s' of
                  (_, s'') \<Rightarrow> loop srv c d deadline s''))) = Some y"
    obtain r1 s1 where s1: "claim_element srv d (nat (deadline - instant_now srv s)) s = (r1, s1)" by (rule prod.exhaust)
    show "?P srv c d deadline s y"
    proof
      assume lane: "flaky_lane srv stored d"
      have t: "lane_total d (stored s1) = lane_total d (stored s)" by (rule keeps_totalD [OF keeps_claim [OF lane] s1])
      consider "y = (Inr None, s1)" | e where "y = (Inl e, s1)" | v env where "r1 = Inr (Some v)"
          "y = (Inr (Some (new_delivery (count_attempt env) (redis_lane_id d) (RedisReceipt v))), s1)"
        | v r2 s2 where "redis_unreadable srv d v s1 = (r2, s2)" "loop srv c d deadline s2 = Some y"
        using step unfolding s1 by (auto split: sum.splits option.splits prod.splits)
      then show "lane_total d (stored (snd y)) = lane_total d (stored s) \<and> hands_out_element stored d (fst y) (snd y)"
      proof cases
        case 1
        then show ?thesis using t by (auto simp: hands_out_element_def)
      next
        case (2 e)
        then show ?thesis using t by (simp add: hands_out_element_def)
      next
        case (3 v env)
        then show ?thesis
          using t claimed_in_progress [OF lane s1 [unfolded 3(1)]] by (simp add: hands_out_element_def new_delivery_def)
      next
        case (4 v r2 s2)
        then show ?thesis using IH [OF 4(2)] lane t keeps_totalD [OF keeps_unreadable [OF lane] 4(1)] by simp
      qed
    qed
  qed
  then show ?thesis using assms(2) by simp
qed

section \<open>The property\<close>

text \<open>C12: Over a connection that fails before or after the server ran a command or a script, a dequeue, a recovery and a republishing of the Redis queue neither lose nor double a message: the three lists together hold the same messages afterwards, and a message that is handed out is in progress.\<close>

theorem redis_moves_lose_nothing:
  assumes "redis_ok (steady_request srv) stored (\<lambda>_. True)" "flaky_request srv"
    and "distinct [pending_key d, in_progress_key d, failed_key d]"
    and "redis_dequeue srv c d wait s = Some (r, s')"
  shows "lane_total d (stored s') = lane_total d (stored s) \<and> hands_out_element stored d r s'
    \<and> lane_total d (stored (snd (redis_recover srv d s))) = lane_total d (stored s)
    \<and> lane_total d (stored (snd (redis_republish_failed srv d n s))) = lane_total d (stored s)"
proof -
  have lane: "flaky_lane srv stored d" using assms(1-3) by (simp add: flaky_lane_def)
  have "lane_total d (stored (snd (redis_recover srv d s))) = lane_total d (stored s)"
    unfolding redis_recover_def
    by (rule keeps_bulk_move [OF lane]) (use assms(3) in \<open>auto simp: ends_def stage_keys_def\<close>)
  moreover have "lane_total d (stored (snd (redis_republish_failed srv d n s))) = lane_total d (stored s)"
    unfolding redis_republish_failed_def
    by (rule keeps_bulk_move [OF lane]) (use assms(3) in \<open>auto simp: ends_def stage_keys_def\<close>)
  ultimately show ?thesis using dequeue_loop_keeps [OF assms(4) [unfolded redis_dequeue_def] lane] by simp
qed

text \<open>The reply of every claim is lost after the server moved the message.\<close>

theorem redis_moves_lose_nothing_witness:
  "let srv = sample_redis\<lparr>request := (\<lambda>a s. (Inl wrong_type, snd (a s)))\<rparr>; m = sample_lists [''x'', ''y''];
       m' = snd (the (redis_dequeue srv sample_codec sample_driver 0 m))
   in redis_dequeue srv sample_codec sample_driver 0 m = Some (Inl (RedisError wrong_type), m')
     \<and> lane_total sample_driver m' = {#''x'', ''y''#} \<and> lane_total sample_driver (snd (redis_recover srv sample_driver m)) = {#''x'', ''y''#}"
proof -
  let ?srv = "sample_redis\<lparr>request := (\<lambda>a s. (Inl wrong_type, snd (a s)))\<rparr>" and ?m = "sample_lists [''x'', ''y'']"
  have "steady_request ?srv = sample_redis" by (simp add: steady_request_def sample_redis_def)
  then have ok: "redis_ok (steady_request ?srv) (\<lambda>s. s) (\<lambda>_. True)" using sample_redis_ok by simp
  have flaky: "flaky_request ?srv" by (auto simp: flaky_request_def)
  have keys: "distinct [pending_key sample_driver, in_progress_key sample_driver, failed_key sample_driver]"
    by (simp add: sample_driver_keys)
  obtain m' where run: "redis_dequeue ?srv sample_codec sample_driver 0 ?m = Some (Inl (RedisError wrong_type), m')"
    by (simp add: redis_dequeue_def redis_dequeue_loop.simps claim_element_def query_async_def Let_def split: prod.splits)
  have "lane_total sample_driver ?m = {#''x'', ''y''#}" by (simp add: lane_total_def sample_driver_keys sample_lists_def)
  then show ?thesis
    using redis_moves_lose_nothing [OF ok flaky keys run] by (simp add: run Let_def)
qed

end
