(* ===== verification/Spec2Isabelle.thy ===== *)
theory Spec2Isabelle
  imports HostProperties Drain FileFaults RedisFaults
begin

text \<open>
  Verification of InEngine, the command queue and scheduler of the Rust workspace under \<open>src/\<close>
  (crates \<open>inengine-core\<close> and \<open>inengine\<close>).

  \<^bold>\<open>The program.\<close> Commands are run at once, on a cron schedule, or from a queue. A queue has two
  lanes; a lane has the stages pending, in progress and failed and lives in three directories or
  in three Redis lists. A message is an envelope in JSON that names a command of the registry and
  carries its arguments. Consumers claim the oldest message, build its command, run it and settle
  it: acknowledge, retry, move to failed, or release at a shutdown. The server runs the consumers
  of both lanes beside the jobs of the schedule, each run inside a lifecycle with pings, a time
  limit, saved output and mails. Plugins add commands and schedules as WebAssembly components,
  under a budget of memory and time. The command line publishes, consumes, inspects and repairs
  the queues and starts the server.

  \<^bold>\<open>Conventions.\<close> A Rust \<open>Result\<close> is a sum with the error on the left; \<open>u32\<close> and \<open>u64\<close> counters are
  words; durations and instants are nanoseconds; strings are lists of bytes as characters, with
  UTF-8 checked and repaired by \<open>Utf8\<close>. State is passed explicitly: a file world with a clock, a
  supply of UUIDs and a script of what interferes (rivals, failing calls, a crash), the state of
  the Redis server, and a type variable for the outside of a command. Loops that need not end are
  partial functions into options, so that not returning is the value \<open>None\<close>; no fuel is used. The
  loops that do end have their measures, or a theorem that they return.

  \<^bold>\<open>Foundations.\<close>
  \<^item> \<open>Prelude\<close>: results, sequencing, string and word helpers, rule collections.
  \<^item> \<open>Errors\<close> (\<open>error.rs\<close>): the error types with their texts, and the one-line chain.
  \<^item> \<open>Utf8\<close>: validity and lossy decoding as in the standard library.
  \<^item> \<open>FileSys\<close>: the calls of \<open>std::fs\<close>, the clock and the UUIDs that the queue uses.

  \<^bold>\<open>Queues\<close> (\<open>queue/\<close>, \<open>queue_admin/\<close>).
  \<^item> \<open>Registry\<close> (\<open>registry.rs\<close>): registration and building of commands, with the locale
    \<open>insert_once_map\<close> for the two levels of the map.
  \<^item> \<open>Envelope\<close> (\<open>envelope.rs\<close>, \<open>compression.rs\<close>, stages and lanes of \<open>mod.rs\<close>): messages, payloads.
  \<^item> \<open>Delivery\<close> (\<open>delivery.rs\<close>): receipts, settle errors and the policy table.
  \<^item> \<open>QueueDir\<close> (\<open>driver/file/dir.rs\<close>) and \<open>FileStore\<close> (\<open>driver/file/store.rs\<close>, \<open>mod.rs\<close>): the file driver,
    one file call after the other, behind the pool of blocking threads.
  \<^item> \<open>RedisDriver\<close> (\<open>driver/redis/\<close>): the Redis driver and its two Lua scripts over a server that is
    a parameter.
  \<^item> \<open>Queue\<close> (\<open>mod.rs\<close>, \<open>processing.rs\<close>): the dispatch to a driver, \<open>settle\<close>, and the processing of a
    delivery.
  \<^item> \<open>QueueAdmin\<close> (\<open>queue_admin/\<close>) and \<open>Output\<close> (\<open>output.rs\<close>): the operations of the command line with
    the text they print.

  \<^bold>\<open>Contracts of the queues.\<close>
  \<^item> \<open>LaneSpec\<close>: a lane as three lists with the abstract operations, and the locales \<open>lane_driver\<close>
    and \<open>lane_store\<close> of a driver that implements it.
  \<^item> \<open>FileView\<close>, \<open>FileRuns\<close>, \<open>FileLane\<close>, \<open>FileAdmin\<close>: the file driver meets both when nothing interferes; on
    every run time and names only go forward, and a dequeue returns.
  \<^item> \<open>RedisLane\<close>, \<open>RedisAdmin\<close>: the Redis driver meets both, given the documented list commands.
  \<^item> \<open>QueueLane\<close>: a queue on either driver meets the locale \<open>lane_queue\<close>.
  \<^item> \<open>Processing\<close>: settling and consuming as steps of the abstract lane.
  \<^item> \<open>FileSafety\<close> and \<open>FileFaults\<close>: what a settle, a publish, a claim and a recovery keep under rivals,
    failing calls and crashes between any two file calls; the locale \<open>kept_by_listing\<close> is what a predicate
    needs to hold across a listing. \<open>RedisFaults\<close>: what the moves between the lists keep over a failing connection.
  \<^item> \<open>LaneIsolation\<close>: which directories and lists an operation touches, so that the lanes of a queue do not
    disturb each other, and how far it moves the clock.
  \<^item> \<open>SharedLane\<close>: several consumers of one lane, in every order of their operations. Its \<open>lane_inv\<close>, the
    account of a lane, is what each operation of a queue keeps.
  \<^item> \<open>Drain\<close>: a run of \<open>consume\<close> on a lane with any messages, with a bound on its rounds.

  \<^bold>\<open>Around the queues.\<close>
  \<^item> \<open>Config\<close> (\<open>config/\<close>): specs, constraints, validation and lowering of the settings.
  \<^item> \<open>Commands\<close> (\<open>command.rs\<close>, \<open>commands/\<close>), \<open>Exec\<close> and \<open>Pipe\<close> (\<open>commands/exec/\<close>): contexts and deadlines,
    Echo, Chain, and external programs with their wait loop and bounded output.
  \<^item> \<open>Limiter\<close> and \<open>Plugins\<close> (\<open>plugin/\<close>): the memory budget as a step relation, the interrupts of a
    call, loading and registration.
  \<^item> \<open>Scheduling\<close> (\<open>scheduling/\<close>), \<open>Lifecycle\<close> (\<open>server/lifecycle.rs\<close>, \<open>notify.rs\<close>) and \<open>Consumers\<close>
    (\<open>server/consumers.rs\<close>): jobs, the run around a command, and the consumers of the server.
  \<^item> \<open>CommandLine\<close> (\<open>src/inengine/src/\<close>): arguments, dispatch and exit codes of the program.

  \<^bold>\<open>The whole server\<close> (\<open>server/host.rs\<close>, \<open>server/consumers.rs\<close>, \<open>scheduling/scheduler.rs\<close>).
  \<^item> \<open>Server\<close>: a consumer as steps between its await points, which are exactly the runs of \<open>Consumers\<close>.
  \<^item> \<open>Host\<close>: the task that starts the consumers, the consumers of both lanes, the jobs, the token and other
    publishers, in every order of their steps, with the invariant \<open>serving_inv\<close>.
  \<^item> \<open>Tasks\<close>: the steps of a job and of the starting task are the runs of \<open>Scheduling\<close> and \<open>Consumers\<close>.
  \<^item> \<open>Shutdown\<close>: after the token has fired \<open>serving_rank\<close> counts the steps that are left; every live task
    lowers it, so a fair order ends the server.
  \<^item> \<open>RunServer\<close> (\<open>src/inengine/src/main.rs\<close>): \<open>run_server\<close> on the registry and schedule of the plugins.
  \<^item> \<open>Samples\<close>: concrete instances on which the properties are applied.

  \<^bold>\<open>The properties\<close> are in \<open>QueueProperties\<close>, \<open>SharedLane\<close>, \<open>Drain\<close>, \<open>FileFaults\<close>, \<open>RedisFaults\<close>, \<open>Server\<close>,
  \<open>ServerProperties\<close>, \<open>HostProperties\<close> and below. Those of the server: in every order of its steps it neither loses nor doubles a message,
  its consumers serve until the token fires, then the program ends under every fair order, and an
  ended server leaves nothing in progress. Those of the queues: a failing message runs once per
  allowed attempt and ends in failed; a consume ends with every message acknowledged or failed; several consumers and restarts neither lose nor double a
  message; one lane leaves the other alone; order, settling, recovery, peeking, republishing and
  clearing refine the abstract lane on either driver; a publish, a dequeue, a settle and a recovery of
  files survive faults and crashes, and the moves of the Redis driver a failing connection; published
  commands are rebuilt from their messages. Those of the rest: Exec returns in time with the outcome
  it reports and with bounded, exactly counted output; plugins stay in their budget; a lifecycle
  returns and succeeds only when all of it did; accepted settings are in bounds; jobs fire in order;
  the registry keeps the built-in commands. Two theorems show what the code does against its own
  comments: a release that is tried again takes back two attempts, and a settle whose last sync fails
  leaves two copies.

  \<^bold>\<open>Assumptions.\<close> \<open>codec_ok\<close>: what serde writes, compact or pretty, it reads back.
  \<open>queue_inv\<close>: nothing interferes with the file calls, or the Redis server runs the list commands as
  documented and the connection works; the properties on faults drop this. \<open>queue_timely\<close>: the
  clock is not at the end of its range. \<open>host_ok\<close>: the waits of a task leave the queues to the others, and
  connecting to Redis changes nothing there. \<open>token_lasts\<close> and \<open>token_only\<close>: a fired token stays fired, it
  ends a wait at once, and only it cuts a wait short. \<open>job_returns\<close>: the command of a job returns. In
  \<open>SharedLane\<close> and \<open>Host\<close> an operation of a queue is one step; in \<open>Host\<close> a dequeue with its wait, in
  \<open>SharedLane\<close> each poll of a wait. On Redis a publish, a claim of a readable message and a settle are one server call each; the skipping of
  unreadable messages and a recovery are several, and a recovery runs before the consumers start.
  What files keep when others act between two file calls is in \<open>FileSafety\<close> and \<open>FileFaults\<close>.
  \<open>counter_fits\<close>: the counter of attempts of a message is not at the end of its range, where the next
  claim would wrap it around.

  \<^bold>\<open>Not modelled.\<close> serde, gzip, base64, the TOML reader, clap, cron expressions, HTTP, SMTP,
  processes and pipes of the operating system and the WebAssembly engine are parameters. Log
  lines other than those of a consumer and a job, and tasks that end abnormally are left out, as are the example plugins and the tests.
  The signal handlers of \<open>run_server\<close> are the event \<open>TokenFires\<close>.
\<close>

section \<open>Retries\<close>

text \<open>C1: A message that fails every attempt runs exactly \<open>max_retries + 1\<close> times (\<open>after\<close> is what one run does to the world) and then lies in the failed stage with the count of its attempts.\<close>

theorem failing_message_runs_max_retries_plus_one:
  assumes "codec_ok (json_codec (queue_deps x))" "queue_inv (queue_deps x) stored calm q s" "queue_timely 0 q s"
    and "waiting (queue_view stored q s) = [b]" "from_slice (json_codec (queue_deps x)) b = Inr env"
    and "attempts env = 0" "unat (max_retries env) < 4294967295"
    and "to_command (packer_deps x) env registry = Inr cmd"
    and "\<And>e. \<exists>r. blocking cmd e = Some (r, after e) \<and> run_kind r = KCommandFailed"
    and "unat (max_retries env) < limit"
  shows "\<exists>out' s' b'. consume_loop x registry blocking q limit (empty_tally, out, s, e) =
      Some (Inr (), empty_tally\<lparr>retried := unat (max_retries env), moved_to_failed := 1\<rparr>, out', s',
        (after ^^ (unat (max_retries env) + 1)) e)
    \<and> waiting (queue_view stored q s') = []
    \<and> dead (queue_view stored q s') = dead (queue_view stored q s) @ [b']
    \<and> from_slice (json_codec (queue_deps x)) b' = Inr (env\<lparr>attempts := max_retries env + 1\<rparr>)"
proof -
  obtain out' s' b' where "consume_loop x registry blocking q limit (empty_tally, out, s, e) =
      Some (Inr (), empty_tally\<lparr>retried := retried empty_tally + unat (max_retries env),
        moved_to_failed := Suc (moved_to_failed empty_tally)\<rparr>, out', s',
        (after ^^ Suc (unat (max_retries env))) e)"
    "from_slice (json_codec (queue_deps x)) b' = Inr (env\<lparr>attempts := max_retries env + 1\<rparr>)"
    "queue_view stored q s' = (queue_view stored q s)\<lparr>waiting := [], dead := dead (queue_view stored q s) @ [b']\<rparr>"
    using consume_failing [where blocking = blocking and after = after and cmd = cmd and n = "unat (max_retries env)"
      and tally = empty_tally and e = e and out = out, OF assms(1,9,2-5,8) _ assms(7,10)] assms(6) by auto
  then show ?thesis
    by (intro exI [of _ out'] exI [of _ s'] exI [of _ b']) (simp add: empty_tally_def)
qed

theorem failing_message_runs_max_retries_plus_one_witness:
  "\<exists>out' s' b'. consume_loop sample_admin sample_registry (\<lambda>cmd n. Some (Inr (Inl (failed ''no''), []), Suc n))
      sample_file_queue 10 (empty_tally, new_output False, sample_stores (sample_to_vec (sample_envelope 3)), 0 :: nat) =
      Some (Inr (), empty_tally\<lparr>retried := 3, moved_to_failed := 1\<rparr>, out', s', 4)
    \<and> waiting (queue_view (\<lambda>s. s) sample_file_queue s') = []
    \<and> dead (queue_view (\<lambda>s. s) sample_file_queue s') = [b']
    \<and> sample_from_slice b' = Inr ((sample_envelope 3)\<lparr>attempts := 4\<rparr>)"
proof -
  let ?b = "sample_to_vec (sample_envelope 3)"
  let ?blocking = "\<lambda>cmd n. Some (Inr (Inl (failed ''no''), []), Suc n)"
  have slice: "from_slice (json_codec (queue_deps sample_admin)) ?b = Inr (sample_envelope 3)"
    using sample_round_trip [of "sample_envelope 3" "[]"] by (simp add: sample_codec_def)
  have max: "max_retries (sample_envelope 3) = 3" "attempts (sample_envelope 3) = 0"
    by (simp_all add: sample_envelope_def)
  have u: "unat (3 :: u32) = 3" by simp
  have runs: "(Suc ^^ (unat (3 :: u32) + 1)) 0 = (4 :: nat)"
    unfolding u by (simp add: numeral_eq_Suc)
  note q = sample_queue_inv [of sample_file_queue ?b, simplified]
  show ?thesis
    using failing_message_runs_max_retries_plus_one [where x = sample_admin and stored = "\<lambda>s. s" and calm = "\<lambda>_. True"
        and q = sample_file_queue and s = "sample_stores ?b" and b = ?b and env = "sample_envelope 3"
        and registry = sample_registry and cmd = "''{}''" and blocking = ?blocking and after = Suc and limit = 10
        and out = "new_output False" and e = 0, OF _ _ _ _ slice max(2)]
      sample_codec_ok q sample_to_command [of 3] runs
    by (simp add: max run_kind_def sample_codec_def)
qed

end
